(* ===== verification/Gateway_Prelude.thy ===== *)
theory Gateway_Prelude
  imports Main "HOL-Library.Word"
begin

text \<open>
  Shared ground of the development.  A C function that may run into undefined behaviour
  returns \<open>fault + 'a\<close>: \<open>Inl\<close> names what went wrong (a NULL pointer or a freed object is
  dereferenced, a copy leaves its buffer, a loop makes no progress, a union is read as a member it does
  not hold), \<open>Inr\<close> holds the C
  return values together with the new state.  Error codes of the source are ordinary
  results, never faults.

  Pointers are \<open>ptr\<close>: \<open>None\<close> is NULL, \<open>Some a\<close> an address.  Addresses are logical names
  that are never handed out twice, so a dangling pointer stays recognisable.
\<close>

subsection \<open>Bytes, pointers, faults\<close>

type_synonym byte = "8 word"
type_synonym bytes = "byte list"
type_synonym addr = nat
type_synonym ptr = "addr option"

abbreviation NULL :: ptr where
  "NULL \<equiv> None"

datatype fault = Null_deref | Use_after_free | Buffer_overflow | No_progress | Union_mismatch

named_theorems bnd_simps
named_theorems frame_simps

subsection \<open>Sequencing of calls that may fault\<close>

fun bnd :: "fault + 'a \<Rightarrow> ('a \<Rightarrow> fault + 'b) \<Rightarrow> fault + 'b" where
  "bnd (Inl e) f = Inl e"
| "bnd (Inr x) f = f x"

lemma bnd_cong [fundef_cong]:
  "m = m' \<Longrightarrow> (\<And>x. m' = Inr x \<Longrightarrow> f x = g x) \<Longrightarrow> bnd m f = bnd m' g"
  by (cases m') auto

lemma bnd_weak_cong: "m = m' \<Longrightarrow> bnd m f = bnd m' f"
  by simp

lemma bnd_eq_Inr [bnd_simps]: "bnd m f = Inr y \<longleftrightarrow> (\<exists>x. m = Inr x \<and> f x = Inr y)"
  by (cases m) auto

lemma bnd_eq_Inl [bnd_simps]:
  "bnd m f = Inl e \<longleftrightarrow> m = Inl e \<or> (\<exists>x. m = Inr x \<and> f x = Inl e)"
  by (cases m) auto

lemma bnd_assoc: "bnd (bnd m f) g = bnd m (\<lambda>x. bnd (f x) g)"
  by (cases m) auto

lemma bnd_right [simp]: "bnd m Inr = m"
  by (cases m) auto

lemma bndI: "m = Inr x \<Longrightarrow> f x = r \<Longrightarrow> bnd m f = r"
  by simp

lemma bnd_InrE:
  assumes "bnd m f = Inr y"
  obtains x where "m = Inr x" and "f x = Inr y"
  using assms by (auto simp: bnd_simps)

subsection \<open>Objects behind pointers\<close>

text \<open>\<open>deref m p\<close> is the object \<open>p\<close> points to in the heap \<open>m\<close>, with its address.\<close>

definition deref :: "(addr \<rightharpoonup> 'x) \<Rightarrow> ptr \<Rightarrow> fault + (addr \<times> 'x)" where
  "deref m p = (case p of None \<Rightarrow> Inl Null_deref
     | Some a \<Rightarrow> (case m a of None \<Rightarrow> Inl Use_after_free | Some x \<Rightarrow> Inr (a, x)))"

lemma deref_NULL [simp]: "deref m None = Inl Null_deref"
  by (simp add: deref_def)

lemma deref_live [simp]: "m a = Some x \<Longrightarrow> deref m (Some a) = Inr (a, x)"
  by (simp add: deref_def)

lemma deref_freed [simp]: "m a = None \<Longrightarrow> deref m (Some a) = Inl Use_after_free"
  by (simp add: deref_def)

lemma deref_eq_Inr [bnd_simps]: "deref m p = Inr (a, x) \<longleftrightarrow> p = Some a \<and> m a = Some x"
  by (auto simp: deref_def split: option.splits)

subsection \<open>Copies between buffers\<close>

text \<open>
  \<open>poke dst off src\<close> is the memory of \<open>dst\<close> after \<open>memcpy(dst + off, src, |src|)\<close>,
  \<open>peek src off n\<close> the \<open>n\<close> bytes a \<open>memcpy\<close> reads at \<open>src + off\<close>.
\<close>

definition poke :: "bytes \<Rightarrow> nat \<Rightarrow> bytes \<Rightarrow> fault + bytes" where
  "poke dst off src =
     (if off + length src \<le> length dst
      then Inr (take off dst @ src @ drop (off + length src) dst) else Inl Buffer_overflow)"

definition peek :: "bytes \<Rightarrow> nat \<Rightarrow> nat \<Rightarrow> fault + bytes" where
  "peek src off n =
     (if off + n \<le> length src then Inr (take n (drop off src)) else Inl Buffer_overflow)"

lemma poke_Inr [bnd_simps]:
  "poke dst off src = Inr r \<longleftrightarrow>
     off + length src \<le> length dst \<and> r = take off dst @ src @ drop (off + length src) dst"
  by (auto simp: poke_def)

lemma peek_Inr [bnd_simps]:
  "peek src off n = Inr r \<longleftrightarrow> off + n \<le> length src \<and> r = take n (drop off src)"
  by (auto simp: peek_def)

lemma poke_length: "poke dst off src = Inr r \<Longrightarrow> length r = length dst"
  by (auto simp: poke_Inr)

lemma poke_take:
  "poke dst off src = Inr r \<Longrightarrow> take (off + length src) r = take off dst @ src"
  by (auto simp: poke_Inr)

subsection \<open>Sizes\<close>

text \<open>
  \<open>size_t\<close> has 32 bits on every hardware target of the repository; the sum of two sizes
  wraps.  Lengths of real buffers are natural numbers, and the wrap-around is written out
  in the guards whose outcome may depend on it.
\<close>

definition size_add :: "nat \<Rightarrow> nat \<Rightarrow> nat" where
  "size_add a b = (a + b) mod 2 ^ 32"

lemma size_add_exact [simp]: "a + b < 2 ^ 32 \<Longrightarrow> size_add a b = a + b"
  by (simp add: size_add_def)

lemma size_add_le: "size_add a b \<le> a + b"
  by (simp add: size_add_def)

subsection \<open>FIFOs and chunked streams\<close>

text \<open>A FIFO of the kernel is the list of its elements; getting from an empty one is NULL.\<close>

fun fifo_get :: "'x list \<Rightarrow> 'x option \<times> 'x list" where
  "fifo_get [] = (None, [])"
| "fifo_get (x # xs) = (Some x, xs)"

lemma fifo_get_contents: "fifo_get xs = (x, ys) \<Longrightarrow> xs = (case x of None \<Rightarrow> [] | Some v \<Rightarrow> [v]) @ ys"
  by (cases xs) auto

lemma fifo_get_size: "fifo_get xs = (x, ys) \<Longrightarrow> length ys + (if x = None then 0 else 1) = length xs"
  by (cases xs) auto

text \<open>The reference reading of a byte stream cut into blocks of \<open>n\<close> bytes.\<close>

function chunks :: "nat \<Rightarrow> 'x list \<Rightarrow> 'x list list" where
  "chunks n xs = (if xs = [] \<or> n = 0 then [] else take n xs # chunks n (drop n xs))"
  by pat_completeness auto
termination
  by (relation "measure (\<lambda>(n, xs). length xs)") auto

declare chunks.simps [simp del]

lemma chunks_Nil [simp]: "chunks n [] = []"
  by (simp add: chunks.simps)

lemma concat_chunks: "0 < n \<Longrightarrow> concat (chunks n xs) = xs"
proof (induction n xs rule: chunks.induct)
  case (1 n xs)
  then show ?case by (cases "xs = []") (auto simp: chunks.simps [of n xs])
qed

lemma chunks_full_append:
  assumes "length x = n" and "0 < n"
  shows "chunks n (x @ xs) = x # chunks n xs"
  using assms by (subst chunks.simps) auto

lemma chunks_single: "xs \<noteq> [] \<Longrightarrow> length xs \<le> n \<Longrightarrow> chunks n xs = [xs]"
  by (subst chunks.simps) (cases xs; auto)

lemma chunks_concat_full:
  assumes "\<forall>x \<in> set bs. length x = n" and "0 < n" and "rest \<noteq> []" and "length rest \<le> n"
  shows "chunks n (concat bs @ rest) = bs @ [rest]"
  using assms by (induction bs) (auto simp: chunks_full_append chunks_single)

lemma chunks_nonempty: "c \<in> set (chunks n xs) \<Longrightarrow> c \<noteq> []"
proof (induction n xs rule: chunks.induct)
  case (1 n xs)
  then show ?case by (cases "xs = [] \<or> n = 0") (auto simp: chunks.simps [of n xs])
qed

lemma chunks_concat_exact: "\<forall>x \<in> set bs. length x = n \<Longrightarrow> 0 < n \<Longrightarrow> chunks n (concat bs) = bs"
  by (induction bs) (auto simp: chunks_full_append)

end
