(* ===== verification/Platform.thy ===== *)
theory Platform
  imports Gateway_Prelude
begin

text \<open>
  The platform the gateway runs on.  The code under \<open>src/\<close> calls the Zephyr Bluetooth host,
  the Golioth firmware SDK, mbedTLS and the Pouch GATT packetizer, none of which is part of
  the repository.  Every such call is an \<open>ext_call\<close>: it is appended to the trace of the
  world and its return value is chosen by the environment \<open>ret E\<close>, which sees the whole
  history, so that the same call may succeed once and fail the next time.  The theorems hold
  for every environment.  \<open>malloc\<close> is treated the same way; a successful allocation returns
  a fresh address.  The Kconfig options are fields of the environment, too.
\<close>

subsection \<open>Names used by the calls\<close>

type_synonym conn = nat \<comment> \<open>\<open>bt_conn_index\<close> of a connection\<close>
type_synonym handle = "16 word" \<comment> \<open>ATT handles, \<open>uint16_t\<close>\<close>
type_synonym uuid = "128 word" \<comment> \<open>UUIDs, the 16-bit ones in their expanded form\<close>

datatype discover_type = Discover_primary | Discover_characteristic | Discover_descriptor

text \<open>Which of the functions of the gateway a GATT request names as its callback.\<close>

datatype gatt_cb = Cb_discover_services | Cb_discover_characteristics | Cb_discover_descriptors
  | Cb_server_cert_read | Cb_device_cert_read | Cb_server_cert_write_response
  | Cb_uplink_read | Cb_uplink_indicate | Cb_downlink_write_response

text \<open>The union of GATT parameter blocks in \<open>struct pouch_gateway_node_info\<close>.\<close>

datatype gatt_params =
    No_params
  | Discover_params gatt_cb discover_type handle handle "uuid option"
  | Read_params gatt_cb handle
  | Subscribe_params gatt_cb handle handle
  | Write_params gatt_cb handle bytes

datatype ext_call =
    Malloc
  | Uplink_start ptr
  | Uplink_block int "32 word" bytes bool
  | Uplink_finish int
  | Device_cert_set bytes
  | Server_cert_get
  | X509_parse bytes
  | Packetizer_start ptr
  | Packetizer_finish ptr
  | Packetizer_error ptr
  | Gatt_discover conn gatt_params
  | Gatt_read conn gatt_params
  | Gatt_write conn gatt_params
  | Gatt_subscribe conn gatt_params
  | Gatt_unsubscribe conn gatt_params
  | Conn_disconnect conn
  | Conn_unref conn
  | Scan_start
  | Scan_stop
  | Conn_create bytes
  | Work_schedule nat
  | Bt_enable
  | Client_create
  | Client_register bool
  | Lte_connect
  | Dhcp_start
  | Net_callback

subsection \<open>Error numbers\<close>

abbreviation ENOMEM :: int where "ENOMEM \<equiv> 12"
abbreviation EAGAIN :: int where "EAGAIN \<equiv> 11"
abbreviation EINVAL :: int where "EINVAL \<equiv> 22"
abbreviation ENODATA :: int where "ENODATA \<equiv> 61"
abbreviation ENOSPC :: int where "ENOSPC \<equiv> 28"
abbreviation EIO :: int where "EIO \<equiv> 5"

text \<open>The values of \<open>enum golioth_status\<close> the gateway tests for or returns.\<close>

datatype golioth_status = GOLIOTH_OK | GOLIOTH_ERR_NACK | GOLIOTH_ERR_MEM_ALLOC
  | GOLIOTH_ERR_COAP_RESPONSE | GOLIOTH_ERR_OTHER

text \<open>The results of the packetizer's fill callbacks and of \<open>pouch_gatt_packetizer_get\<close>.\<close>

datatype pk_result = PK_MORE_DATA | PK_NO_MORE_DATA | PK_ERROR | PK_EMPTY_PAYLOAD

subsection \<open>The environment\<close>

record env =
  max_block_size :: nat \<comment> \<open>\<open>CONFIG_GOLIOTH_BLOCKWISE_UPLOAD_MAX_BLOCK_SIZE\<close>\<close>
  num_blocks :: nat \<comment> \<open>\<open>CONFIG_POUCH_GATEWAY_NUM_BLOCKS\<close>\<close>
  device_cert_max :: nat \<comment> \<open>\<open>CONFIG_POUCH_GATEWAY_DEVICE_CERT_MAX_LEN\<close>\<close>
  server_cert_max :: nat \<comment> \<open>\<open>CONFIG_POUCH_GATEWAY_SERVER_CERT_MAX_LEN\<close>\<close>
  cloud :: bool \<comment> \<open>\<open>CONFIG_POUCH_GATEWAY_CLOUD\<close>\<close>
  ret :: "ext_call list \<Rightarrow> ext_call \<Rightarrow> int"
  garbage :: "addr \<Rightarrow> nat \<Rightarrow> byte" \<comment> \<open>contents of uninitialised memory\<close>
  downloaded :: "ext_call list \<Rightarrow> bytes" \<comment> \<open>what \<open>golioth_gateway_server_cert_get\<close> stores\<close>
  serial_of :: "bytes \<Rightarrow> bytes" \<comment> \<open>the serial number mbedTLS finds in a certificate\<close>
  builtin_cert :: "bytes option" \<comment> \<open>the built-in server certificate, if configured\<close>
  mtu :: "ext_call list \<Rightarrow> conn \<Rightarrow> nat" \<comment> \<open>\<open>bt_gatt_get_mtu\<close>\<close>
  pk_room :: "nat \<Rightarrow> nat" \<comment> \<open>room the packetizer leaves for payload in a buffer\<close>
  pk_encode :: "pk_result \<Rightarrow> bytes \<Rightarrow> pk_result \<times> bytes" \<comment> \<open>the packet made of what the callback filled in\<close>
  pk_decode :: "bytes \<Rightarrow> int + (bytes \<times> bool)" \<comment> \<open>error code, or payload and last mark\<close>

text \<open>An error number that fits is told from success in a \<open>uint8_t\<close>, too.\<close>

lemma uint8_error:
  assumes "- 256 < r" and "r \<le> 0"
  shows "(word_of_int r :: byte) = 0 \<longleftrightarrow> r = 0"
proof -
  have "(word_of_int r :: byte) = 0 \<longleftrightarrow> 256 dvd r" by (simp add: word_of_int_eq_0_iff)
  also have "\<dots> \<longleftrightarrow> r = 0" using assms zdvd_imp_le [of 256 "- r"] by auto
  finally show ?thesis .
qed

text \<open>The options Kconfig accepts: non-empty blocks and a non-empty pool, 32-bit sizes.\<close>

definition wf_env :: "'a env_scheme \<Rightarrow> bool" where
  "wf_env E \<longleftrightarrow> 0 < max_block_size E \<and> max_block_size E < 2 ^ 31 \<and> 0 < num_blocks E"

lemma wf_env_block_pos [simp, intro]: "wf_env E \<Longrightarrow> 0 < max_block_size E"
  by (simp add: wf_env_def)

text \<open>
  A small configuration in which every external call succeeds (status 0, pointers non-NULL);
  the witnesses of the properties run the code in it.
\<close>

definition small_env :: env where
  "small_env = \<lparr>max_block_size = 4, num_blocks = 3, device_cert_max = 8, server_cert_max = 8,
     cloud = True, ret = (\<lambda>_ c. case c of Malloc \<Rightarrow> 1 | Uplink_start _ \<Rightarrow> 1
       | Packetizer_start _ \<Rightarrow> 1 | Client_create \<Rightarrow> 1 | _ \<Rightarrow> 0),
     garbage = (\<lambda>_ _. 0), downloaded = (\<lambda>_. [1, 2, 3, 4, 5]), serial_of = take 2,
     builtin_cert = None, mtu = (\<lambda>_ _. 23), pk_room = (\<lambda>n. n - 1),
     pk_encode = (\<lambda>r bs. if r = PK_MORE_DATA \<and> bs = [] then (PK_EMPTY_PAYLOAD, [])
       else (r, (if r = PK_NO_MORE_DATA then 1 else 0) # bs)),
     pk_decode = (\<lambda>p. case p of [] \<Rightarrow> Inl (- EINVAL) | h # bs \<Rightarrow> Inr (bs, h = 1))\<rparr>"

lemma small_env_simps [simp]:
  "max_block_size small_env = 4" "num_blocks small_env = 3" "device_cert_max small_env = 8"
  "server_cert_max small_env = 8" "cloud small_env" "wf_env small_env"
  "ret small_env t Malloc = 1" "ret small_env t (Uplink_start p) = 1"
  "ret small_env t (Uplink_block s i bs l) = 0" "garbage small_env a k = 0"
  "downloaded small_env t = [1, 2, 3, 4, 5]" "serial_of small_env bs = take 2 bs"
  "ret small_env t Server_cert_get = 0" "ret small_env t (X509_parse bs) = 0"
  "ret small_env t (Device_cert_set bs) = 0" "mtu small_env t c = 23" "pk_room small_env n = n - 1"
  "ret small_env t (Gatt_write c g) = 0" "ret small_env t (Gatt_read c g) = 0"
  "ret small_env t (Gatt_subscribe c g) = 0" "ret small_env t (Gatt_discover c g) = 0"
  "ret small_env t (Packetizer_start p') = 1" "ret small_env t Client_create = 1" "ret small_env t Bt_enable = 0"
  by (simp_all add: small_env_def wf_env_def)

subsection \<open>The world seen by external code\<close>

record ext_world =
  trace :: "ext_call list"
  next_addr :: addr

definition ext_call :: "'e env_scheme \<Rightarrow> ext_call \<Rightarrow> 'a ext_world_scheme \<Rightarrow> int \<times> 'a ext_world_scheme" where
  "ext_call E c w = (ret E (trace w) c, w\<lparr>trace := trace w @ [c]\<rparr>)"

definition malloc :: "'e env_scheme \<Rightarrow> 'a ext_world_scheme \<Rightarrow> ptr \<times> 'a ext_world_scheme" where
  "malloc E w = (let (r, w) = ext_call E Malloc w in
     if r = 0 then (NULL, w) else (Some (next_addr w), w\<lparr>next_addr := Suc (next_addr w)\<rparr>))"

lemma ext_call_fst [simp]: "fst (ext_call E c w) = ret E (trace w) c"
  by (simp add: ext_call_def)

lemma ext_call_snd [simp]: "snd (ext_call E c w) = w\<lparr>trace := trace w @ [c]\<rparr>"
  by (simp add: ext_call_def)

lemma malloc_cases:
  obtains (NULL) "malloc E w = (NULL, w\<lparr>trace := trace w @ [Malloc]\<rparr>)"
  | (fresh) "malloc E w = (Some (next_addr w),
      w\<lparr>trace := trace w @ [Malloc], next_addr := Suc (next_addr w)\<rparr>)"
  by (cases "ret E (trace w) Malloc = 0") (auto simp: malloc_def ext_call_def)

text \<open>
  A heap is fresh above \<open>next_addr\<close>: no address that has not been handed out is in use.
\<close>

definition fresh_above :: "(addr \<rightharpoonup> 'x) \<Rightarrow> addr \<Rightarrow> bool" where
  "fresh_above m n \<longleftrightarrow> (\<forall>a \<ge> n. m a = None)"

lemma fresh_aboveD: "fresh_above m n \<Longrightarrow> m a = Some x \<Longrightarrow> a < n"
  by (metis fresh_above_def leI option.distinct(1))

lemma fresh_above_fresh [simp]: "fresh_above m n \<Longrightarrow> m n = None"
  by (simp add: fresh_above_def)

lemma fresh_above_mono: "fresh_above m n \<Longrightarrow> n \<le> k \<Longrightarrow> fresh_above m k"
  by (simp add: fresh_above_def)

lemma fresh_above_upd [simp]: "fresh_above m n \<Longrightarrow> a < n \<Longrightarrow> fresh_above (m(a \<mapsto> x)) n"
  by (simp add: fresh_above_def)

lemma fresh_above_write [simp]: "fresh_above m n \<Longrightarrow> m a = Some y \<Longrightarrow> fresh_above (m(a \<mapsto> x)) n"
  by (auto simp: fresh_above_def)

lemma fresh_above_Suc [simp]: "fresh_above m n \<Longrightarrow> fresh_above (m(n \<mapsto> x)) (Suc n)"
  by (simp add: fresh_above_def)

lemma fresh_above_del [simp]: "fresh_above m n \<Longrightarrow> fresh_above (m(a := None)) n"
  by (simp add: fresh_above_def)

end
