(* ===== verification/Block.thy ===== *)
theory Block
  imports Platform
begin

text \<open>
  \<open>lib/block.c\<close>: the pool of downlink blocks.  A block is a byte buffer of the configured
  maximum size with a fill level and a \<open>last\<close> mark; the blocks come from one statically
  sized memory slab that every connection shares.  The slab is modelled by the blocks that
  are currently allocated and their number; \<open>k_mem_slab_alloc\<close> with a timeout fails exactly
  when no block is free once the timeout has passed, so the model decides at that moment.
  The buffer of a new block holds whatever the memory held before (\<open>garbage E\<close>).
\<close>

subsection \<open>State\<close>

record block =
  user_data :: ptr
  is_last_flag :: bool
  len :: nat
  data :: bytes

record slab_world = ext_world +
  slab :: "addr \<rightharpoonup> block"
  slab_used :: nat

subsection \<open>Operations\<close>

definition block_alloc ::
  "'e env_scheme \<Rightarrow> ptr \<Rightarrow> 'a slab_world_scheme \<Rightarrow> ptr \<times> 'a slab_world_scheme" where
  "block_alloc E ud w =
     (if slab_used w < num_blocks E then
        (Some (next_addr w),
         w\<lparr>next_addr := Suc (next_addr w),
           slab := (slab w)(next_addr w \<mapsto>
             \<lparr>user_data = ud, is_last_flag = False, len = 0,
              data = map (garbage E (next_addr w)) [0..<max_block_size E]\<rparr>),
           slab_used := Suc (slab_used w)\<rparr>)
      else (NULL, w))"

definition block_free :: "ptr \<Rightarrow> 'a slab_world_scheme \<Rightarrow> fault + 'a slab_world_scheme" where
  "block_free p w = bnd (deref (slab w) p) (\<lambda>(a, _).
     Inr (w\<lparr>slab := (slab w)(a := None), slab_used := slab_used w - 1\<rparr>))"

definition block_length :: "ptr \<Rightarrow> 'a slab_world_scheme \<Rightarrow> fault + nat" where
  "block_length p w = bnd (deref (slab w) p) (\<lambda>(_, b). Inr (len b))"

definition block_mark_last :: "ptr \<Rightarrow> 'a slab_world_scheme \<Rightarrow> fault + 'a slab_world_scheme" where
  "block_mark_last p w = bnd (deref (slab w) p) (\<lambda>(a, b).
     Inr (w\<lparr>slab := (slab w)(a \<mapsto> b\<lparr>is_last_flag := True\<rparr>)\<rparr>))"

definition block_is_last :: "ptr \<Rightarrow> 'a slab_world_scheme \<Rightarrow> fault + bool" where
  "block_is_last p w = bnd (deref (slab w) p) (\<lambda>(_, b). Inr (is_last_flag b))"

definition block_append ::
  "ptr \<Rightarrow> bytes \<Rightarrow> 'a slab_world_scheme \<Rightarrow> fault + 'a slab_world_scheme" where
  "block_append p src w = bnd (deref (slab w) p) (\<lambda>(a, b).
     bnd (poke (data b) (len b) src) (\<lambda>d.
       Inr (w\<lparr>slab := (slab w)(a \<mapsto> b\<lparr>data := d, len := len b + length src\<rparr>)\<rparr>)))"

text \<open>
  \<open>block_get\<close> copies into \<open>buf\<close> at position \<open>pos\<close> (the C caller passes the advanced
  pointer) and returns the error code with the buffer.  Its guard adds two \<open>size_t\<close> values.
\<close>

definition block_get :: "'e env_scheme \<Rightarrow> ptr \<Rightarrow> nat \<Rightarrow> bytes \<Rightarrow> nat \<Rightarrow> nat
    \<Rightarrow> 'a slab_world_scheme \<Rightarrow> fault + (int \<times> bytes)" where
  "block_get E p off buf pos n w =
     (if size_add off n > max_block_size E then Inr (- EINVAL, buf)
      else bnd (deref (slab w) p) (\<lambda>(_, b).
        bnd (peek (data b) off n) (\<lambda>bs. bnd (poke buf pos bs) (\<lambda>buf. Inr (0, buf)))))"

text \<open>Releasing the elements of a queue one after the other, from the front.\<close>

primrec free_each :: "(ptr \<Rightarrow> 's \<Rightarrow> fault + 's) \<Rightarrow> addr list \<Rightarrow> 's \<Rightarrow> fault + 's" where
  "free_each dispose [] s = Inr s"
| "free_each dispose (a # as) s = bnd (dispose (Some a) s) (free_each dispose as)"

subsection \<open>Contents and invariant\<close>

text \<open>The bytes a block holds: the first \<open>len\<close> bytes of its buffer.\<close>

definition block_bytes :: "block \<Rightarrow> bytes" where
  "block_bytes b = take (len b) (data b)"

definition wf_block :: "'e env_scheme \<Rightarrow> block \<Rightarrow> bool" where
  "wf_block E b \<longleftrightarrow> length (data b) = max_block_size E \<and> len b \<le> max_block_size E"

definition slab_inv :: "'e env_scheme \<Rightarrow> 'a slab_world_scheme \<Rightarrow> bool" where
  "slab_inv E w \<longleftrightarrow> finite (dom (slab w)) \<and> slab_used w = card (dom (slab w))
     \<and> slab_used w \<le> num_blocks E \<and> fresh_above (slab w) (next_addr w)
     \<and> (\<forall>a b. slab w a = Some b \<longrightarrow> wf_block E b)"

lemma length_block_bytes [simp]: "wf_block E b \<Longrightarrow> length (block_bytes b) = len b"
  by (simp add: wf_block_def block_bytes_def)

lemma slab_inv_block: "slab_inv E w \<Longrightarrow> slab w a = Some b \<Longrightarrow> wf_block E b"
  by (simp add: slab_inv_def)

subsection \<open>The interface of the block pool\<close>

text \<open>
  What the downlink relies on: blocks are named by addresses, a view gives the bytes and the
  \<open>last\<close> mark of every live block, and the operations change the view of the one block
  they are about and nothing of the rest of the world (\<open>rest\<close>).
\<close>

locale block_pool =
  fixes view :: "'s \<Rightarrow> addr \<Rightarrow> (bytes \<times> bool) option"
    and room :: nat
    and alloc :: "'s \<Rightarrow> ptr \<times> 's"
    and dispose :: "ptr \<Rightarrow> 's \<Rightarrow> fault + 's"
    and append :: "ptr \<Rightarrow> bytes \<Rightarrow> 's \<Rightarrow> fault + 's"
    and mark :: "ptr \<Rightarrow> 's \<Rightarrow> fault + 's"
    and inv :: "'s \<Rightarrow> bool"
    and bound :: "'s \<Rightarrow> addr"
    and rest :: "'s \<Rightarrow> 'r"
  assumes alloc_NULL: "alloc s = (NULL, s') \<Longrightarrow> s' = s"
    and alloc_Some: "inv s \<Longrightarrow> alloc s = (Some a, s') \<Longrightarrow>
      a = bound s \<and> bound s' = Suc (bound s) \<and> view s' = (view s)(a \<mapsto> ([], False)) \<and> inv s' \<and> rest s' = rest s"
    and dispose_live: "inv s \<Longrightarrow> view s a \<noteq> None \<Longrightarrow>
      \<exists>s'. dispose (Some a) s = Inr s' \<and> view s' = (view s)(a := None) \<and> inv s'
        \<and> bound s' = bound s \<and> rest s' = rest s"
    and dispose_dead: "view s a = None \<Longrightarrow> dispose (Some a) s = Inl Use_after_free"
    and append_fits: "inv s \<Longrightarrow> view s a = Some (bs, l) \<Longrightarrow> length bs + length xs \<le> room \<Longrightarrow>
      \<exists>s'. append (Some a) xs s = Inr s' \<and> view s' = (view s)(a \<mapsto> (bs @ xs, l)) \<and> inv s'
        \<and> bound s' = bound s \<and> rest s' = rest s"
    and append_overflow: "inv s \<Longrightarrow> view s a = Some (bs, l) \<Longrightarrow> room < length bs + length xs \<Longrightarrow>
      append (Some a) xs s = Inl Buffer_overflow"
    and mark_live: "inv s \<Longrightarrow> view s a = Some (bs, l) \<Longrightarrow>
      \<exists>s'. mark (Some a) s = Inr s' \<and> view s' = (view s)(a \<mapsto> (bs, True)) \<and> inv s'
        \<and> bound s' = bound s \<and> rest s' = rest s"
    and view_bounded: "inv s \<Longrightarrow> view s a = Some v \<Longrightarrow> a < bound s"
    and view_room: "inv s \<Longrightarrow> view s a = Some (bs, l) \<Longrightarrow> length bs \<le> room"
begin

text \<open>Allocating a block, filling it and marking it, as the downlink does for each block.\<close>

lemma fill_block:
  assumes "inv s" and "alloc s = (Some a, s1)" and "length xs \<le> room"
  shows "\<exists>s2 s3. append (Some a) xs s1 = Inr s2
      \<and> (if lst then mark (Some a) s2 else Inr s2) = Inr s3
      \<and> view s3 = (view s)(a \<mapsto> (xs, lst)) \<and> inv s3 \<and> bound s3 = Suc (bound s) \<and> rest s3 = rest s"
proof -
  from alloc_Some [OF assms(1,2)] have a: "view s1 = (view s)(a \<mapsto> ([], False))" "inv s1"
    "bound s1 = Suc (bound s)" "rest s1 = rest s" by auto
  with append_fits [of s1 a "[]" False xs] assms(3) obtain s2 where
    s2: "append (Some a) xs s1 = Inr s2" "view s2 = (view s)(a \<mapsto> (xs, False))" "inv s2"
    "bound s2 = Suc (bound s)" "rest s2 = rest s" by auto
  with mark_live [of s2 a xs False] show ?thesis by (cases lst) auto
qed

text \<open>Disposing of distinct live blocks one after the other never fails.\<close>

lemma free_each_live:
  assumes "inv s" and "distinct as" and "\<forall>a \<in> set as. view s a \<noteq> None"
  shows "\<exists>s'. free_each dispose as s = Inr s' \<and> view s' = (\<lambda>a. if a \<in> set as then None else view s a)
      \<and> inv s' \<and> bound s' = bound s \<and> rest s' = rest s"
  using assms
proof (induction as arbitrary: s)
  case Nil
  then show ?case by auto
next
  case (Cons a as)
  then obtain s1 where s1: "dispose (Some a) s = Inr s1" "view s1 = (view s)(a := None)" "inv s1"
    "bound s1 = bound s" "rest s1 = rest s" using dispose_live [of s a] by auto
  with Cons.prems have "\<forall>b \<in> set as. view s1 b \<noteq> None" by auto
  with Cons.prems s1 Cons.IH [of s1] obtain s' where
    "free_each dispose as s1 = Inr s'" "view s' = (\<lambda>b. if b \<in> set as then None else view s1 b)"
    "inv s'" "bound s' = bound s" "rest s' = rest s" by auto
  with s1 show ?case by (auto simp: fun_eq_iff)
qed

end

subsection \<open>The slab provides the interface\<close>

definition slab_view :: "'a slab_world_scheme \<Rightarrow> addr \<Rightarrow> (bytes \<times> bool) option" where
  "slab_view w a = map_option (\<lambda>b. (block_bytes b, is_last_flag b)) (slab w a)"

lemma slab_view_Some:
  "slab_view w a = Some (bs, l) \<longleftrightarrow>
     (\<exists>b. slab w a = Some b \<and> bs = block_bytes b \<and> l = is_last_flag b)"
  by (auto simp: slab_view_def)

lemma slab_view_None [simp]: "slab_view w a = None \<longleftrightarrow> slab w a = None"
  by (simp add: slab_view_def)

lemma block_append_fits:
  assumes "wf_block E b" and "len b + length xs \<le> max_block_size E"
  shows "\<exists>d. poke (data b) (len b) xs = Inr d
      \<and> wf_block E (b\<lparr>data := d, len := len b + length xs\<rparr>)
      \<and> block_bytes (b\<lparr>data := d, len := len b + length xs\<rparr>) = block_bytes b @ xs"
  using assms by (simp add: poke_def wf_block_def block_bytes_def)

lemma slab_inv_write:
  assumes "slab_inv E w" and "slab w a = Some b" and "wf_block E b'"
  shows "slab_inv E (w\<lparr>slab := (slab w)(a \<mapsto> b')\<rparr>)"
  using assms by (auto simp: slab_inv_def insert_absorb domI dest: fresh_aboveD)

lemma slab_inv_alloc:
  assumes "slab_inv E w" and "block_alloc E ud w = (Some a, w')"
  shows "slab_inv E w'" and "a = next_addr w" and "next_addr w' = Suc (next_addr w)"
    and "slab_view w' = (slab_view w)(a \<mapsto> ([], False))"
    and "trace w' = trace w" and "slab_world.more w' = slab_world.more w"
  using assms
  by (auto simp: block_alloc_def slab_inv_def slab_view_def block_bytes_def wf_block_def
      domIff card_insert_if fun_eq_iff split: if_splits)

lemma slab_inv_free:
  assumes "slab_inv E w" and "slab w a = Some b"
  shows "slab_inv E (w\<lparr>slab := (slab w)(a := None), slab_used := slab_used w - 1\<rparr>)"
  using assms by (auto simp: slab_inv_def domI)

interpretation slab: block_pool slab_view "max_block_size E" "block_alloc E ud" block_free
  block_append block_mark_last "slab_inv E" next_addr "\<lambda>w. (trace w, slab_world.more w)"
  for E :: "'e env_scheme" and ud
proof (unfold_locales, goal_cases)
  case (1 s s')
  then show ?case by (auto simp: block_alloc_def split: if_splits)
next
  case (2 s a s')
  then show ?case using slab_inv_alloc [OF 2] by simp
next
  case (3 s a)
  then obtain b where b: "slab s a = Some b" by auto
  with slab_inv_free [OF 3(1) b] show ?case by (auto simp: block_free_def slab_view_def fun_eq_iff)
next
  case (4 s a)
  then show ?case by (simp add: block_free_def)
next
  case (5 s a bs l xs)
  then obtain b where b: "slab s a = Some b" "bs = block_bytes b" "l = is_last_flag b"
    by (auto simp: slab_view_Some)
  with 5 have "wf_block E b" "len b + length xs \<le> max_block_size E"
    by (auto dest: slab_inv_block)
  then obtain d where d: "poke (data b) (len b) xs = Inr d"
      "wf_block E (b\<lparr>data := d, len := len b + length xs\<rparr>)"
      "block_bytes (b\<lparr>data := d, len := len b + length xs\<rparr>) = block_bytes b @ xs"
    using block_append_fits by blast
  with b slab_inv_write [OF 5(1) b(1) d(2)] show ?case
    by (auto simp: block_append_def slab_view_def fun_eq_iff)
next
  case (6 s a bs l xs)
  then show ?case
    by (auto simp: block_append_def slab_view_Some poke_def wf_block_def block_bytes_def dest!: slab_inv_block)
next
  case (7 s a bs l)
  then obtain b where b: "slab s a = Some b" "bs = block_bytes b" "l = is_last_flag b"
    by (auto simp: slab_view_Some)
  with 7 slab_inv_write [OF 7(1) b(1), of "b\<lparr>is_last_flag := True\<rparr>"] show ?case
    by (auto simp: block_mark_last_def slab_view_def fun_eq_iff wf_block_def block_bytes_def
        dest: slab_inv_block)
next
  case (8 s a v)
  then show ?case by (cases v) (auto simp: slab_view_Some slab_inv_def dest: fresh_aboveD)
next
  case (9 s a bs l)
  then show ?case by (auto simp: slab_view_Some wf_block_def dest!: slab_inv_block)
qed

subsection \<open>Reading a block\<close>

lemma block_get_Inr:
  assumes "slab w a = Some b" and "wf_block E b" and "max_block_size E < 2 ^ 31"
    and "off + n \<le> len b" and "pos + n \<le> length buf"
  shows "block_get E (Some a) off buf pos n w
      = Inr (0, take pos buf @ take n (drop off (block_bytes b)) @ drop (pos + n) buf)"
proof -
  have sum: "size_add off n = off + n" using assms by (simp add: wf_block_def)
  have part: "take n (drop off (data b)) = take n (drop off (block_bytes b))"
    using assms(4) by (simp add: block_bytes_def drop_take min_def)
  have "length (block_bytes b) = len b" using assms(2) by simp
  then show ?thesis using assms sum part
    by (simp add: block_get_def peek_def poke_def wf_block_def)
qed

end
