(* ===== verification/Downlink.thy ===== *)
theory Downlink
  imports Block
begin

text \<open>
  \<open>lib/downlink.c\<close>: the stream from the cloud to a node.  The cloud client delivers blocks
  (\<open>pouch_gateway_downlink_block_cb\<close>), the Bluetooth side draws bytes
  (\<open>pouch_gateway_downlink_get_data\<close>).  A downlink context owns the blocks of its queue and
  the block it is currently reading, and three flags record whether the stream is complete,
  whether it has been aborted and whether the reader waits for a notification.  The callback
  \<open>data_available_cb\<close> is an argument \<open>cb\<close> of the operations that call it; its argument is
  the field \<open>cb_arg\<close>.
\<close>

subsection \<open>State\<close>

record downlink =
  cb_arg :: conn
  block_queue :: "addr list"
  current_block :: ptr
  offset :: nat
  complete :: bool \<comment> \<open>\<open>DOWNLINK_FLAG_COMPLETE\<close>\<close>
  aborted :: bool \<comment> \<open>\<open>DOWNLINK_FLAG_ABORTED\<close>\<close>
  client_waiting :: bool \<comment> \<open>\<open>DOWNLINK_FLAG_CLIENT_WAITING\<close>\<close>

record downlink_world = slab_world +
  downlinks :: "addr \<rightharpoonup> downlink"

definition put_downlink :: "addr \<Rightarrow> downlink \<Rightarrow> 'a downlink_world_scheme \<Rightarrow> 'a downlink_world_scheme" where
  "put_downlink a d w = w\<lparr>downlinks := (downlinks w)(a \<mapsto> d)\<rparr>"

subsection \<open>Opening, closing, aborting\<close>

definition new_downlink :: "conn \<Rightarrow> downlink" where
  "new_downlink arg = \<lparr>cb_arg = arg, block_queue = [], current_block = NULL, offset = 0,
     complete = False, aborted = False, client_waiting = True\<rparr>"

definition downlink_open ::
  "'e env_scheme \<Rightarrow> conn \<Rightarrow> 'a downlink_world_scheme \<Rightarrow> ptr \<times> 'a downlink_world_scheme" where
  "downlink_open E arg w = (case malloc E w of
     (None, w) \<Rightarrow> (NULL, w)
   | (Some a, w) \<Rightarrow> (Some a, put_downlink a (new_downlink arg) w))"

definition flush_block_queue :: "ptr \<Rightarrow> 'a downlink_world_scheme \<Rightarrow> fault + 'a downlink_world_scheme" where
  "flush_block_queue p w = bnd (deref (downlinks w) p) (\<lambda>(a, d).
     bnd (free_each block_free (block_queue d) w) (\<lambda>w.
       Inr (put_downlink a (d\<lparr>block_queue := []\<rparr>) w)))"

definition downlink_is_complete :: "ptr \<Rightarrow> 'a downlink_world_scheme \<Rightarrow> fault + bool" where
  "downlink_is_complete p w = bnd (deref (downlinks w) p) (\<lambda>(_, d). Inr (complete d))"

definition downlink_close :: "ptr \<Rightarrow> 'a downlink_world_scheme \<Rightarrow> fault + 'a downlink_world_scheme" where
  "downlink_close p w = bnd (deref (downlinks w) p) (\<lambda>(a, d).
     bnd (if current_block d \<noteq> NULL then block_free (current_block d) w else Inr w) (\<lambda>w.
       Inr (w\<lparr>downlinks := (downlinks w)(a := None)\<rparr>)))"

definition downlink_abort :: "ptr \<Rightarrow> 'a downlink_world_scheme \<Rightarrow> fault + 'a downlink_world_scheme" where
  "downlink_abort p w = bnd (deref (downlinks w) p) (\<lambda>(a, d).
     let w = put_downlink a (d\<lparr>aborted := True\<rparr>) w in
     bnd (downlink_is_complete p w) (\<lambda>c. if c then downlink_close p w else Inr w))"

subsection \<open>Callbacks from the cloud client\<close>

definition downlink_block_cb :: "'e env_scheme
    \<Rightarrow> (conn \<Rightarrow> 'a downlink_world_scheme \<Rightarrow> fault + 'a downlink_world_scheme)
    \<Rightarrow> bytes \<Rightarrow> bool \<Rightarrow> ptr \<Rightarrow> 'a downlink_world_scheme
    \<Rightarrow> fault + (golioth_status \<times> 'a downlink_world_scheme)" where
  "downlink_block_cb E cb src lst p w = bnd (deref (downlinks w) p) (\<lambda>(a, d).
     if aborted d then
       bnd (flush_block_queue p w) (\<lambda>w. bnd (downlink_close p w) (\<lambda>w. Inr (GOLIOTH_ERR_NACK, w)))
     else (case block_alloc E NULL w of
       (None, w) \<Rightarrow>
         bnd (flush_block_queue p w) (\<lambda>w. bnd (downlink_close p w) (\<lambda>w.
           Inr (GOLIOTH_ERR_MEM_ALLOC, w)))
     | (Some b, w) \<Rightarrow>
         bnd (block_append (Some b) src w) (\<lambda>w.
         bnd (if lst then block_mark_last (Some b) w else Inr w) (\<lambda>w.
           let d = d\<lparr>block_queue := block_queue d @ [b]\<rparr> in
           if current_block d = NULL \<and> client_waiting d then
             bnd (cb (cb_arg d) (put_downlink a (d\<lparr>client_waiting := False\<rparr>) w)) (\<lambda>w.
               Inr (GOLIOTH_OK, w))
           else Inr (GOLIOTH_OK, put_downlink a d w)))))"

definition downlink_end_cb ::
  "(conn \<Rightarrow> 'a downlink_world_scheme \<Rightarrow> fault + 'a downlink_world_scheme)
    \<Rightarrow> golioth_status \<Rightarrow> ptr \<Rightarrow> 'a downlink_world_scheme \<Rightarrow> fault + 'a downlink_world_scheme" where
  "downlink_end_cb cb status p w =
     (if status \<noteq> GOLIOTH_OK then
        bnd (downlink_abort p w) (\<lambda>w.
        bnd (deref (downlinks w) p) (\<lambda>(a, d).
          if current_block d = NULL then cb (cb_arg d) w else Inr w))
      else Inr w)"

subsection \<open>Drawing bytes\<close>

text \<open>
  The block to read from next and the queue behind it: the current block, or one taken from
  the queue when there is none.
\<close>

definition next_block :: "downlink \<Rightarrow> ptr \<times> addr list" where
  "next_block d = (if current_block d = NULL then fifo_get (block_queue d)
     else (current_block d, block_queue d))"

lemma next_block_size: "next_block d = (Some b, q) \<Longrightarrow>
    Suc (length q) = length (block_queue d) + (if current_block d = NULL then 0 else 1)"
  by (auto simp: next_block_def dest: fifo_get_size split: if_splits)

text \<open>
  The loop of \<open>pouch_gateway_downlink_get_data\<close>.  \<open>n\<close> is the room left in the destination
  (\<open>*dst_len\<close>), \<open>tot\<close> the number of bytes copied so far, \<open>dst\<close> the destination buffer.  The
  result holds the return code, the context, the buffer, the bytes copied and \<open>*is_last\<close>.
  The error code of \<open>block_get\<close> is ignored, as in the source.
\<close>

function get_data_loop :: "'e env_scheme \<Rightarrow> downlink \<Rightarrow> bytes \<Rightarrow> nat \<Rightarrow> nat \<Rightarrow> 'a slab_world_scheme
    \<Rightarrow> fault + (int \<times> downlink \<times> bytes \<times> nat \<times> bool \<times> 'a slab_world_scheme)" where
  "get_data_loop E d dst tot n w =
     (if n = 0 then Inr (0, d, dst, tot, False, w)
      else let (cur, queue) = next_block d in
      if cur = NULL then
        (if aborted d then Inr (0, d\<lparr>complete := True\<rparr>, dst, tot, True, w)
         else Inr (- EAGAIN, (if tot = 0 then d\<lparr>client_waiting := True\<rparr> else d), dst, tot, False, w))
      else bnd (block_length cur w) (\<lambda>l.
        if l < offset d then Inl Buffer_overflow
        else let k = min n (l - offset d) in
        bnd (block_get E cur (offset d) dst tot k w) (\<lambda>(_, dst).
        if l = offset d + k then
          bnd (block_is_last cur w) (\<lambda>lst.
          bnd (block_free cur w) (\<lambda>w.
          let (nxt, queue) = fifo_get queue;
              d = d\<lparr>offset := 0, current_block := nxt, block_queue := queue\<rparr> in
          if lst then Inr (0, d\<lparr>complete := True\<rparr>, dst, tot + k, True, w)
          else get_data_loop E d dst (tot + k) (n - k) w))
        else get_data_loop E (d\<lparr>offset := offset d + k, current_block := cur, block_queue := queue\<rparr>)
          dst (tot + k) (n - k) w)))"
  by pat_completeness auto
termination
proof (relation "measure (\<lambda>(E, d, dst, tot, n, w).
    n + length (block_queue d) + (if current_block d = NULL then 0 else 1))", goal_cases)
  case 1
  then show ?case by simp
next
  case (2 E d dst tot n w x cur queue l k xd u dst' lst w' xh nxt queue' d')
  then obtain b where "next_block d = (Some b, queue)" by (metis not_Some_eq)
  from next_block_size [OF this]
  have "Suc (length queue) = length (block_queue d) + (if current_block d = NULL then 0 else 1)" .
  moreover have "length queue' + (if nxt = NULL then 0 else 1) = length queue"
    using 2(13,14) by (metis fifo_get_size)
  ultimately show ?case using 2(15) by simp
next
  case (3 E d dst tot n w x cur queue l k xd u dst')
  then obtain b where b: "next_block d = (Some b, queue)" "cur = Some b" by (metis not_Some_eq)
  from next_block_size [OF b(1)] 3(1,6,7,10) b(2) show ?case by (simp add: min_def split: if_splits)
qed

declare get_data_loop.simps [simp del]

definition downlink_get_data :: "'e env_scheme \<Rightarrow> ptr \<Rightarrow> bytes \<Rightarrow> nat \<Rightarrow> 'a downlink_world_scheme
    \<Rightarrow> fault + (int \<times> bytes \<times> nat \<times> bool \<times> 'a downlink_world_scheme)" where
  "downlink_get_data E p dst n w =
     bnd (downlink_is_complete p w) (\<lambda>c.
     if c then Inr (- ENODATA, dst, n, False, w)
     else bnd (deref (downlinks w) p) (\<lambda>(a, d).
       bnd (get_data_loop E d dst 0 n w) (\<lambda>(rc, d, dst, tot, lst, w).
         Inr (rc, dst, tot, lst, put_downlink a d w))))"

subsection \<open>The stream behind a context\<close>

text \<open>
  A context stands for the segments it still has to deliver: what is left of the current
  block and the queued blocks, each with its \<open>last\<close> mark.
\<close>

definition seg :: "'a slab_world_scheme \<Rightarrow> addr \<Rightarrow> bytes \<times> bool" where
  "seg w a = the (slab_view w a)"

definition held :: "downlink \<Rightarrow> addr list" where
  "held d = (case current_block d of None \<Rightarrow> [] | Some b \<Rightarrow> [b]) @ block_queue d"

definition segs :: "'a slab_world_scheme \<Rightarrow> downlink \<Rightarrow> (bytes \<times> bool) list" where
  "segs w d = (case current_block d of None \<Rightarrow> []
      | Some b \<Rightarrow> [(drop (offset d) (fst (seg w b)), snd (seg w b))]) @ map (seg w) (block_queue d)"

definition wf_downlink :: "'a slab_world_scheme \<Rightarrow> downlink \<Rightarrow> bool" where
  "wf_downlink w d \<longleftrightarrow> distinct (held d) \<and> (\<forall>a \<in> set (held d). slab w a \<noteq> None)
     \<and> (case current_block d of None \<Rightarrow> offset d = 0 | Some b \<Rightarrow> offset d \<le> length (fst (seg w b)))"

text \<open>
  The specification of a read of \<open>n\<close> bytes: the bytes delivered, the segments left, whether
  the last segment was finished, and whether the reader ran out of segments.
\<close>

fun draw :: "(bytes \<times> bool) list \<Rightarrow> nat \<Rightarrow> bytes \<times> (bytes \<times> bool) list \<times> bool \<times> bool" where
  "draw [] n = ([], [], False, 0 < n)"
| "draw ((bs, l) # ss) n =
     (if n = 0 then ([], (bs, l) # ss, False, False)
      else if length bs \<le> n then
        (if l then (bs, ss, True, False)
         else let (out, r, lst, st) = draw ss (n - length bs) in (bs @ out, r, lst, st))
      else (take n bs, (drop n bs, l) # ss, False, False))"

lemma draw_0 [simp]: "draw ss 0 = ([], ss, False, False)"
  by (cases ss) auto

lemma draw_length: "draw ss n = (out, r, lst, st) \<Longrightarrow> length out \<le> n"
  by (induction ss n arbitrary: out rule: draw.induct)
    (fastforce split: if_splits prod.splits)+

lemma draw_concat: "draw ss n = (out, r, lst, st) \<Longrightarrow>
    out @ concat (map fst r) = concat (map fst ss)"
  by (induction ss n arbitrary: out rule: draw.induct) (auto split: if_splits prod.splits)

lemma draw_starved: "draw ss n = (out, r, lst, st) \<Longrightarrow> st \<Longrightarrow> r = [] \<and> \<not> lst \<and> length out < n"
  by (induction ss n arbitrary: out rule: draw.induct) (fastforce split: if_splits prod.splits)+

lemma seg_live: "slab w a = Some b \<Longrightarrow> seg w a = (block_bytes b, is_last_flag b)"
  by (simp add: seg_def slab_view_def)

lemma next_block_NULL: "next_block d = (None, q) \<Longrightarrow> held d = [] \<and> segs w d = []"
  by (cases "block_queue d") (auto simp: next_block_def held_def segs_def split: if_splits)

lemma next_block_Some:
  assumes "wf_downlink w d" and "next_block d = (Some b, q)"
  shows "held d = b # q"
    and "segs w d = (drop (offset d) (fst (seg w b)), snd (seg w b)) # map (seg w) q"
    and "offset d \<le> length (fst (seg w b))"
  using assms by (cases "block_queue d"; cases "current_block d";
      auto simp: next_block_def held_def segs_def wf_downlink_def split: if_splits)+

lemma held_pop:
  "fifo_get q = (nxt, q') \<Longrightarrow> held (d\<lparr>offset := 0, current_block := nxt, block_queue := q'\<rparr>) = q"
  by (cases q) (auto simp: held_def)

lemma segs_pop:
  "fifo_get q = (nxt, q') \<Longrightarrow>
     segs w (d\<lparr>offset := 0, current_block := nxt, block_queue := q'\<rparr>) = map (seg w) q"
  by (cases q) (auto simp: segs_def)

lemma wf_downlink_pop:
  "distinct q \<Longrightarrow> \<forall>a \<in> set q. slab w a \<noteq> None \<Longrightarrow> fifo_get q = (nxt, q') \<Longrightarrow>
     wf_downlink w (d\<lparr>offset := 0, current_block := nxt, block_queue := q'\<rparr>)"
  by (cases q) (auto simp: wf_downlink_def held_def)

lemma new_downlink_simps [simp]:
  "held (new_downlink c) = []" "segs w (new_downlink c) = []" "wf_downlink w (new_downlink c)"
  "cb_arg (new_downlink c) = c" "\<not> complete (new_downlink c)" "\<not> aborted (new_downlink c)"
  "client_waiting (new_downlink c)"
  by (simp_all add: new_downlink_def held_def segs_def wf_downlink_def)

lemma flags_irrelevant [simp]:
  "held (d\<lparr>complete := c\<rparr>) = held d" "held (d\<lparr>client_waiting := c\<rparr>) = held d"
  "held (d\<lparr>aborted := c\<rparr>) = held d"
  "segs w (d\<lparr>complete := c\<rparr>) = segs w d" "segs w (d\<lparr>client_waiting := c\<rparr>) = segs w d"
  "segs w (d\<lparr>aborted := c\<rparr>) = segs w d"
  "wf_downlink w (d\<lparr>complete := c\<rparr>) = wf_downlink w d"
  "wf_downlink w (d\<lparr>client_waiting := c\<rparr>) = wf_downlink w d"
  "wf_downlink w (d\<lparr>aborted := c\<rparr>) = wf_downlink w d"
  by (simp_all add: held_def segs_def wf_downlink_def cong: option.case_cong)

text \<open>What a read of \<open>n\<close> bytes into \<open>dst\<close> at position \<open>tot\<close> establishes.\<close>

definition read_post :: "'e env_scheme \<Rightarrow> 'a slab_world_scheme \<Rightarrow> downlink \<Rightarrow> bytes \<Rightarrow> nat \<Rightarrow> nat
    \<Rightarrow> int \<Rightarrow> downlink \<Rightarrow> bytes \<Rightarrow> nat \<Rightarrow> bool \<Rightarrow> 'a slab_world_scheme \<Rightarrow> bool" where
  "read_post E w d dst tot n rc d' dst' tot' lst w' \<longleftrightarrow>
     (\<exists>out r l st. draw (segs w d) n = (out, r, l, st) \<and> segs w' d' = r
       \<and> tot' = tot + length out \<and> dst' = take tot dst @ out @ drop tot' dst
       \<and> lst = (l \<or> st \<and> aborted d) \<and> rc = (if st \<and> \<not> aborted d then - EAGAIN else 0)
       \<and> complete d' = (complete d \<or> lst)
       \<and> client_waiting d' = (client_waiting d \<or> st \<and> \<not> aborted d \<and> tot' = 0)
       \<and> aborted d' = aborted d \<and> cb_arg d' = cb_arg d)
     \<and> wf_downlink w' d' \<and> slab_inv E w' \<and> set (held d') \<subseteq> set (held d)
     \<and> slab_view w' = (\<lambda>a. if a \<in> set (held d) - set (held d') then None else slab_view w a)
     \<and> next_addr w' = next_addr w \<and> trace w' = trace w
     \<and> slab_world.more w' = slab_world.more w"

lemma get_data_loop_0: "get_data_loop E d dst tot 0 w = Inr (0, d, dst, tot, False, w)"
  by (simp add: get_data_loop.simps)

lemma get_data_loop_empty:
  assumes "n \<noteq> 0" and "next_block d = (None, q)"
  shows "get_data_loop E d dst tot n w =
    (if aborted d then Inr (0, d\<lparr>complete := True\<rparr>, dst, tot, True, w)
     else Inr (- EAGAIN, (if tot = 0 then d\<lparr>client_waiting := True\<rparr> else d), dst, tot, False, w))"
  using assms by (simp add: get_data_loop.simps [of E d dst tot n w])

text \<open>One round that leaves bytes in the block: the destination is full.\<close>

lemma get_data_loop_partial:
  assumes "slab w b = Some blk" and "wf_block E blk" and "max_block_size E < 2 ^ 31"
    and "n \<noteq> 0" and "next_block d = (Some b, q)" and "offset d + n < len blk"
    and "tot + n \<le> length dst"
  shows "get_data_loop E d dst tot n w =
    Inr (0, d\<lparr>offset := offset d + n, current_block := Some b, block_queue := q\<rparr>,
      take tot dst @ take n (drop (offset d) (block_bytes blk)) @ drop (tot + n) dst,
      tot + n, False, w)"
proof -
  have "min n (len blk - offset d) = n" using assms(6) by simp
  then show ?thesis
    using assms block_get_Inr [OF assms(1,2,3), of "offset d" n tot dst]
    by (simp add: get_data_loop.simps [of E d dst tot n w] block_length_def get_data_loop_0)
qed

text \<open>One round that finishes a block.\<close>

lemma get_data_loop_finish:
  assumes "slab w b = Some blk" and "wf_block E blk" and "max_block_size E < 2 ^ 31"
    and "n \<noteq> 0" and "next_block d = (Some b, q)" and "offset d \<le> len blk"
    and "len blk \<le> offset d + n" and "tot + n \<le> length dst"
    and "block_free (Some b) w = Inr w1" and "fifo_get q = (nxt, q')"
  defines "k \<equiv> len blk - offset d"
    and "d1 \<equiv> d\<lparr>offset := 0, current_block := nxt, block_queue := q'\<rparr>"
    and "dst1 \<equiv> take tot dst @ drop (offset d) (block_bytes blk) @ drop (tot + (len blk - offset d)) dst"
  shows "get_data_loop E d dst tot n w =
    (if is_last_flag blk then Inr (0, d1\<lparr>complete := True\<rparr>, dst1, tot + k, True, w1)
     else get_data_loop E d1 dst1 (tot + k) (n - k) w1)"
proof -
  have "min n (len blk - offset d) = k" using assms(7) by (simp add: k_def)
  moreover have "block_get E (Some b) (offset d) dst tot k w = Inr (0, dst1)"
    using block_get_Inr [OF assms(1,2,3), of "offset d" k tot dst] assms(2,6,7,8)
    by (simp add: k_def dst1_def)
  ultimately show ?thesis
    using assms by (simp add: get_data_loop.simps [of E d dst tot n w] block_length_def
        block_is_last_def)
qed

text \<open>The loop implements \<open>draw\<close>.\<close>

lemma read_post_0:
  "wf_downlink w d \<Longrightarrow> slab_inv E w \<Longrightarrow> read_post E w d dst tot 0 0 d dst tot False w"
  by (auto simp: read_post_def)

lemma read_post_step:
  assumes post: "read_post E w1 d1 dst1 (tot + length bs) (n - length bs) rc d' dst' tot' lst w'"
    and "held d = b # q" and "held d1 = q" and "b \<notin> set q"
    and "segs w d = (bs, False) # segs w1 d1" and "n \<noteq> 0" and "length bs \<le> n"
    and "dst1 = take tot dst @ bs @ drop (tot + length bs) dst" and "tot + n \<le> length dst"
    and "complete d1 = complete d" and "client_waiting d1 = client_waiting d"
    and "aborted d1 = aborted d" and "cb_arg d1 = cb_arg d"
    and "slab_view w1 = (slab_view w)(b := None)" and "next_addr w1 = next_addr w"
    and "trace w1 = trace w" and "slab_world.more w1 = slab_world.more w"
  shows "read_post E w d dst tot n rc d' dst' tot' lst w'"
proof -
  from post obtain out r l st where
    p: "draw (segs w1 d1) (n - length bs) = (out, r, l, st)" "segs w' d' = r"
      "tot' = tot + length bs + length out" "dst' = take (tot + length bs) dst1 @ out @ drop tot' dst1"
      "lst = (l \<or> st \<and> aborted d1)" "rc = (if st \<and> \<not> aborted d1 then - EAGAIN else 0)"
      "complete d' = (complete d1 \<or> lst)" "aborted d' = aborted d1" "cb_arg d' = cb_arg d1"
      "client_waiting d' = (client_waiting d1 \<or> st \<and> \<not> aborted d1 \<and> tot' = 0)"
    and f: "wf_downlink w' d'" "slab_inv E w'" "set (held d') \<subseteq> set (held d1)"
      "slab_view w' = (\<lambda>a. if a \<in> set (held d1) - set (held d') then None else slab_view w1 a)"
      "next_addr w' = next_addr w1" "trace w' = trace w1" "slab_world.more w' = slab_world.more w1"
    unfolding read_post_def by blast
  have "draw (segs w d) n = (bs @ out, r, l, st)"
    using p(1) assms(5-7) by simp
  moreover have "dst' = take tot dst @ (bs @ out) @ drop tot' dst"
    using p(3,4) assms(8,9,7) by (simp add: ac_simps)
  moreover have "slab_view w' = (\<lambda>a. if a \<in> set (held d) - set (held d') then None else slab_view w a)"
    using f(3,4) assms(2-4,14) by (auto simp: fun_eq_iff)
  moreover have "set (held d') \<subseteq> set (held d)" using f(3) assms(2,3) by auto
  moreover have "tot' = tot + length (bs @ out)" using p(3) by simp
  ultimately show ?thesis
    using p(2,5-10) f(1,2,5-7) assms(10-13,15-17) unfolding read_post_def
    by (intro conjI exI [of _ "bs @ out"] exI [of _ r] exI [of _ l] exI [of _ st]) simp_all
qed

text \<open>Releasing the block that has been read and moving on to the next one.\<close>

lemma pop_block:
  assumes "slab_inv E w" and "wf_downlink w d" and "next_block d = (Some b, q)"
    and "fifo_get q = (nxt, q')"
  defines "d1 \<equiv> d\<lparr>offset := 0, current_block := nxt, block_queue := q'\<rparr>"
  shows "\<exists>w1. block_free (Some b) w = Inr w1 \<and> slab_view w1 = (slab_view w)(b := None)
    \<and> slab_inv E w1 \<and> next_addr w1 = next_addr w \<and> trace w1 = trace w
    \<and> slab_world.more w1 = slab_world.more w \<and> held d1 = q \<and> b \<notin> set q \<and> wf_downlink w1 d1
    \<and> segs w d = (drop (offset d) (fst (seg w b)), snd (seg w b)) # segs w1 d1"
proof -
  note d = next_block_Some [OF assms(2,3)]
  with assms(2) have dist: "b \<notin> set q" "distinct q" and "slab_view w b \<noteq> None"
    by (auto simp: wf_downlink_def)
  with slab.dispose_live [OF assms(1)] obtain w1 where w1: "block_free (Some b) w = Inr w1"
      "slab_view w1 = (slab_view w)(b := None)" "slab_inv E w1" "next_addr w1 = next_addr w"
      "trace w1 = trace w" "slab_world.more w1 = slab_world.more w" by auto
  have same: "slab w1 a = None \<longleftrightarrow> slab w a = None" "seg w1 a = seg w a" if "a \<in> set q" for a
    using w1(2) dist(1) that
    by (auto simp: fun_eq_iff seg_def slab_view_None [symmetric] simp del: slab_view_None)
  then have "segs w d = (drop (offset d) (fst (seg w b)), snd (seg w b)) # segs w1 d1"
    using d(2) segs_pop [OF assms(4), of w1 d] by (simp add: d1_def)
  moreover have "wf_downlink w1 d1"
    using assms(2) d(1) dist same unfolding d1_def
    by (intro wf_downlink_pop [OF _ _ assms(4)]) (auto simp: wf_downlink_def)
  moreover have "held d1 = q" unfolding d1_def by (rule held_pop [OF assms(4)])
  ultimately show ?thesis using w1 dist by simp
qed

text \<open>The three ways a read of at least one byte from a block goes on.\<close>

lemma read_post_partial:
  assumes "slab_inv E w" and "wf_downlink w d" and "next_block d = (Some b, q)"
    and "slab w b = Some blk" and "offset d + n < len blk" and "n \<noteq> 0"
  shows "read_post E w d dst tot n 0
      (d\<lparr>offset := offset d + n, current_block := Some b, block_queue := q\<rparr>)
      (take tot dst @ take n (drop (offset d) (block_bytes blk)) @ drop (tot + n) dst) (tot + n) False w"
proof -
  define d1 where "d1 = d\<lparr>offset := offset d + n, current_block := Some b, block_queue := q\<rparr>"
  note d = next_block_Some [OF assms(2,3)]
  have l: "length (block_bytes blk) = len blk" using assms(1,4) by (auto dest: slab_inv_block)
  have h: "held d1 = held d" using d(1) by (simp add: held_def d1_def)
  have more: "\<not> len blk - offset d \<le> n" using assms(5) by simp
  have "wf_downlink w d1"
    using assms(2,4,5) h l by (simp add: wf_downlink_def d1_def seg_live)
  moreover have "draw (segs w d) n = (take n (drop (offset d) (block_bytes blk)), segs w d1, False, False)"
    using d(2) assms(4,6) l more by (simp add: segs_def d1_def seg_live add.commute)
  ultimately show ?thesis using h l assms(1,5) by (auto simp: read_post_def d1_def fun_eq_iff)
qed

lemma read_post_last:
  assumes "slab_view w1 = (slab_view w)(b := None)" and "slab_inv E w1" and "next_addr w1 = next_addr w"
    and "trace w1 = trace w" and "slab_world.more w1 = slab_world.more w"
    and "held d = b # held d1" and "b \<notin> set (held d1)" and "wf_downlink w1 d1"
    and "segs w d = (bs, True) # segs w1 d1" and "length bs \<le> n" and "n \<noteq> 0"
    and "d1 = d\<lparr>offset := 0, current_block := nxt, block_queue := q'\<rparr>"
  shows "read_post E w d dst tot n 0 (d1\<lparr>complete := True\<rparr>)
      (take tot dst @ bs @ drop (tot + length bs) dst) (tot + length bs) True w1"
proof -
  have "slab_view w1 = (\<lambda>a. if a \<in> set (held d) - set (held d1) then None else slab_view w a)"
    using assms(1,6,7) by (auto simp: fun_eq_iff)
  then show ?thesis using assms by (auto simp: read_post_def)
qed

lemma get_data_loop_draw:
  assumes "slab_inv E w" and "wf_downlink w d" and "max_block_size E < 2 ^ 31"
    and "tot + n \<le> length dst"
  shows "\<exists>rc d' dst' tot' lst w'. get_data_loop E d dst tot n w = Inr (rc, d', dst', tot', lst, w')
    \<and> read_post E w d dst tot n rc d' dst' tot' lst w'"
  using assms
proof (induction "length (held d)" arbitrary: d dst tot n w)
  case 0
  then have "next_block d = (None, [])" "held d = []" "segs w d = []"
    by (auto simp: next_block_def held_def segs_def split: option.splits)
  with 0 show ?case
    by (cases "n = 0") (auto simp: get_data_loop_0 get_data_loop_empty read_post_def)
next
  case (Suc m)
  show ?case
  proof (cases "n = 0")
    case True
    with Suc.prems show ?thesis by (auto simp: get_data_loop_0 intro!: read_post_0)
  next
    case False
    obtain b q where nb: "next_block d = (Some b, q)"
      using Suc.hyps(2) by (cases "next_block d" rule: prod.exhaust; case_tac x1)
        (auto dest: next_block_NULL)
    note d = next_block_Some [OF Suc.prems(2) nb]
    from d(1) Suc.prems(2) obtain blk where blk: "slab w b = Some blk"
      by (auto simp: wf_downlink_def)
    with Suc.prems(1) have wfb: "wf_block E blk" and l: "length (block_bytes blk) = len blk"
      by (auto dest: slab_inv_block)
    show ?thesis
    proof (cases "len blk \<le> offset d + n")
      case fin: True
      obtain nxt q' where q': "fifo_get q = (nxt, q')" by (cases "fifo_get q")
      define d1 where "d1 = d\<lparr>offset := 0, current_block := nxt, block_queue := q'\<rparr>"
      define bs where "bs = drop (offset d) (block_bytes blk)"
      define dst1 where "dst1 = take tot dst @ bs @ drop (tot + length bs) dst"
      have off: "offset d \<le> len blk" and bs: "length bs = len blk - offset d"
        using d(3) l blk by (simp_all add: seg_live bs_def)
      obtain w1 where w1: "block_free (Some b) w = Inr w1" "slab_view w1 = (slab_view w)(b := None)"
          "slab_inv E w1" "next_addr w1 = next_addr w" "trace w1 = trace w"
          "slab_world.more w1 = slab_world.more w" "held d1 = q" "b \<notin> set q" "wf_downlink w1 d1"
          "segs w d = (bs, is_last_flag blk) # segs w1 d1"
        using pop_block [OF Suc.prems(1,2) nb q'] seg_live [OF blk] by (auto simp: d1_def bs_def)
      have run: "get_data_loop E d dst tot n w = (if is_last_flag blk
          then Inr (0, d1\<lparr>complete := True\<rparr>, dst1, tot + length bs, True, w1)
          else get_data_loop E d1 dst1 (tot + length bs) (n - length bs) w1)"
        using get_data_loop_finish [OF blk wfb Suc.prems(3) False nb off fin Suc.prems(4) w1(1) q',
          folded d1_def bs_def, folded bs] by (simp add: dst1_def)
      show ?thesis
      proof (cases "is_last_flag blk")
        case True
        have "read_post E w d dst tot n 0 (d1\<lparr>complete := True\<rparr>) dst1 (tot + length bs) True w1"
          unfolding dst1_def using True d(1) w1 fin bs False
          by (intro read_post_last [where b = b and nxt = nxt and q' = q']) (auto simp: d1_def)
        with True run show ?thesis by auto
      next
        case live: False
        have "m = length (held d1)" "tot + length bs + (n - length bs) \<le> length dst1"
          using Suc.hyps(2) d(1) w1(7) bs fin Suc.prems(4) by (simp_all add: dst1_def)
        from Suc.hyps(1) [OF this(1) w1(3,9) Suc.prems(3) this(2)]
        obtain rc d' dst' tot' lst w' where
          r: "get_data_loop E d1 dst1 (tot + length bs) (n - length bs) w1
                = Inr (rc, d', dst', tot', lst, w')"
             "read_post E w1 d1 dst1 (tot + length bs) (n - length bs) rc d' dst' tot' lst w'"
          by blast
        have "read_post E w d dst tot n rc d' dst' tot' lst w'"
          using live bs fin Suc.prems(4) w1 d(1)
          by (intro read_post_step [OF r(2) _ w1(7,8) _ False]) (auto simp: d1_def dst1_def)
        with run live r(1) show ?thesis by simp
      qed
    next
      case False
      with get_data_loop_partial [OF blk wfb Suc.prems(3) \<open>n \<noteq> 0\<close> nb _ Suc.prems(4)]
        read_post_partial [OF Suc.prems(1,2) nb blk _ \<open>n \<noteq> 0\<close>]
      show ?thesis by (meson not_le)
    qed
  qed
qed

end
