(* ===== verification/Downlink_Inv.thy ===== *)
theory Downlink_Inv
  imports Downlink
begin

text \<open>
  Ownership of the blocks: every live downlink context owns the blocks it holds, no two
  contexts share one, and the operations of \<open>lib/downlink.c\<close> keep it so.  The blocks of the
  slab that no context owns are the orphans: memory nobody will ever give back.  The section
  ends with the effect of every operation on a context, errors included.
\<close>

subsection \<open>The ownership invariant\<close>

definition owned :: "'a downlink_world_scheme \<Rightarrow> addr set" where
  "owned w = {b. \<exists>a d. downlinks w a = Some d \<and> b \<in> set (held d)}"

definition orphans :: "'a downlink_world_scheme \<Rightarrow> addr set" where
  "orphans w = dom (slab w) - owned w"

definition dl_inv :: "'e env_scheme \<Rightarrow> 'a downlink_world_scheme \<Rightarrow> bool" where
  "dl_inv E w \<longleftrightarrow> slab_inv E w \<and> fresh_above (downlinks w) (next_addr w)
     \<and> (\<forall>a d. downlinks w a = Some d \<longrightarrow> wf_downlink w d)
     \<and> (\<forall>a d b e. downlinks w a = Some d \<longrightarrow> downlinks w b = Some e \<longrightarrow> a \<noteq> b \<longrightarrow>
          set (held d) \<inter> set (held e) = {})"

lemma dl_invD:
  assumes "dl_inv E w"
  shows "slab_inv E w" and "fresh_above (downlinks w) (next_addr w)"
    and "downlinks w a = Some d \<Longrightarrow> wf_downlink w d"
    and "downlinks w a = Some d \<Longrightarrow> downlinks w b = Some e \<Longrightarrow> a \<noteq> b \<Longrightarrow>
      set (held d) \<inter> set (held e) = {}"
  using assms unfolding dl_inv_def by blast+

lemma dom_slab_view: "dom (slab w) = dom (slab_view w)"
  by (rule set_eqI) (simp add: domIff)

lemma wf_downlink_cong:
  assumes "\<And>a. a \<in> set (held d) \<Longrightarrow> slab_view w' a = slab_view w a"
  shows "wf_downlink w' d = wf_downlink w d" and "segs w' d = segs w d"
proof -
  have s: "slab w' a = None \<longleftrightarrow> slab w a = None" "seg w' a = seg w a" if "a \<in> set (held d)" for a
    using assms [OF that] by (auto simp: seg_def slab_view_None [symmetric] simp del: slab_view_None)
  then show "wf_downlink w' d = wf_downlink w d" "segs w' d = segs w d"
    by (auto simp: wf_downlink_def segs_def held_def split: option.splits)
qed

text \<open>The blocks of the other contexts.\<close>

definition others :: "'a downlink_world_scheme \<Rightarrow> addr \<Rightarrow> addr set" where
  "others w a = {b. \<exists>x e. x \<noteq> a \<and> downlinks w x = Some e \<and> b \<in> set (held e)}"

lemma owned_split: "downlinks w a = Some d \<Longrightarrow> owned w = set (held d) \<union> others w a"
  by (auto simp: owned_def others_def) (metis option.inject)

lemma owned_put [simp]: "owned (put_downlink a d w) = set (held d) \<union> others w a"
  by (auto simp: owned_def others_def put_downlink_def split: if_splits)

lemma owned_delete [simp]: "owned (w\<lparr>downlinks := (downlinks w)(a := None)\<rparr>) = others w a"
  by (auto simp: owned_def others_def split: if_splits)

lemma others_cong: "downlinks w' = downlinks w \<Longrightarrow> others w' a = others w a"
  by (simp add: others_def)

lemma held_others: "dl_inv E w \<Longrightarrow> downlinks w a = Some d \<Longrightarrow> set (held d) \<inter> others w a = {}"
  by (auto simp: others_def) (metis dl_invD(4) disjoint_iff)

lemma others_live: "dl_inv E w \<Longrightarrow> others w a \<subseteq> dom (slab w)"
  by (auto simp: others_def dest!: dl_invD(3)) (metis wf_downlink_def not_Some_eq)

lemma put_downlink_simps [simp]:
  "slab (put_downlink a d w) = slab w" "slab_view (put_downlink a d w) = slab_view w"
  "downlinks (put_downlink a d w) = (downlinks w)(a \<mapsto> d)"
  "next_addr (put_downlink a d w) = next_addr w" "trace (put_downlink a d w) = trace w"
  "slab_inv E (put_downlink a d w) = slab_inv E w" "slab_used (put_downlink a d w) = slab_used w"
  "wf_downlink (put_downlink a d w) e = wf_downlink w e" "seg (put_downlink a d w) = seg w"
  "segs (put_downlink a d w) e = segs w e"
  "downlink_world.more (put_downlink a d w) = downlink_world.more w"
  by (simp_all add: put_downlink_def slab_inv_def slab_view_def wf_downlink_def seg_def segs_def
      fun_eq_iff cong: option.case_cong)

text \<open>A context that gives back some of its blocks.\<close>

lemma dl_inv_shrink:
  assumes inv: "dl_inv E w" and a: "downlinks w a = Some d" and "slab_inv E w'"
    and view: "slab_view w' = (\<lambda>x. if x \<in> set (held d) - set (held d') then None else slab_view w x)"
    and sub: "set (held d') \<subseteq> set (held d)" and "wf_downlink w' d'"
    and dls: "downlinks w' = downlinks w" and nx: "next_addr w' = next_addr w"
  shows "dl_inv E (put_downlink a d' w')" and "orphans (put_downlink a d' w') = orphans w"
proof -
  have keep: "wf_downlink w' e" if "downlinks w b = Some e" "b \<noteq> a" for b e
  proof -
    from dl_invD(4) [OF inv a that(1)] that(2) have "set (held d) \<inter> set (held e) = {}" by auto
    then have "wf_downlink w' e = wf_downlink w e"
      by (intro wf_downlink_cong) (auto simp: view)
    with dl_invD(3) [OF inv that(1)] show ?thesis by simp
  qed
  have dis: "set (held d') \<inter> set (held e) = {}" if "downlinks w b = Some e" "b \<noteq> a" for b e
    using dl_invD(4) [OF inv a that(1)] that(2) sub by auto
  show "dl_inv E (put_downlink a d' w')"
    using assms(3,6) keep dis dl_invD(2,4) [OF inv] a
    by (auto simp: dl_inv_def dls nx Int_commute)
  have "dom (slab w') = dom (slab w) - (set (held d) - set (held d'))"
    unfolding dom_slab_view view by (rule set_eqI) (simp add: domIff del: not_None_eq)
  then show "orphans (put_downlink a d' w') = orphans w"
    using held_others [OF inv a] sub others_cong [OF dls]
    by (auto simp: orphans_def owned_split [OF a])
qed

lemma more_downlinks: "slab_world.more w' = slab_world.more w \<Longrightarrow> downlinks w' = downlinks w"
  by (cases w; cases w') simp

lemma more_more: "slab_world.more w' = slab_world.more w \<Longrightarrow> downlink_world.more w' = downlink_world.more w"
  by (cases w; cases w') simp

subsection \<open>Reading\<close>

lemma get_data_world:
  assumes inv: "dl_inv E w" and a: "downlinks w a = Some d" and "\<not> complete d"
    and "max_block_size E < 2 ^ 31" and "n \<le> length dst"
    and draw: "draw (segs w d) n = (out, r, l, st)"
  shows "\<exists>w' d'. downlink_get_data E (Some a) dst n w
      = Inr (if st \<and> \<not> aborted d then - EAGAIN else 0, out @ drop (length out) dst, length out,
             l \<or> st \<and> aborted d, w')
    \<and> downlinks w' = (downlinks w)(a \<mapsto> d') \<and> segs w' d' = r
    \<and> complete d' = (l \<or> st \<and> aborted d)
    \<and> client_waiting d' = (client_waiting d \<or> st \<and> \<not> aborted d \<and> out = [])
    \<and> aborted d' = aborted d \<and> cb_arg d' = cb_arg d
    \<and> dl_inv E w' \<and> orphans w' = orphans w \<and> trace w' = trace w
    \<and> downlink_world.more w' = downlink_world.more w"
proof -
  note i = dl_invD [OF inv]
  obtain rc d' dst' tot lst w' where
    run: "get_data_loop E d dst 0 n w = Inr (rc, d', dst', tot, lst, w')"
    and post: "read_post E w d dst 0 n rc d' dst' tot lst w'"
    using get_data_loop_draw [OF i(1) i(3) [OF a], where tot = 0 and n = n and dst = dst] assms by auto
  from post have keep: "wf_downlink w' d'" "slab_inv E w'" "set (held d') \<subseteq> set (held d)"
      "slab_view w' = (\<lambda>a. if a \<in> set (held d) - set (held d') then None else slab_view w a)"
      "next_addr w' = next_addr w" "trace w' = trace w" "downlinks w' = downlinks w"
      "downlink_world.more w' = downlink_world.more w"
    by (auto simp: read_post_def dest: more_downlinks more_more)
  note shrink = dl_inv_shrink [OF inv a keep(2,4,3,1,7,5)]
  have "downlink_get_data E (Some a) dst n w = Inr (rc, dst', tot, lst, put_downlink a d' w')"
    using a assms(3) run by (simp add: downlink_get_data_def downlink_is_complete_def)
  with shrink keep post draw assms(3) show ?thesis
    by (intro exI [of _ "put_downlink a d' w'"] exI [of _ d']) (auto simp: read_post_def)
qed

subsection \<open>Releasing\<close>

lemma flush_world:
  assumes inv: "dl_inv E w" and a: "downlinks w a = Some d"
  shows "\<exists>w'. flush_block_queue (Some a) w = Inr w'
    \<and> downlinks w' = (downlinks w)(a \<mapsto> d\<lparr>block_queue := []\<rparr>)
    \<and> dl_inv E w' \<and> orphans w' = orphans w \<and> trace w' = trace w \<and> next_addr w' = next_addr w"
proof -
  note i = dl_invD [OF inv]
  from i(3) [OF a] have q: "distinct (block_queue d)" "\<forall>b \<in> set (block_queue d). slab_view w b \<noteq> None"
    by (auto simp: wf_downlink_def held_def)
  from slab.free_each_live [OF i(1) q] obtain w' where
    w': "free_each block_free (block_queue d) w = Inr w'"
      "slab_view w' = (\<lambda>b. if b \<in> set (block_queue d) then None else slab_view w b)"
      "slab_inv E w'" "next_addr w' = next_addr w" "trace w' = trace w"
      "slab_world.more w' = slab_world.more w" by auto
  define d' where "d' = d\<lparr>block_queue := []\<rparr>"
  have h: "set (held d) - set (held d') = set (block_queue d)" "set (held d') \<subseteq> set (held d)"
    using i(3) [OF a] by (auto simp: wf_downlink_def held_def d'_def split: option.splits)
  have view: "slab_view w' = (\<lambda>b. if b \<in> set (held d) - set (held d') then None else slab_view w b)"
    by (simp add: w'(2) h)
  have "slab_view w' b = slab_view w b" if "b \<in> set (held d')" for b
    using that h(1) w'(2) by auto
  with wf_downlink_cong(1) [of d' w' w] have "wf_downlink w' d' = wf_downlink w d'" by blast
  moreover have "wf_downlink w d'"
    using i(3) [OF a] by (auto simp: wf_downlink_def held_def d'_def split: option.splits)
  ultimately have "wf_downlink w' d'" by simp
  from dl_inv_shrink [OF inv a w'(3) view h(2) this more_downlinks [OF w'(6)] w'(4)]
  show ?thesis using a w' more_downlinks [OF w'(6)]
    by (simp add: flush_block_queue_def d'_def)
qed

lemma delete_downlink_simps [simp]:
  "slab_view (downlinks_update f w) = slab_view w" "slab_inv E (downlinks_update f w) = slab_inv E w"
  "wf_downlink (downlinks_update f w) e = wf_downlink w e"
  "segs (downlinks_update f w) e = segs w e"
  by (simp_all add: slab_inv_def slab_view_def wf_downlink_def segs_def seg_def fun_eq_iff
      cong: option.case_cong)

text \<open>A context that goes away, together with the blocks \<open>X\<close> of those it holds.\<close>

lemma dl_inv_drop:
  assumes inv: "dl_inv E w" and a: "downlinks w a = Some d" and "slab_inv E w'"
    and view: "slab_view w' = (\<lambda>x. if x \<in> X then None else slab_view w x)"
    and X: "X \<subseteq> set (held d)" and dls: "downlinks w' = downlinks w"
    and nx: "next_addr w' = next_addr w"
  shows "dl_inv E (w'\<lparr>downlinks := (downlinks w')(a := None)\<rparr>)"
    and "orphans (w'\<lparr>downlinks := (downlinks w')(a := None)\<rparr>) = orphans w \<union> (set (held d) - X)"
proof -
  have keep: "wf_downlink w' e" if "downlinks w b = Some e" "b \<noteq> a" for b e
  proof -
    from dl_invD(4) [OF inv a that(1)] that(2) X have "X \<inter> set (held e) = {}" by auto
    then have "wf_downlink w' e = wf_downlink w e"
      by (intro wf_downlink_cong) (auto simp: view)
    with dl_invD(3) [OF inv that(1)] show ?thesis by simp
  qed
  then show "dl_inv E (w'\<lparr>downlinks := (downlinks w')(a := None)\<rparr>)"
    using assms(3) dl_invD(2,4) [OF inv]
    by (auto simp: dl_inv_def dls nx split: if_splits)
  have "dom (slab w') = dom (slab w) - X"
    unfolding dom_slab_view view by (rule set_eqI) (simp add: domIff del: not_None_eq)
  moreover have "set (held d) \<subseteq> dom (slab w)"
    using dl_invD(3) [OF inv a] by (auto simp: wf_downlink_def)
  ultimately show "orphans (w'\<lparr>downlinks := (downlinks w')(a := None)\<rparr>) = orphans w \<union> (set (held d) - X)"
    using held_others [OF inv a] X others_cong [OF dls]
    by (auto simp: orphans_def owned_split [OF a])
qed

lemma close_world:
  assumes inv: "dl_inv E w" and a: "downlinks w a = Some d"
  shows "\<exists>w'. downlink_close (Some a) w = Inr w' \<and> downlinks w' = (downlinks w)(a := None)
    \<and> dl_inv E w' \<and> orphans w' = orphans w \<union> set (block_queue d) \<and> trace w' = trace w
    \<and> next_addr w' = next_addr w"
proof -
  note i = dl_invD [OF inv]
  define X where "X = set_option (current_block d)"
  have X: "X \<subseteq> set (held d)" "set (held d) - X = set (block_queue d)"
    using i(3) [OF a] by (auto simp: X_def held_def wf_downlink_def split: option.splits)
  obtain w1 where w1: "(if current_block d \<noteq> NULL then block_free (current_block d) w else Inr w) = Inr w1"
      "slab_view w1 = (\<lambda>x. if x \<in> X then None else slab_view w x)" "slab_inv E w1"
      "next_addr w1 = next_addr w" "trace w1 = trace w" "downlinks w1 = downlinks w"
  proof (cases "current_block d")
    case None
    with i(1) show ?thesis by (intro that [of w]) (auto simp: X_def)
  next
    case (Some b)
    with i(3) [OF a] have "slab_view w b \<noteq> None" by (simp add: wf_downlink_def held_def)
    from slab.dispose_live [OF i(1) this] Some show ?thesis
      by (auto simp: X_def fun_eq_iff intro!: that dest!: more_downlinks)
  qed
  from dl_inv_drop [OF inv a w1(3,2) X(1) w1(6,4)] X(2) a w1(1,4-6) show ?thesis
    by (simp add: downlink_close_def)
qed

subsection \<open>Opening and receiving blocks\<close>

text \<open>A context that takes a fresh block at the end of its queue.\<close>

lemma dl_inv_grow:
  assumes inv: "dl_inv E w" and a: "downlinks w a = Some d" and "slab_inv E w'"
    and view: "slab_view w' = (slab_view w)(b \<mapsto> v)" and b: "b = next_addr w"
    and dls: "downlinks w' = downlinks w" and nx: "next_addr w' = Suc (next_addr w)"
    and d': "block_queue d' = block_queue d @ [b]" "current_block d' = current_block d"
      "offset d' = offset d"
  shows "dl_inv E (put_downlink a d' w')" and "orphans (put_downlink a d' w') = orphans w"
    and "segs w' d' = segs w d @ [v]"
proof -
  note i = dl_invD [OF inv]
  have new: "slab_view w b = None"
    using slab.view_bounded [OF i(1)] b by (metis less_irrefl not_Some_eq)
  have fresh: "b \<notin> set (held e)" if "downlinks w x = Some e" for x e
    using i(3) [OF that] new by (auto simp: wf_downlink_def)
  have h: "held d' = held d @ [b]" by (simp add: held_def d')
  have same: "wf_downlink w' e = wf_downlink w e" "segs w' e = segs w e"
    if e: "downlinks w x = Some e" for x e
  proof -
    have "slab_view w' y = slab_view w y" if "y \<in> set (held e)" for y
      using fresh [OF e] that by (auto simp: view)
    from wf_downlink_cong [OF this]
    show "wf_downlink w' e = wf_downlink w e" "segs w' e = segs w e" by auto
  qed
  have seg': "seg w' x = seg w x" if "x \<noteq> b" for x using that by (simp add: seg_def view)
  have "slab w' x = None \<longleftrightarrow> x \<noteq> b \<and> slab w x = None" for x
    unfolding slab_view_None [symmetric] view by simp
  then have "wf_downlink w' d'"
    using i(3) [OF a] fresh [OF a] seg'
    by (auto simp: wf_downlink_def h d' held_def split: option.splits)
  then show "dl_inv E (put_downlink a d' w')"
    using assms(3) same(1) i fresh nx a
    by (auto simp: dl_inv_def dls h Int_commute fresh_above_mono [where n = "next_addr w"] dest: fresh_aboveD)
  have "dom (slab w') = insert b (dom (slab w))"
    unfolding dom_slab_view view by simp
  moreover have "b \<notin> others w a" using fresh by (auto simp: others_def)
  moreover have "b \<notin> dom (slab w)" using new by (auto simp: slab_view_None)
  ultimately show "orphans (put_downlink a d' w') = orphans w"
    using others_cong [OF dls] by (auto simp: orphans_def owned_split [OF a] h)
  show "segs w' d' = segs w d @ [v]"
    using same(2) [OF a] view
    by (simp add: segs_def d' seg_def [where w = w' and a = b] cong: option.case_cong)
qed

lemma open_world:
  assumes inv: "dl_inv E w" and run: "downlink_open E arg w = (p, w')"
  shows "dl_inv E w'" and "orphans w' = orphans w"
    and "p = Some a \<Longrightarrow> downlinks w a = None \<and> (\<exists>d. downlinks w' = (downlinks w)(a \<mapsto> d)
      \<and> segs w' d = [] \<and> cb_arg d = arg \<and> \<not> complete d \<and> \<not> aborted d \<and> client_waiting d)"
proof -
  note i = dl_invD [OF inv]
  have wfx: "wf_downlink (w\<lparr>trace := t, next_addr := k\<rparr>) e = wf_downlink w e" for t k e
    by (simp add: wf_downlink_def seg_def slab_view_def cong: option.case_cong)
  have wfy: "wf_downlink (w\<lparr>trace := t\<rparr>) e = wf_downlink w e" for t e
    by (simp add: wf_downlink_def seg_def slab_view_def cong: option.case_cong)
  consider (null) "p = NULL" "w' = w\<lparr>trace := trace w @ [Malloc]\<rparr>"
    | (fresh) "p = Some (next_addr w)" "w' = put_downlink (next_addr w) (new_downlink arg)
        (w\<lparr>trace := trace w @ [Malloc], next_addr := Suc (next_addr w)\<rparr>)"
    using run by (cases E w rule: malloc_cases) (auto simp: downlink_open_def)
  then have "dl_inv E w' \<and> orphans w' = orphans w \<and> (p = Some a \<longrightarrow> downlinks w a = None
      \<and> (\<exists>d. downlinks w' = (downlinks w)(a \<mapsto> d) \<and> segs w' d = [] \<and> cb_arg d = arg
        \<and> \<not> complete d \<and> \<not> aborted d \<and> client_waiting d))"
  proof cases
    case null
    with i show ?thesis
      by (auto simp: dl_inv_def wfy slab_inv_def orphans_def owned_def)
  next
    case fresh
    have "downlinks w (next_addr w) = None" using i(2) by simp
    moreover have "others (w\<lparr>trace := t, next_addr := k\<rparr>) (next_addr w) = owned w" for t k
      using i(2) by (auto simp: others_def owned_def) (metis fresh_aboveD less_irrefl)
    ultimately show ?thesis using fresh i
      by (auto simp: dl_inv_def wfx slab_inv_def orphans_def
          fresh_above_mono [where n = "next_addr w"] intro!: exI [of _ "new_downlink arg"])
  qed
  then show "dl_inv E w'" "orphans w' = orphans w"
    and "p = Some a \<Longrightarrow> downlinks w a = None \<and> (\<exists>d. downlinks w' = (downlinks w)(a \<mapsto> d)
      \<and> segs w' d = [] \<and> cb_arg d = arg \<and> \<not> complete d \<and> \<not> aborted d \<and> client_waiting d)"
    by blast+
qed

lemma block_cb_push:
  assumes inv: "dl_inv E w" and a: "downlinks w a = Some d" and "\<not> aborted d"
    and room: "slab_used w < num_blocks E" and fits: "length src \<le> max_block_size E"
  shows "\<exists>w' d'. downlink_block_cb E cb src lst (Some a) w =
      (if current_block d = NULL \<and> client_waiting d
       then bnd (cb (cb_arg d) w') (\<lambda>w. Inr (GOLIOTH_OK, w)) else Inr (GOLIOTH_OK, w'))
    \<and> downlinks w' = (downlinks w)(a \<mapsto> d') \<and> segs w' d' = segs w d @ [(src, lst)]
    \<and> client_waiting d' = (client_waiting d \<and> current_block d \<noteq> NULL)
    \<and> current_block d' = current_block d \<and> complete d' = complete d \<and> \<not> aborted d'
    \<and> cb_arg d' = cb_arg d \<and> dl_inv E w' \<and> orphans w' = orphans w \<and> trace w' = trace w
    \<and> slab_used w' = Suc (slab_used w) \<and> downlink_world.more w' = downlink_world.more w"
proof -
  note i = dl_invD [OF inv]
  obtain b w1 where al: "block_alloc E NULL w = (Some b, w1)" and b: "b = next_addr w"
    using room by (auto simp: block_alloc_def)
  from slab.fill_block [OF i(1) al fits, of lst] obtain w2 w3 where
    w3: "block_append (Some b) src w1 = Inr w2"
      "(if lst then block_mark_last (Some b) w2 else Inr w2) = Inr w3"
      "slab_view w3 = (slab_view w)(b \<mapsto> (src, lst))" "slab_inv E w3"
      "next_addr w3 = Suc (next_addr w)" "trace w3 = trace w" "downlinks w3 = downlinks w"
      "downlink_world.more w3 = downlink_world.more w"
    by (auto dest: more_downlinks more_more)
  define d' where "d' = (let d = d\<lparr>block_queue := block_queue d @ [b]\<rparr> in
      if current_block d = NULL \<and> client_waiting d then d\<lparr>client_waiting := False\<rparr> else d)"
  have grow: "dl_inv E (put_downlink a d' w3)" "orphans (put_downlink a d' w3) = orphans w"
    "segs w3 d' = segs w d @ [(src, lst)]"
    using dl_inv_grow [OF inv a w3(4,3) b w3(7,5), of d'] by (simp_all add: d'_def Let_def)
  have "slab_view w b = None"
    using slab.view_bounded [OF i(1)] b by (metis less_irrefl not_Some_eq)
  moreover have "dom (slab w3) = insert b (dom (slab w))" unfolding dom_slab_view w3(3) by simp
  ultimately have "slab_used (put_downlink a d' w3) = Suc (slab_used w)"
    using i(1) w3(4) by (simp add: slab_inv_def domIff)
  moreover have "downlink_block_cb E cb src lst (Some a) w =
      (if current_block d = NULL \<and> client_waiting d
       then bnd (cb (cb_arg d) (put_downlink a d' w3)) (\<lambda>w. Inr (GOLIOTH_OK, w))
       else Inr (GOLIOTH_OK, put_downlink a d' w3))"
    using a assms(3) al w3(1,2) by (auto simp: downlink_block_cb_def d'_def Let_def)
  ultimately show ?thesis
    using grow w3(6-8) assms(3) by (intro exI [of _ "put_downlink a d' w3"] exI [of _ d']) (auto simp: d'_def Let_def)
qed

text \<open>The branches of \<open>pouch_gateway_downlink_block_cb\<close> that give the downlink up.\<close>

lemma flush_close_world:
  assumes inv: "dl_inv E w" and a: "downlinks w a = Some d"
  shows "\<exists>w1 w'. flush_block_queue (Some a) w = Inr w1 \<and> downlink_close (Some a) w1 = Inr w'
    \<and> downlinks w' = (downlinks w)(a := None) \<and> dl_inv E w' \<and> orphans w' = orphans w
    \<and> trace w' = trace w"
proof -
  from flush_world [OF inv a] obtain w1 where
    w1: "flush_block_queue (Some a) w = Inr w1" "downlinks w1 = (downlinks w)(a \<mapsto> d\<lparr>block_queue := []\<rparr>)"
      "dl_inv E w1" "orphans w1 = orphans w" "trace w1 = trace w" by blast
  from close_world [OF w1(3), of a "d\<lparr>block_queue := []\<rparr>"] w1 show ?thesis by auto
qed

lemma block_cb_give_up:
  assumes "dl_inv E w" and "downlinks w a = Some d"
    and "aborted d \<or> num_blocks E \<le> slab_used w"
  shows "\<exists>w'. downlink_block_cb E cb src lst (Some a) w =
      Inr (if aborted d then GOLIOTH_ERR_NACK else GOLIOTH_ERR_MEM_ALLOC, w')
    \<and> downlinks w' = (downlinks w)(a := None) \<and> dl_inv E w' \<and> orphans w' = orphans w
    \<and> trace w' = trace w"
proof -
  from flush_close_world [OF assms(1,2)] obtain w1 w' where
    "flush_block_queue (Some a) w = Inr w1" "downlink_close (Some a) w1 = Inr w'"
    "downlinks w' = (downlinks w)(a := None)" "dl_inv E w'" "orphans w' = orphans w"
    "trace w' = trace w" by blast
  with assms show ?thesis
    by (cases "aborted d") (auto simp: downlink_block_cb_def block_alloc_def)
qed

subsection \<open>Aborting and ending\<close>

lemma dl_inv_flag:
  assumes inv: "dl_inv E w" and a: "downlinks w a = Some d"
  shows "dl_inv E (put_downlink a (d\<lparr>aborted := True\<rparr>) w)"
    and "orphans (put_downlink a (d\<lparr>aborted := True\<rparr>) w) = orphans w"
  using dl_inv_shrink [OF inv a dl_invD(1) [OF inv], of "d\<lparr>aborted := True\<rparr>"] dl_invD(3) [OF inv a]
  by auto

lemma abort_world:
  assumes inv: "dl_inv E w" and a: "downlinks w a = Some d"
  shows "\<exists>w'. downlink_abort (Some a) w = Inr w'
    \<and> downlinks w' = (downlinks w)(a := (if complete d then None else Some (d\<lparr>aborted := True\<rparr>)))
    \<and> dl_inv E w' \<and> trace w' = trace w
    \<and> orphans w' = orphans w \<union> (if complete d then set (block_queue d) else {})"
proof -
  define w1 where "w1 = put_downlink a (d\<lparr>aborted := True\<rparr>) w"
  have w1: "dl_inv E w1" "orphans w1 = orphans w" "downlinks w1 = (downlinks w)(a \<mapsto> d\<lparr>aborted := True\<rparr>)"
    "trace w1 = trace w"
    using dl_inv_flag [OF inv a] by (simp_all add: w1_def)
  have run: "downlink_abort (Some a) w = (if complete d then downlink_close (Some a) w1 else Inr w1)"
    using a by (simp add: downlink_abort_def downlink_is_complete_def w1_def)
  from close_world [OF w1(1), of a "d\<lparr>aborted := True\<rparr>"] w1 run show ?thesis
    by (cases "complete d") auto
qed

lemma end_cb_world:
  assumes inv: "dl_inv E w" and a: "downlinks w a = Some d" and "status \<noteq> GOLIOTH_OK"
    and "\<not> complete d"
  shows "\<exists>w'. downlink_end_cb cb status (Some a) w
      = (if current_block d = NULL then cb (cb_arg d) w' else Inr w')
    \<and> downlinks w' = (downlinks w)(a \<mapsto> d\<lparr>aborted := True\<rparr>) \<and> dl_inv E w'
    \<and> orphans w' = orphans w \<and> trace w' = trace w"
proof -
  from abort_world [OF inv a] assms(4) obtain w' where "downlink_abort (Some a) w = Inr w'"
    "downlinks w' = (downlinks w)(a \<mapsto> d\<lparr>aborted := True\<rparr>)" "dl_inv E w'"
    "orphans w' = orphans w" "trace w' = trace w" by auto
  with assms(3) show ?thesis by (auto simp: downlink_end_cb_def)
qed

subsection \<open>What the owner of the callback promises\<close>

text \<open>
  The operations that notify the reader hand control to \<open>data_available_cb\<close>.  The contract
  of that callback: it may use the downlinks as it likes, but keeps the ownership invariant.
  Under it, every call of \<open>lib/downlink.c\<close> that returns keeps the invariant, too.
\<close>

inductive dl_step :: "'e env_scheme \<Rightarrow> (conn \<Rightarrow> 'a downlink_world_scheme \<Rightarrow> fault + 'a downlink_world_scheme)
    \<Rightarrow> 'a downlink_world_scheme \<Rightarrow> 'a downlink_world_scheme \<Rightarrow> bool" for E cb where
  step_open: "downlink_open E arg w = (p, w') \<Longrightarrow> dl_step E cb w w'"
| step_block: "downlink_block_cb E cb src lst p w = Inr (status, w') \<Longrightarrow>
    length src \<le> max_block_size E \<Longrightarrow> dl_step E cb w w'"
| step_end: "downlink_end_cb cb status p w = Inr w' \<Longrightarrow> dl_step E cb w w'"
| step_read: "downlink_get_data E p dst n w = Inr (rc, dst', n', lst, w') \<Longrightarrow> n \<le> length dst \<Longrightarrow>
    dl_step E cb w w'"
| step_abort: "downlink_abort p w = Inr w' \<Longrightarrow> dl_step E cb w w'"
| step_close: "downlink_close p w = Inr w' \<Longrightarrow> dl_step E cb w w'"

inductive dl_run :: "'e env_scheme \<Rightarrow> (conn \<Rightarrow> 'a downlink_world_scheme \<Rightarrow> fault + 'a downlink_world_scheme)
    \<Rightarrow> 'a downlink_world_scheme \<Rightarrow> 'a downlink_world_scheme \<Rightarrow> bool" for E cb where
  run_refl: "dl_run E cb w w"
| run_step: "dl_run E cb w w' \<Longrightarrow> dl_step E cb w' w'' \<Longrightarrow> dl_run E cb w w''"

inductive_cases dl_stepE: "dl_step E cb w w'"

lemma deref_InrE:
  assumes "bnd (deref m p) f = Inr r"
  obtains a x where "p = Some a" and "m a = Some x" and "f (a, x) = Inr r"
  using assms by (cases "deref m p") (auto simp: deref_eq_Inr)

lemma read_keeps:
  assumes "dl_inv E w" and run: "downlink_get_data E p dst n w = Inr (rc, dst', n', lst, w')"
    and "n \<le> length dst" and sizes: "max_block_size E < 2 ^ 31"
  shows "dl_inv E w'"
proof -
  from run obtain a d where p: "p = Some a" "downlinks w a = Some d"
    by (auto simp: downlink_get_data_def downlink_is_complete_def bnd_simps)
  obtain out r l st where draw: "draw (segs w d) n = (out, r, l, st)" by (cases "draw (segs w d) n")
  show ?thesis
  proof (cases "complete d")
    case True
    with run p assms(1) show ?thesis by (simp add: downlink_get_data_def downlink_is_complete_def)
  next
    case False
    from get_data_world [OF assms(1) p(2) this sizes assms(3) draw] run p show ?thesis by auto
  qed
qed

locale downlink_client =
  fixes E :: "'e env_scheme"
    and cb :: "conn \<Rightarrow> 'a downlink_world_scheme \<Rightarrow> fault + 'a downlink_world_scheme"
  assumes cb_keeps: "dl_inv E w \<Longrightarrow> max_block_size E < 2 ^ 31 \<Longrightarrow> cb c w = Inr w' \<Longrightarrow> dl_inv E w'"
begin

lemma block_keeps:
  assumes "dl_inv E w" and run: "downlink_block_cb E cb src lst p w = Inr (status, w')"
    and "length src \<le> max_block_size E" and sizes: "max_block_size E < 2 ^ 31"
  shows "dl_inv E w'"
proof -
  from run obtain a d where p: "p = Some a" "downlinks w a = Some d"
    unfolding downlink_block_cb_def by (rule deref_InrE)
  show ?thesis
  proof (cases "aborted d \<or> num_blocks E \<le> slab_used w")
    case True
    with block_cb_give_up [OF assms(1) p(2) True, of cb src lst] run p show ?thesis by auto
  next
    case False
    then obtain w1 where w1: "dl_inv E w1" and eq: "downlink_block_cb E cb src lst (Some a) w =
        (if current_block d = NULL \<and> client_waiting d
         then bnd (cb (cb_arg d) w1) (\<lambda>w. Inr (GOLIOTH_OK, w)) else Inr (GOLIOTH_OK, w1))"
      using block_cb_push [OF assms(1) p(2) _ _ assms(3), of cb lst] by (auto simp del: split_paired_Ex)
    from run [unfolded p(1) eq] cb_keeps [OF w1 sizes] w1 show ?thesis
      by (auto simp: bnd_simps split: if_splits)
  qed
qed

lemma end_keeps:
  assumes "dl_inv E w" and run: "downlink_end_cb cb status p w = Inr w'"
    and sizes: "max_block_size E < 2 ^ 31"
  shows "dl_inv E w'"
proof (cases "status = GOLIOTH_OK")
  case True
  with assms show ?thesis by (simp add: downlink_end_cb_def)
next
  case False
  with run obtain a d where p: "p = Some a" "downlinks w a = Some d"
    by (auto simp: downlink_end_cb_def downlink_abort_def bnd_simps)
  with abort_world [OF assms(1) p(2)] run False
  have "\<not> complete d" by (auto simp: downlink_end_cb_def split: if_splits)
  from end_cb_world [OF assms(1) p(2) False this, of cb] obtain w1 where w1: "dl_inv E w1"
    and eq: "downlink_end_cb cb status (Some a) w
      = (if current_block d = NULL then cb (cb_arg d) w1 else Inr w1)" by blast
  from run [unfolded p(1) eq] cb_keeps [OF w1 sizes] w1 show ?thesis by (auto split: if_splits)
qed

lemma step_keeps: "dl_step E cb w w' \<Longrightarrow> max_block_size E < 2 ^ 31 \<Longrightarrow> dl_inv E w \<Longrightarrow> dl_inv E w'"
proof (induction rule: dl_step.induct)
  case (step_abort p w w')
  then obtain a d where "p = Some a" "downlinks w a = Some d"
    by (auto simp: downlink_abort_def bnd_simps)
  with abort_world [OF step_abort(3)] step_abort(1) show ?case by fastforce
next
  case (step_close p w w')
  then obtain a d where "p = Some a" "downlinks w a = Some d"
    by (auto simp: downlink_close_def bnd_simps)
  with close_world [OF step_close(3)] step_close(1) show ?case by fastforce
qed (blast intro: open_world(1) block_keeps end_keeps read_keeps)+

lemma run_keeps: "dl_run E cb w w' \<Longrightarrow> max_block_size E < 2 ^ 31 \<Longrightarrow> dl_inv E w \<Longrightarrow> dl_inv E w'"
  by (induction rule: dl_run.induct) (blast intro: step_keeps)+

end

end
