(* ===== verification/Downlink_Stream.thy ===== *)
theory Downlink_Stream
  imports Downlink_Inv
begin

text \<open>
  What a downlink promises its reader: the bytes drawn are the bytes received, in order and
  without loss, under every interleaving of arriving blocks and reads; the end is announced
  exactly once all of them are delivered; once the last block is there no read is refused;
  and a reader that went away empty-handed is notified by the next block.
\<close>

subsection \<open>Segments with the end mark in place\<close>

text \<open>\<open>marked lf ss\<close>: the last segment carries the mark if \<open>lf\<close>, and no other does.\<close>

fun marked :: "bool \<Rightarrow> (bytes \<times> bool) list \<Rightarrow> bool" where
  "marked lf [] = (\<not> lf)"
| "marked lf [(_, l)] = (l = lf)"
| "marked lf ((_, l) # s # ss) = (\<not> l \<and> marked lf (s # ss))"

lemma marked_Cons: "marked lf ((bs, l) # ss) = (if ss = [] then l = lf else \<not> l \<and> marked lf ss)"
  by (cases ss) auto

lemma marked_snoc: "marked False ss \<Longrightarrow> marked lf (ss @ [(bs, lf)])"
  by (induction ss) (auto simp: marked_Cons split: if_splits)

lemma draw_marked:
  assumes "draw ss n = (out, r, l, st)" and "marked lf ss"
  shows "if l then lf \<and> r = [] \<and> \<not> st else marked lf r \<and> (st \<longrightarrow> \<not> lf)"
  using assms
proof (induction ss n arbitrary: out rule: draw.induct)
  case (2 bs l' ss n)
  then show ?case by (cases "ss = []") (auto simp: marked_Cons split: if_splits prod.splits)
qed auto

lemma draw_ready:
  assumes "draw ss n = (out, r, l, st)" and "marked True ss"
  shows "l \<or> length out = n"
  using assms
proof (induction ss n arbitrary: out rule: draw.induct)
  case (2 bs l' ss n)
  then show ?case by (cases "ss = []") (auto simp: marked_Cons split: if_splits prod.splits)
qed auto

definition pending :: "'a slab_world_scheme \<Rightarrow> downlink \<Rightarrow> bytes" where
  "pending w d = concat (map fst (segs w d))"

subsection \<open>Any interleaving of arriving blocks and reads\<close>

text \<open>
  \<open>dl_stream E a fed lf got fin w\<close>: in the life of the context \<open>a\<close>, opened in a good world,
  the cloud has delivered \<open>fed\<close> (its last block if \<open>lf\<close>), the reader has drawn \<open>got\<close> (told
  about the end if \<open>fin\<close>), and the world is now \<open>w\<close>.  The notification is only recorded by
  the flag here; the reader acts on it in its own step.
\<close>

inductive dl_stream :: "'e env_scheme \<Rightarrow> addr \<Rightarrow> bytes \<Rightarrow> bool \<Rightarrow> bytes \<Rightarrow> bool
    \<Rightarrow> 'a downlink_world_scheme \<Rightarrow> bool" for E a where
  opened: "dl_inv E w0 \<Longrightarrow> downlink_open E c w0 = (Some a, w) \<Longrightarrow> dl_stream E a [] False [] False w"
| arrived: "dl_stream E a fed False got fin w \<Longrightarrow> length src \<le> max_block_size E \<Longrightarrow>
    downlink_block_cb E (\<lambda>_ w. Inr w) src lst (Some a) w = Inr (GOLIOTH_OK, w') \<Longrightarrow>
    dl_stream E a (fed @ src) lst got fin w'"
| drawn: "dl_stream E a fed lf got False w \<Longrightarrow> n \<le> length dst \<Longrightarrow>
    downlink_get_data E (Some a) dst n w = Inr (rc, dst', n', lst, w') \<Longrightarrow>
    dl_stream E a fed lf (got @ take n' dst') lst w'"

lemma dl_stream_inv:
  assumes "dl_stream E a fed lf got fin w" and "max_block_size E < 2 ^ 31"
  shows "\<exists>d. downlinks w a = Some d \<and> dl_inv E w \<and> got @ pending w d = fed
    \<and> complete d = fin \<and> \<not> aborted d \<and> (if fin then lf \<and> segs w d = [] else marked lf (segs w d))"
  using assms(1)
proof induction
  case (opened w0 c w)
  from open_world [OF this] show ?case by (auto simp: pending_def new_downlink_def)
next
  case (arrived fed got fin w src lst w')
  then obtain d where d: "downlinks w a = Some d" "dl_inv E w" "got @ pending w d = fed"
    "complete d = fin" "\<not> aborted d" "\<not> fin" "marked False (segs w d)" by auto
  have room: "slab_used w < num_blocks E"
  proof (rule ccontr)
    assume "\<not> slab_used w < num_blocks E"
    with block_cb_give_up [OF d(2,1), of "\<lambda>_ w. Inr w" src lst] arrived(3) d(5) show False by auto
  qed
  from block_cb_push [OF d(2,1,5) this arrived(2), of "\<lambda>_ w. Inr w" lst] arrived(3) d(4)
  obtain d' where "downlinks w' = (downlinks w)(a \<mapsto> d')" "segs w' d' = segs w d @ [(src, lst)]"
    "complete d' = fin" "\<not> aborted d'" "dl_inv E w'"
    by (auto split: if_splits)
  with d marked_snoc show ?case by (auto simp: pending_def)
next
  case (drawn fed lf got w n dst rc dst' n' lst w')
  then obtain d where d: "downlinks w a = Some d" "dl_inv E w" "got @ pending w d = fed"
    "\<not> complete d" "\<not> aborted d" "marked lf (segs w d)" by auto
  obtain out r l st where draw: "draw (segs w d) n = (out, r, l, st)" by (cases "draw (segs w d) n")
  from get_data_world [OF d(2,1,4) assms(2) drawn(2) draw] drawn(3) d(5)
  obtain d' where d': "n' = length out" "dst' = out @ drop (length out) dst" "lst = l"
    "downlinks w' = (downlinks w)(a \<mapsto> d')" "segs w' d' = r" "complete d' = l" "\<not> aborted d'"
    "dl_inv E w'" by auto
  from draw_concat [OF draw] draw_marked [OF draw d(6)] d(3) d'
  show ?case by (auto simp: pending_def split: if_splits)
qed

subsection \<open>A concrete transfer\<close>

text \<open>
  The world at boot, and the stream of two blocks \<open>[1, 2]\<close> and \<open>[3]\<close> through the context
  with address 0; the reader draws two bytes in between.
\<close>

definition boot_world :: downlink_world where
  "boot_world = \<lparr>trace = [], next_addr = 0, slab = Map.empty, slab_used = 0, downlinks = Map.empty\<rparr>"

definition open_world0 :: downlink_world where
  "open_world0 = boot_world\<lparr>trace := [Malloc], next_addr := 1, downlinks := [0 \<mapsto> new_downlink 7]\<rparr>"

lemma boot_world_inv: "dl_inv E boot_world"
  by (simp add: boot_world_def dl_inv_def slab_inv_def fresh_above_def)

lemma open_world0_run: "downlink_open small_env 7 boot_world = (Some 0, open_world0)"
  by (simp add: downlink_open_def malloc_def ext_call_def put_downlink_def boot_world_def open_world0_def)

lemma open_world0_inv: "dl_inv small_env open_world0"
  by (rule open_world(1) [OF boot_world_inv open_world0_run])

lemma open_world0_simps [simp]:
  "downlinks open_world0 = [0 \<mapsto> new_downlink 7]" "slab_used open_world0 = 0" "trace open_world0 = [Malloc]"
  by (simp_all add: open_world0_def boot_world_def)

lemma new_downlink_current [simp]: "current_block (new_downlink c) = NULL"
  by (simp add: new_downlink_def)

lemma stream0: "dl_stream small_env 0 [] False [] False open_world0"
  by (rule dl_stream.opened [OF boot_world_inv open_world0_run])

text \<open>One block arrives at the fresh context; the notification flag is taken down.\<close>

lemma stream1:
  assumes "length src \<le> 4"
  shows "\<exists>(w :: downlink_world) d. dl_stream small_env 0 src lf [] False w \<and> dl_inv small_env w \<and> downlinks w = [0 \<mapsto> d]
    \<and> segs w d = [(src, lf)] \<and> \<not> complete d \<and> \<not> aborted d \<and> slab_used w = 1"
proof -
  from block_cb_push [OF open_world0_inv, of 0 "new_downlink 7" src "\<lambda>_ w. Inr w" lf] assms
  obtain w d where w: "downlink_block_cb small_env (\<lambda>_ w. Inr w) src lf (Some 0) open_world0 = Inr (GOLIOTH_OK, w)"
    "downlinks w = [0 \<mapsto> d]" "segs w d = [(src, lf)]" "\<not> complete d" "\<not> aborted d"
    "dl_inv small_env w" "slab_used w = 1" by auto
  from dl_stream.arrived [OF stream0 _ w(1)] assms have "dl_stream small_env 0 src lf [] False w" by simp
  with w show ?thesis by blast
qed

lemma stream2: "\<exists>w :: downlink_world. dl_stream small_env 0 [1, 2] True [1] False w"
proof -
  from stream1 [of "[1, 2]" True] obtain w :: downlink_world and d where w: "dl_stream small_env 0 [1, 2] True [] False w"
    "dl_inv small_env w" "downlinks w = [0 \<mapsto> d]" "segs w d = [([1, 2], True)]" "\<not> complete d"
    "\<not> aborted d" by auto
  have "draw (segs w d) 1 = ([1], [([2], True)], False, False)" by (simp add: w(4))
  from get_data_world [OF w(2) _ w(5) _ _ this, of 0 "[0]"] w(3)
  obtain w' where "downlink_get_data small_env (Some 0) [0] 1 w = Inr (0, [1], 1, False, w')" by auto
  from dl_stream.drawn [OF w(1) _ this] show ?thesis by auto
qed

subsection \<open>The properties\<close>

text \<open>
  C11: pouch_gateway_downlink_get_data implements the specification \<open>draw\<close>: on an open,
  incomplete context it stores exactly the bytes \<open>draw\<close> takes from the pending segments at
  the front of the destination, leaves the rest of the destination alone, reports the end
  when the last block is finished (or, after an abort, when nothing is left), returns -EAGAIN
  exactly when it ran dry without an abort, arms the notification when it delivered nothing,
  and gives the blocks it finished back to the pool.
\<close>

theorem get_data_refines_draw:
  assumes "dl_inv E w" and "downlinks w a = Some d" and "\<not> complete d"
    and "max_block_size E < 2 ^ 31" and "n \<le> length dst"
  shows "\<exists>out r l st w' d'. draw (segs w d) n = (out, r, l, st)
    \<and> downlink_get_data E (Some a) dst n w
        = Inr (if st \<and> \<not> aborted d then - EAGAIN else 0, out @ drop (length out) dst, length out,
               l \<or> st \<and> aborted d, w')
    \<and> downlinks w' = (downlinks w)(a \<mapsto> d') \<and> segs w' d' = r
    \<and> complete d' = (l \<or> st \<and> aborted d)
    \<and> client_waiting d' = (client_waiting d \<or> st \<and> \<not> aborted d \<and> out = [])
    \<and> dl_inv E w' \<and> orphans w' = orphans w"
proof -
  obtain out r l st where draw: "draw (segs w d) n = (out, r, l, st)" by (cases "draw (segs w d) n")
  from get_data_world [OF assms draw] draw show ?thesis by blast
qed

theorem get_data_refines_draw_witness:
  "\<exists>w' d'. downlink_get_data small_env (Some 0) [9, 9] 2 open_world0 = Inr (- EAGAIN, [9, 9], 0, False, w')
    \<and> downlinks w' 0 = Some d' \<and> client_waiting d'"
  using get_data_refines_draw [OF open_world0_inv, of 0 "new_downlink 7" 2 "[9, 9]"] by auto

text \<open>
  C1: the downlink is a lossless FIFO byte stream.  Under every interleaving of arriving
  blocks and reads, what the reader has drawn followed by what is still pending is what the
  cloud delivered; and when the reader is told that it has the last byte, it has drawn
  everything, the last block included.
\<close>

theorem stream_integrity:
  assumes "dl_stream E a fed lf got fin w" and "max_block_size E < 2 ^ 31"
  shows "\<exists>d. downlinks w a = Some d \<and> got @ pending w d = fed \<and> (fin \<longrightarrow> lf \<and> got = fed)"
proof -
  from dl_stream_inv [OF assms] obtain d where "downlinks w a = Some d" "got @ pending w d = fed"
    "if fin then lf \<and> segs w d = [] else marked lf (segs w d)" by auto
  then show ?thesis by (auto simp: pending_def split: if_splits)
qed

theorem stream_integrity_witness:
  "\<exists>(w :: downlink_world) d. dl_stream small_env 0 [1, 2] True [1] False w \<and> downlinks w 0 = Some d \<and> [1] @ pending w d = [1, 2]"
proof -
  from stream2 obtain w :: downlink_world where w: "dl_stream small_env 0 [1, 2] True [1] False w" ..
  with stream_integrity [OF w] show ?thesis by auto
qed

text \<open>
  Once the last block has arrived, no read is refused: every read of \<open>n > 0\<close> bytes
  returns 0 and either fills the destination or finishes the stream.  So a reader that keeps
  asking reaches the end after at most \<open>|pending|\<close> reads.
\<close>

theorem stream_progress:
  assumes "dl_stream E a fed True got False w" and "max_block_size E < 2 ^ 31"
    and "n \<le> length dst"
  shows "\<exists>dst' n' lst w'. downlink_get_data E (Some a) dst n w = Inr (0, dst', n', lst, w')
    \<and> (lst \<or> n' = n) \<and> dl_stream E a fed True (got @ take n' dst') lst w'"
proof -
  from dl_stream_inv [OF assms(1,2)] obtain d where d: "downlinks w a = Some d" "dl_inv E w"
    "\<not> complete d" "\<not> aborted d" "marked True (segs w d)" by auto
  obtain out r l st where draw: "draw (segs w d) n = (out, r, l, st)" by (cases "draw (segs w d) n")
  from draw_ready [OF draw d(5)] draw_starved [OF draw] have "\<not> st" and l: "l \<or> length out = n" by auto
  with get_data_world [OF d(2,1,3) assms(2,3) draw] d(4) obtain w' where
    run: "downlink_get_data E (Some a) dst n w = Inr (0, out @ drop (length out) dst, length out, l, w')"
    by auto
  from dl_stream.drawn [OF assms(1,3) run] run l show ?thesis by auto
qed

theorem stream_progress_witness:
  "\<exists>(w :: downlink_world) dst' n' lst w'. downlink_get_data small_env (Some 0) [0, 0, 0] 3 w = Inr (0, dst', n', lst, w')
    \<and> (lst \<or> n' = 3)"
proof -
  from stream2 obtain w :: downlink_world where w: "dl_stream small_env 0 [1, 2] True [1] False w" ..
  from stream_progress [OF this, of 3 "[0, 0, 0]"] show ?thesis by simp blast
qed

lemma segs_Nil_current: "segs w d = [] \<Longrightarrow> current_block d = NULL"
  by (auto simp: segs_def split: option.splits)

text \<open>A context whose reader is not waiting: no callback, whatever it would do.\<close>

lemma block_cb_quiet:
  "downlinks w a = Some d \<Longrightarrow> \<not> client_waiting d \<Longrightarrow>
     downlink_block_cb E cb src lst (Some a) w = downlink_block_cb E cb' src lst (Some a) w"
  by (simp add: downlink_block_cb_def Let_def split: option.splits prod.splits)

text \<open>
  No wake-up is lost between handlers, and none is given twice.  When a read returned
  -EAGAIN with nothing, the next block that arrives calls \<open>data_available_cb\<close> with the block
  in the stream and the waiting flag taken down; in that world a further block does not call
  the callback again.
\<close>

theorem wakeup_on_next_block:
  assumes inv: "dl_inv E w" and a: "downlinks w a = Some d" and "\<not> complete d"
    and "max_block_size E < 2 ^ 31" and "n \<le> length dst"
    and read: "downlink_get_data E (Some a) dst n w = Inr (- EAGAIN, dst', 0, False, w1)"
    and "slab_used w1 < num_blocks E" and "length src \<le> max_block_size E"
  shows "\<exists>w2 d2. downlink_block_cb E cb src lst (Some a) w1 = bnd (cb (cb_arg d) w2) (\<lambda>w. Inr (GOLIOTH_OK, w))
    \<and> downlinks w2 a = Some d2 \<and> segs w2 d2 = [(src, lst)] \<and> \<not> client_waiting d2
    \<and> downlink_block_cb E cb src' lst' (Some a) w2 = downlink_block_cb E (\<lambda>_ w. Inr w) src' lst' (Some a) w2"
proof -
  obtain out r l st where draw: "draw (segs w d) n = (out, r, l, st)" by (cases "draw (segs w d) n")
  from get_data_world [OF inv a assms(3-5) draw] read obtain d1 where
    d1: "downlinks w1 a = Some d1" "segs w1 d1 = r" "client_waiting d1" "\<not> aborted d1"
      "cb_arg d1 = cb_arg d" "dl_inv E w1" and "st"
    by (auto split: if_splits)
  with draw_starved [OF draw] have "segs w1 d1 = []" "current_block d1 = NULL"
    by (auto dest: segs_Nil_current)
  with block_cb_push [OF d1(6,1,4) assms(7,8), of cb lst] d1(3,5) obtain w2 d2 where
    "downlink_block_cb E cb src lst (Some a) w1 = bnd (cb (cb_arg d) w2) (\<lambda>w. Inr (GOLIOTH_OK, w))"
    "downlinks w2 a = Some d2" "segs w2 d2 = [(src, lst)]" "\<not> client_waiting d2" by auto
  with block_cb_quiet [OF this(2,4)] show ?thesis by blast
qed

theorem wakeup_on_next_block_witness:
  "\<exists>(w1 :: downlink_world) (w2 :: downlink_world) d2.
     downlink_get_data small_env (Some 0) [9, 9] 2 open_world0 = Inr (- EAGAIN, [9, 9], 0, False, w1)
   \<and> downlink_block_cb small_env (\<lambda>c w. Inl No_progress) [5] True (Some 0) w1 = Inl No_progress
   \<and> downlinks w2 0 = Some d2 \<and> segs w2 d2 = [([5], True)]"
proof -
  have run: "downlink_get_data small_env (Some 0) [9, 9] 2 open_world0
      = Inr (- EAGAIN, [9, 9], 0, False, open_world0)"
    by (simp add: downlink_get_data_def downlink_is_complete_def get_data_loop_empty next_block_def
        new_downlink_def put_downlink_def open_world0_def)
  from wakeup_on_next_block [OF open_world0_inv _ _ _ _ run, of "new_downlink 7",
      where src = "[5]" and cb = "\<lambda>c w. Inl No_progress" and lst = True and src' = "[6]" and lst' = True]
  obtain w2 :: downlink_world and d2 where
    "downlink_block_cb small_env (\<lambda>c w. Inl No_progress) [5] True (Some 0) open_world0 = Inl No_progress"
    "downlinks w2 0 = Some d2" "segs w2 d2 = [([5], True)]" by auto
  with run show ?thesis by blast
qed

text \<open>
  The ways a downlink is given up.  If the reader has aborted, or no block is free after
  the timeout, the callback returns NACK resp. MEM_ALLOC, all blocks of the context go back to
  the pool, no other context is touched - and the context itself is gone, so that any later
  read or completeness test through the pointer the reader still keeps is a use after free.
\<close>

theorem give_up_releases_context:
  assumes "dl_inv E w" and "downlinks w a = Some d" and "aborted d \<or> num_blocks E \<le> slab_used w"
  shows "\<exists>w'. downlink_block_cb E cb src lst (Some a) w
        = Inr (if aborted d then GOLIOTH_ERR_NACK else GOLIOTH_ERR_MEM_ALLOC, w')
    \<and> downlinks w' = (downlinks w)(a := None) \<and> orphans w' = orphans w \<and> dl_inv E w'
    \<and> downlink_get_data E (Some a) dst n w' = Inl Use_after_free
    \<and> downlink_is_complete (Some a) w' = Inl Use_after_free"
  using block_cb_give_up [OF assms, of cb src lst]
  by (auto simp: downlink_get_data_def downlink_is_complete_def)

theorem give_up_releases_context_witness:
  "\<exists>w'. downlink_block_cb (small_env\<lparr>num_blocks := 0\<rparr>) (\<lambda>_ w. Inr w) [1] False (Some 0) open_world0
      = Inr (GOLIOTH_ERR_MEM_ALLOC, w') \<and> downlinks w' = Map.empty"
proof -
  have "dl_inv (small_env\<lparr>num_blocks := 0\<rparr>) open_world0"
    by (simp add: dl_inv_def slab_inv_def open_world0_def boot_world_def fresh_above_def)
  from give_up_releases_context [OF this, of 0 "new_downlink 7" "\<lambda>_ w. Inr w" "[1]" False "[]" 0]
  show ?thesis by auto
qed

text \<open>
  \<open>pouch_gateway_downlink_end_cb\<close> uses the context after freeing it.  When the cloud ends
  the download with an error after the reader has finished the stream, the abort closes and
  frees the context, and the test of \<open>current_block\<close> that follows reads freed memory.
\<close>

theorem end_cb_after_completion:
  assumes "dl_inv E w" and "downlinks w a = Some d" and "complete d" and "status \<noteq> GOLIOTH_OK"
  shows "downlink_end_cb cb status (Some a) w = Inl Use_after_free"
proof -
  from abort_world [OF assms(1,2)] assms(3) obtain w' where
    "downlink_abort (Some a) w = Inr w'" "downlinks w' a = None" by auto
  with assms(4) show ?thesis by (simp add: downlink_end_cb_def)
qed

theorem end_cb_after_completion_witness:
  "\<exists>w :: downlink_world. dl_stream small_env 0 [1] True [1] True w
     \<and> downlink_end_cb (\<lambda>_ w. Inr w) GOLIOTH_ERR_OTHER (Some 0) w = Inl Use_after_free"
proof -
  from stream1 [of "[1]" True] obtain w :: downlink_world and d where
    w: "dl_stream small_env 0 [1] True [] False w" "dl_inv small_env w" "downlinks w = [0 \<mapsto> d]"
      "segs w d = [([1], True)]" "\<not> complete d" by auto
  have "draw (segs w d) 1 = ([1], [], True, False)" by (simp add: w(4))
  from get_data_world [OF w(2) _ w(5) _ _ this, of 0 "[0]"] w(3) obtain w' d' where
    w': "downlink_get_data small_env (Some 0) [0] 1 w = Inr (0, [1], 1, True, w')"
      "downlinks w' 0 = Some d'" "complete d'" "dl_inv small_env w'" by auto
  from dl_stream.drawn [OF w(1) _ w'(1)] end_cb_after_completion [OF w'(4,2,3)] show ?thesis by auto
qed

end
