(* ===== verification/Wakeup.thy ===== *)
theory Wakeup
  imports Downlink_Stream
begin

text \<open>
  The handlers of a downlink run in two threads: the cloud client's thread delivers blocks
  (\<open>pouch_gateway_downlink_block_cb\<close>), the Bluetooth thread reads
  (\<open>pouch_gateway_downlink_get_data\<close>).  The other theories treat a handler as one step; here
  the two are split at the accesses to the state they share: \<open>k_fifo_get\<close>, the store of the
  waiting flag, \<open>k_fifo_put\<close> and the test-and-clear of the flag.  A read takes whole blocks,
  so that the reader holds no current block when it finds the queue empty, and every
  successful read is followed by the next one, as \<open>write_response_cb\<close> does.  The download is under
  way: it is not aborted, and the last block is not told from the others, so that the reader may
  ask once more behind it.
\<close>

subsection \<open>The two threads\<close>

datatype reader_pc = Asleep | R_get | R_set
datatype writer_pc = W_idle | W_test

record wk =
  fifo :: "addr list"
  waiting :: bool
  reader :: reader_pc
  writer :: writer_pc
  incoming :: "addr list" \<comment> \<open>blocks the cloud has still to deliver\<close>
  drawn_blocks :: "addr list"

inductive wk_step :: "wk \<Rightarrow> wk \<Rightarrow> bool" where
  read_block: "reader s = R_get \<Longrightarrow> fifo s = b # q \<Longrightarrow>
    wk_step s (s\<lparr>fifo := q, drawn_blocks := drawn_blocks s @ [b]\<rparr>)"
| read_empty: "reader s = R_get \<Longrightarrow> fifo s = [] \<Longrightarrow> wk_step s (s\<lparr>reader := R_set\<rparr>)"
| read_wait: "reader s = R_set \<Longrightarrow> wk_step s (s\<lparr>waiting := True, reader := Asleep\<rparr>)"
| put_block: "writer s = W_idle \<Longrightarrow> incoming s = b # bs \<Longrightarrow>
    wk_step s (s\<lparr>incoming := bs, fifo := fifo s @ [b], writer := W_test\<rparr>)"
| put_notify: "writer s = W_test \<Longrightarrow> waiting s \<Longrightarrow>
    wk_step s (s\<lparr>waiting := False, reader := R_get, writer := W_idle\<rparr>)"
| put_quiet: "writer s = W_test \<Longrightarrow> \<not> waiting s \<Longrightarrow> wk_step s (s\<lparr>writer := W_idle\<rparr>)"

inductive_cases wk_stepE: "wk_step s t"
inductive_simps wk_step_from: "wk_step s t"

definition wk_init :: "addr list \<Rightarrow> wk" where
  "wk_init bs = \<lparr>fifo = [], waiting = True, reader = Asleep, writer = W_idle, incoming = bs,
     drawn_blocks = []\<rparr>"

inductive wk_reach :: "addr list \<Rightarrow> wk \<Rightarrow> bool" for bs where
  wk_start: "wk_reach bs (wk_init bs)"
| wk_next: "wk_reach bs s \<Longrightarrow> wk_step s t \<Longrightarrow> wk_reach bs t"

text \<open>All blocks have arrived, both threads are at rest, and the reader has not seen them all.\<close>

definition stranded :: "wk \<Rightarrow> bool" where
  "stranded s \<longleftrightarrow> reader s = Asleep \<and> writer s = W_idle \<and> incoming s = [] \<and> fifo s \<noteq> []"

subsection \<open>What holds in every interleaving\<close>

definition wk_inv :: "addr list \<Rightarrow> wk \<Rightarrow> bool" where
  "wk_inv bs s \<longleftrightarrow> drawn_blocks s @ fifo s @ incoming s = bs \<and> (waiting s \<longrightarrow> reader s = Asleep)"

lemma wk_step_inv: "wk_step s t \<Longrightarrow> wk_inv bs s \<Longrightarrow> wk_inv bs t"
  by (induction rule: wk_step.induct) (auto simp: wk_inv_def)

lemma wk_reach_inv: "wk_reach bs s \<Longrightarrow> wk_inv bs s"
proof (induction rule: wk_reach.induct)
  case wk_start
  then show ?case by (simp add: wk_inv_def wk_init_def)
next
  case (wk_next s t)
  then show ?case by (blast intro: wk_step_inv)
qed

lemma stranded_stuck: "stranded s \<Longrightarrow> \<not> wk_step s t"
  by (simp add: stranded_def wk_step_from)

subsection \<open>The window\<close>

text \<open>
  The writer tests the flag after it queued a block, while the reader is on its way from the
  empty queue to setting the flag.
\<close>

definition wk_gap :: "wk \<Rightarrow> wk \<Rightarrow> bool" where
  "wk_gap s t \<longleftrightarrow> reader s = R_set \<and> writer s = W_test \<and> writer t = W_idle \<and> fifo s \<noteq> []"

inductive wk_safe :: "addr list \<Rightarrow> wk \<Rightarrow> bool" for bs where
  safe_start: "wk_safe bs (wk_init bs)"
| safe_next: "wk_safe bs s \<Longrightarrow> wk_step s t \<Longrightarrow> \<not> wk_gap s t \<Longrightarrow> wk_safe bs t"

definition wk_guarded :: "wk \<Rightarrow> bool" where
  "wk_guarded s \<longleftrightarrow> (reader s = Asleep \<longrightarrow> waiting s)
     \<and> (reader s \<noteq> R_get \<longrightarrow> writer s = W_idle \<longrightarrow> fifo s = [])"

lemma wk_step_guarded:
  "wk_step s t \<Longrightarrow> \<not> wk_gap s t \<Longrightarrow> wk_guarded s \<Longrightarrow> wk_guarded t"
  by (induction rule: wk_step.induct) (auto simp: wk_guarded_def wk_gap_def, (metis reader_pc.exhaust)?)

lemma wk_safe_guarded: "wk_safe bs s \<Longrightarrow> wk_guarded s"
proof (induction rule: wk_safe.induct)
  case safe_start
  then show ?case by (simp add: wk_guarded_def wk_init_def)
next
  case (safe_next s t)
  then show ?case by (blast intro: wk_step_guarded)
qed

text \<open>The schedule that loses a wake-up: one block drawn, the next one queued in the window.\<close>

definition lost_schedule :: "wk list" where
  "lost_schedule =
     (let s0 = wk_init [1, 2];
          s1 = s0\<lparr>incoming := [2], fifo := [1], writer := W_test\<rparr>;
          s2 = s1\<lparr>waiting := False, reader := R_get, writer := W_idle\<rparr>;
          s3 = s2\<lparr>fifo := [], drawn_blocks := [1]\<rparr>;
          s4 = s3\<lparr>reader := R_set\<rparr>;
          s5 = s4\<lparr>incoming := [], fifo := [2], writer := W_test\<rparr>;
          s6 = s5\<lparr>writer := W_idle\<rparr>;
          s7 = s6\<lparr>waiting := True, reader := Asleep\<rparr>
      in [s0, s1, s2, s3, s4, s5, s6, s7])"

fun wk_path :: "wk list \<Rightarrow> bool" where
  "wk_path (s # t # ss) = (wk_step s t \<and> wk_path (t # ss))"
| "wk_path _ = True"

lemma wk_path_reach: "wk_path (s # ss) \<Longrightarrow> wk_reach bs s \<Longrightarrow> wk_reach bs (last (s # ss))"
proof (induction ss arbitrary: s)
  case (Cons t ss)
  then have "wk_reach bs t" by (auto intro: wk_next)
  with Cons show ?case by simp
qed simp

lemma lost_schedule_path: "wk_path lost_schedule"
  by (simp add: lost_schedule_def Let_def wk_init_def wk_step_from)

subsection \<open>The properties\<close>

text \<open>
  C30: a wake-up can be lost.  With two blocks to come there is an interleaving of the two
  threads after which both blocks have arrived, one of them is still queued, the reader sleeps
  and no thread has a step left: the notification for the second block was tested for
  before the reader had set its waiting flag.
\<close>

theorem lost_wakeup_reachable:
  "\<exists>s. wk_reach [1, 2] s \<and> stranded s \<and> fifo s = [2] \<and> waiting s \<and> (\<forall>t. \<not> wk_step s t)"
proof (intro exI conjI)
  let ?s = "last lost_schedule"
  show "wk_reach [1, 2] ?s"
    using wk_path_reach [of "hd lost_schedule" "tl lost_schedule"] lost_schedule_path
    by (simp add: lost_schedule_def Let_def wk_start)
  show "stranded ?s" "fifo ?s = [2]" "waiting ?s"
    by (simp_all add: lost_schedule_def Let_def wk_init_def stranded_def)
  then show "\<forall>t. \<not> wk_step ?s t" by (blast dest: stranded_stuck)
qed

text \<open>
  C21: that window is the only one.  In every schedule in which the writer's test of the flag
  never falls between the reader's look at the empty queue and its store of the flag, no block
  is stranded; the blocks drawn are always a prefix of those sent, in order; and once
  all blocks have arrived and both threads rest, the reader has drawn every one of them.
\<close>

theorem no_stranding_outside_window:
  assumes "wk_safe bs s"
  shows "\<not> stranded s \<and> (\<exists>rest. bs = drawn_blocks s @ rest)
    \<and> (reader s = Asleep \<longrightarrow> writer s = W_idle \<longrightarrow> incoming s = [] \<longrightarrow> drawn_blocks s = bs)"
proof -
  from assms have "wk_reach bs s" by induction (auto intro: wk_start wk_next)
  then have "wk_inv bs s" by (rule wk_reach_inv)
  moreover from assms have "wk_guarded s" by (rule wk_safe_guarded)
  ultimately show ?thesis by (auto simp: wk_inv_def wk_guarded_def stranded_def)
qed

theorem no_stranding_outside_window_witness:
  "\<exists>s. wk_safe [1] s \<and> reader s = Asleep \<and> drawn_blocks s = [1] \<and> \<not> stranded s"
proof -
  let ?s1 = "(wk_init [1])\<lparr>incoming := [], fifo := [1], writer := W_test\<rparr>"
  let ?s2 = "?s1\<lparr>waiting := False, reader := R_get, writer := W_idle\<rparr>"
  let ?s3 = "?s2\<lparr>fifo := [], drawn_blocks := [1]\<rparr>"
  let ?s4 = "?s3\<lparr>reader := R_set\<rparr>"
  let ?s5 = "?s4\<lparr>waiting := True, reader := Asleep\<rparr>"
  note eval = wk_step_from wk_gap_def wk_init_def
  have "wk_safe [1] ?s1" by (rule safe_next [OF safe_start]) (simp_all add: eval)
  then have "wk_safe [1] ?s2" by (rule safe_next) (simp_all add: eval)
  then have "wk_safe [1] ?s3" by (rule safe_next) (simp_all add: eval)
  then have "wk_safe [1] ?s4" by (rule safe_next) (simp_all add: eval)
  then have "wk_safe [1] ?s5" by (rule safe_next) (simp_all add: eval)
  from no_stranding_outside_window [OF this] this show ?thesis
    by (intro exI [of _ ?s5]) (simp add: wk_init_def)
qed

end
