(* ===== verification/Byte_Source.thy ===== *)
theory Byte_Source
  imports Gateway_Prelude
begin

text \<open>
  The contract that the GATT packetizer's fill callbacks rely on: a source of bytes that is
  asked again and again for up to \<open>n\<close> bytes until it announces the last one.  The downlink
  and the server certificate are such sources; each provides the interface by an
  interpretation, and the transfer of everything the source holds is proved here once.
\<close>

text \<open>
  \<open>drain pull n k s\<close> asks at most \<open>k\<close> times for \<open>n\<close> bytes.  \<open>pull\<close> returns the bytes, the
  end mark and the new state, or \<open>None\<close> when the source refuses.
\<close>

primrec drain :: "(nat \<Rightarrow> 's \<Rightarrow> (bytes \<times> bool \<times> 's) option) \<Rightarrow> nat \<Rightarrow> nat \<Rightarrow> 's \<Rightarrow> (bytes \<times> bool \<times> 's) option" where
  "drain pull n 0 s = Some ([], False, s)"
| "drain pull n (Suc k) s = (case pull n s of
     None \<Rightarrow> None
   | Some (bs, lst, s) \<Rightarrow>
       if lst then Some (bs, True, s)
       else map_option (\<lambda>(r, l, s). (bs @ r, l, s)) (drain pull n k s))"

locale byte_source =
  fixes pull :: "nat \<Rightarrow> 's \<Rightarrow> (bytes \<times> bool \<times> 's) option"
    and ready :: "'s \<Rightarrow> bool"
    and left :: "'s \<Rightarrow> bytes"
  assumes pull_ready: "ready s \<Longrightarrow> 0 < n \<Longrightarrow> \<exists>bs lst s'. pull n s = Some (bs, lst, s')
      \<and> bs @ left s' = left s \<and> (if lst then left s' = [] else length bs = n \<and> ready s')"
begin

text \<open>Asking for \<open>n > 0\<close> bytes one time more than there are bytes delivers all of them.\<close>

lemma drain_all:
  "ready s \<Longrightarrow> 0 < n \<Longrightarrow> length (left s) < k \<Longrightarrow> \<exists>s'. drain pull n k s = Some (left s, True, s')"
proof (induction k arbitrary: s)
  case (Suc k)
  from pull_ready [OF Suc.prems(1,2)] obtain bs lst s1 where
    p: "pull n s = Some (bs, lst, s1)" "bs @ left s1 = left s"
      "if lst then left s1 = [] else length bs = n \<and> ready s1" by blast
  show ?case
  proof (cases lst)
    case True
    with p show ?thesis by auto
  next
    case False
    with p(3) have r: "length bs = n" "ready s1" by auto
    with Suc.prems(2,3) arg_cong [OF p(2), of length] have "length (left s1) < k" by simp
    from Suc.IH [OF r(2) Suc.prems(2) this] obtain s2 where "drain pull n k s1 = Some (left s1, True, s2)" by blast
    with p(1,2) False show ?thesis by auto
  qed
qed simp

text \<open>However often the source is asked, what came out is the beginning of what was in.\<close>

lemma drain_prefix:
  "ready s \<Longrightarrow> 0 < n \<Longrightarrow> \<exists>bs lst s'. drain pull n k s = Some (bs, lst, s') \<and> bs @ left s' = left s
     \<and> (lst \<longrightarrow> left s' = [])"
proof (induction k arbitrary: s)
  case (Suc k)
  from pull_ready [OF Suc.prems] obtain bs lst s1 where
    p: "pull n s = Some (bs, lst, s1)" "bs @ left s1 = left s"
      "if lst then left s1 = [] else length bs = n \<and> ready s1" by blast
  show ?case
  proof (cases lst)
    case True
    with p show ?thesis by auto
  next
    case False
    with p(3) Suc.IH [of s1] Suc.prems(2) obtain bs' lst' s2 where
      "drain pull n k s1 = Some (bs', lst', s2)" "bs' @ left s2 = left s1" "lst' \<longrightarrow> left s2 = []" by auto
    with p(1,2) False show ?thesis
      by (intro exI [of _ "bs @ bs'"] exI [of _ lst'] exI [of _ s2]) auto
  qed
qed (auto intro: exI [of _ False])

end

end
