(* ===== verification/Uplink.thy ===== *)
theory Uplink
  imports Downlink_Inv
begin

text \<open>
  \<open>lib/uplink.c\<close>: the stream from a node to the cloud.  Bytes are collected in the write block;
  full blocks are queued and sent one at a time, the block in flight being the read block,
  until the upload callback reports how it went.  A pouch block is owned by exactly one place
  of one uplink (write block, queue or read block), so it is modelled by its contents;
  \<open>pblocks_live\<close> counts the blocks that are allocated.  The upload callback runs in its own
  step, as the cloud client calls it from its own thread.  The callback \<open>end_cb\<close> is the
  argument \<open>ecb\<close> of the operations that may end the uplink.
\<close>

subsection \<open>State\<close>

datatype uplink_result = UPLINK_SUCCESS | UPLINK_ERROR_LOCAL | UPLINK_ERROR_CLOUD

record uplink =
  session :: int \<comment> \<open>what \<open>golioth_gateway_uplink_start\<close> returned; 0 without a cloud\<close>
  block_idx :: "32 word"
  up_closed :: bool \<comment> \<open>\<open>POUCH_UPLINK_CLOSED\<close>\<close>
  up_sending :: bool \<comment> \<open>\<open>POUCH_UPLINK_SENDING\<close>\<close>
  wblock :: "bytes option"
  rblock :: "bytes option"
  up_queue :: "bytes list"
  end_cb_arg :: conn

record uplink_world = downlink_world +
  uplinks :: "addr \<rightharpoonup> uplink"
  pblocks_live :: nat

type_synonym 'a end_cb = "uplink_result \<Rightarrow> conn \<Rightarrow> 'a uplink_world_scheme \<Rightarrow> fault + 'a uplink_world_scheme"

definition put_uplink :: "addr \<Rightarrow> uplink \<Rightarrow> 'a uplink_world_scheme \<Rightarrow> 'a uplink_world_scheme" where
  "put_uplink a u w = w\<lparr>uplinks := (uplinks w)(a \<mapsto> u)\<rparr>"

text \<open>The blocks an uplink owns.\<close>

definition own_blocks :: "uplink \<Rightarrow> nat" where
  "own_blocks u = length (up_queue u) + (if wblock u = None then 0 else 1) + (if rblock u = None then 0 else 1)"

subsection \<open>Sending\<close>

definition cleanup_uplink ::
  "'e env_scheme \<Rightarrow> ptr \<Rightarrow> 'a uplink_world_scheme \<Rightarrow> fault + 'a uplink_world_scheme" where
  "cleanup_uplink E p w = bnd (deref (uplinks w) p) (\<lambda>(a, u).
     let w = (if cloud E then snd (ext_call E (Uplink_finish (session u)) w) else w) in
     Inr (w\<lparr>uplinks := (uplinks w)(a := None), pblocks_live := pblocks_live w - own_blocks u\<rparr>))"

definition process_uplink ::
  "'e env_scheme \<Rightarrow> 'a end_cb \<Rightarrow> ptr \<Rightarrow> 'a uplink_world_scheme \<Rightarrow> fault + 'a uplink_world_scheme" where
  "process_uplink E ecb p w = bnd (deref (uplinks w) p) (\<lambda>(a, u).
     if up_sending u then Inr w
     else let u = u\<lparr>up_sending := True\<rparr>; is_closed = up_closed u in
       (case fifo_get (up_queue u) of
         (None, _) \<Rightarrow>
           if is_closed then
             bnd (ecb UPLINK_SUCCESS (end_cb_arg u) (put_uplink a u w)) (cleanup_uplink E (Some a))
           else Inr (put_uplink a (u\<lparr>up_sending := False\<rparr>) w)
       | (Some b, queue) \<Rightarrow>
           let u = u\<lparr>up_queue := queue, rblock := Some b\<rparr> in
           if \<not> cloud E then Inr (put_uplink a u w)
           else if b = [] then
             Inr ((put_uplink a (u\<lparr>rblock := None, up_sending := False\<rparr>) w)
               \<lparr>pblocks_live := pblocks_live w - 1\<rparr>)
           else
             let (status, w) = ext_call E
                   (Uplink_block (session u) (block_idx u) b (queue = [] \<and> is_closed)) w;
                 w = put_uplink a (u\<lparr>block_idx := block_idx u + 1\<rparr>) w in
             if status \<noteq> 0 then
               bnd (ecb UPLINK_ERROR_LOCAL (end_cb_arg u) w) (cleanup_uplink E (Some a))
             else Inr w))"

definition block_upload_callback :: "'e env_scheme \<Rightarrow> 'a end_cb \<Rightarrow> golioth_status \<Rightarrow> ptr
    \<Rightarrow> 'a uplink_world_scheme \<Rightarrow> fault + 'a uplink_world_scheme" where
  "block_upload_callback E ecb status p w = bnd (deref (uplinks w) p) (\<lambda>(a, u).
     if \<not> up_sending u then Inr w
     else let w = (put_uplink a (u\<lparr>up_sending := False, rblock := None\<rparr>) w)
                    \<lparr>pblocks_live := pblocks_live w - (if rblock u = None then 0 else 1)\<rparr> in
       if status \<noteq> GOLIOTH_OK then
         bnd (ecb UPLINK_ERROR_CLOUD (end_cb_arg u) w) (cleanup_uplink E (Some a))
       else process_uplink E ecb (Some a) w)"

subsection \<open>Collecting\<close>

definition pouch_block_alloc ::
  "'e env_scheme \<Rightarrow> 'a uplink_world_scheme \<Rightarrow> bytes option \<times> 'a uplink_world_scheme" where
  "pouch_block_alloc E w = (case malloc E w of
     (None, w) \<Rightarrow> (None, w)
   | (Some _, w) \<Rightarrow> (Some [], w\<lparr>pblocks_live := Suc (pblocks_live w)\<rparr>))"

definition submit_block :: "ptr \<Rightarrow> 'a uplink_world_scheme \<Rightarrow> fault + 'a uplink_world_scheme" where
  "submit_block p w = bnd (deref (uplinks w) p) (\<lambda>(a, u). case wblock u of
       None \<Rightarrow> Inl Null_deref
     | Some b \<Rightarrow> Inr (put_uplink a (u\<lparr>up_queue := up_queue u @ [b], wblock := None\<rparr>) w))"

text \<open>
  The copy loop of \<open>pouch_gateway_uplink_write\<close>; the boolean tells whether it ran to its end
  or gave up because no block could be allocated.  Room in the write block is a \<open>size_t\<close>
  difference, so a block filled beyond its size would be overrun.  A round that copies nothing
  (possible for an empty block size only) is \<open>No_progress\<close>.
\<close>

function write_loop :: "'e env_scheme \<Rightarrow> ptr \<Rightarrow> bytes \<Rightarrow> 'a uplink_world_scheme
    \<Rightarrow> fault + (bool \<times> 'a uplink_world_scheme)" where
  "write_loop E p payload w =
     (if payload = [] then Inr (True, w)
      else bnd (deref (uplinks w) p) (\<lambda>(_, u).
        bnd (case wblock u of
               None \<Rightarrow> Inr w
             | Some b \<Rightarrow> if length b = max_block_size E then submit_block p w else Inr w) (\<lambda>w.
        bnd (deref (uplinks w) p) (\<lambda>(a, u).
          case (case wblock u of None \<Rightarrow> pouch_block_alloc E w | Some b \<Rightarrow> (Some b, w)) of
            (None, w) \<Rightarrow> Inr (False, w)
          | (Some b, w) \<Rightarrow>
              if max_block_size E < length b then Inl Buffer_overflow
              else let n = min (length payload) (max_block_size E - length b) in
                if n = 0 then Inl No_progress
                else write_loop E p (drop n payload)
                  (put_uplink a (u\<lparr>wblock := Some (b @ take n payload)\<rparr>) w)))))"
  by pat_completeness auto
termination
  by (relation "measure (\<lambda>(E, p, payload, w). length payload)") auto

declare write_loop.simps [simp del]

definition uplink_close ::
  "'e env_scheme \<Rightarrow> 'a end_cb \<Rightarrow> ptr \<Rightarrow> 'a uplink_world_scheme \<Rightarrow> fault + 'a uplink_world_scheme" where
  "uplink_close E ecb p w = bnd (deref (uplinks w) p) (\<lambda>(a, u).
     let was_closed = up_closed u; w = put_uplink a (u\<lparr>up_closed := True\<rparr>) w in
     bnd (if \<not> was_closed \<and> wblock u \<noteq> None then submit_block p w else Inr w)
       (process_uplink E ecb p))"

definition uplink_write :: "'e env_scheme \<Rightarrow> 'a end_cb \<Rightarrow> ptr \<Rightarrow> bytes \<Rightarrow> bool
    \<Rightarrow> 'a uplink_world_scheme \<Rightarrow> fault + (int \<times> 'a uplink_world_scheme)" where
  "uplink_write E ecb p payload lst w = bnd (write_loop E p payload w) (\<lambda>(ok, w).
     if \<not> ok then Inr (- ENOMEM, w)
     else bnd (if lst then uplink_close E ecb p w else process_uplink E ecb p w) (\<lambda>w. Inr (0, w)))"

subsection \<open>Opening\<close>

text \<open>
  On a failure the objects allocated so far are freed again.  Before the struct is filled in,
  nothing else can reach it, so it enters the heap with its initial fields.
\<close>

definition new_uplink :: "int \<Rightarrow> conn \<Rightarrow> uplink" where
  "new_uplink s arg = \<lparr>session = s, block_idx = 0, up_closed = False, up_sending = False,
     wblock = Some [], rblock = None, up_queue = [], end_cb_arg = arg\<rparr>"

definition uplink_open ::
  "'e env_scheme \<Rightarrow> ptr \<Rightarrow> conn \<Rightarrow> 'a uplink_world_scheme \<Rightarrow> ptr \<times> 'a uplink_world_scheme" where
  "uplink_open E downlink arg w = (case malloc E w of
     (None, w) \<Rightarrow> (NULL, w)
   | (Some a, w) \<Rightarrow> (case pouch_block_alloc E w of
       (None, w) \<Rightarrow> (NULL, w)
     | (Some _, w) \<Rightarrow>
         let (s, w) = (if cloud E then ext_call E (Uplink_start downlink) w else (0, w)) in
         if cloud E \<and> s = 0 then (NULL, w\<lparr>pblocks_live := pblocks_live w - 1\<rparr>)
         else (Some a, put_uplink a (new_uplink s arg) w)))"

end
