(* ===== verification/Cert.thy ===== *)
theory Cert
  imports Byte_Source Uplink
begin

text \<open>
  \<open>lib/cert.c\<close>: the certificates.  A device certificate is collected chunk by chunk in a context
  and handed to the cloud; the server certificate is kept in one static buffer, together with
  its length, its serial number and a version number, and is read out chunk by chunk by any
  number of contexts.  What the cloud client stores, what mbedTLS finds in a certificate and the
  built-in certificate are fields of the environment.
\<close>

subsection \<open>State\<close>

abbreviation CERT_SERIAL_MAXLEN :: nat where "CERT_SERIAL_MAXLEN \<equiv> 20"

record device_cert_ctx =
  dc_len :: nat
  dc_buf :: bytes

record server_cert_ctx =
  sc_id :: "32 word"
  sc_offset :: nat

record cert_world = uplink_world +
  server_crt_buf :: bytes
  server_crt_len :: nat
  server_crt_serial :: bytes
  server_crt_serial_len :: nat
  server_crt_id :: "32 word"
  device_ctxs :: "addr \<rightharpoonup> device_cert_ctx"
  server_ctxs :: "addr \<rightharpoonup> server_cert_ctx"

subsection \<open>Device certificates\<close>

text \<open>The result of \<open>malloc\<close> is used without a test.\<close>

definition device_cert_start ::
  "'e env_scheme \<Rightarrow> 'a cert_world_scheme \<Rightarrow> fault + (ptr \<times> 'a cert_world_scheme)" where
  "device_cert_start E w = (case malloc E w of
     (None, _) \<Rightarrow> Inl Null_deref
   | (Some a, w) \<Rightarrow> Inr (Some a, w\<lparr>device_ctxs := (device_ctxs w)(a \<mapsto>
       \<lparr>dc_len = 0, dc_buf = map (garbage E a) [0..<device_cert_max E]\<rparr>)\<rparr>))"

definition device_cert_push :: "'e env_scheme \<Rightarrow> ptr \<Rightarrow> bytes \<Rightarrow> 'a cert_world_scheme
    \<Rightarrow> fault + (int \<times> 'a cert_world_scheme)" where
  "device_cert_push E p src w = bnd (deref (device_ctxs w) p) (\<lambda>(a, c).
     if size_add (dc_len c) (length src) > device_cert_max E then Inr (- ENOSPC, w)
     else bnd (poke (dc_buf c) (dc_len c) src) (\<lambda>d.
       Inr (0, w\<lparr>device_ctxs := (device_ctxs w)(a \<mapsto> \<lparr>dc_len = dc_len c + length src, dc_buf = d\<rparr>)\<rparr>)))"

text \<open>\<open>free(NULL)\<close> does nothing, freeing a freed context is a fault.\<close>

definition device_cert_abort :: "ptr \<Rightarrow> 'a cert_world_scheme \<Rightarrow> fault + 'a cert_world_scheme" where
  "device_cert_abort p w = (if p = NULL then Inr w
     else bnd (deref (device_ctxs w) p) (\<lambda>(a, _). Inr (w\<lparr>device_ctxs := (device_ctxs w)(a := None)\<rparr>)))"

definition device_cert_finish :: "'e env_scheme \<Rightarrow> ptr \<Rightarrow> 'a cert_world_scheme
    \<Rightarrow> fault + (int \<times> 'a cert_world_scheme)" where
  "device_cert_finish E p w =
     (if cloud E then
        bnd (deref (device_ctxs w) p) (\<lambda>(_, c).
        bnd (peek (dc_buf c) 0 (dc_len c)) (\<lambda>crt.
        let (status, w) = ext_call E (Device_cert_set crt) w in
        if status \<noteq> 0 then Inr (- EIO, w)
        else bnd (device_cert_abort p w) (\<lambda>w. Inr (0, w))))
      else bnd (device_cert_abort p w) (\<lambda>w. Inr (0, w)))"

subsection \<open>The server certificate\<close>

definition server_cert_start ::
  "'e env_scheme \<Rightarrow> 'a cert_world_scheme \<Rightarrow> fault + (ptr \<times> 'a cert_world_scheme)" where
  "server_cert_start E w = (case malloc E w of
     (None, _) \<Rightarrow> Inl Null_deref
   | (Some a, w) \<Rightarrow> Inr (Some a, w\<lparr>server_ctxs := (server_ctxs w)(a \<mapsto>
       \<lparr>sc_id = server_crt_id w, sc_offset = 0\<rparr>)\<rparr>))"

definition server_cert_is_newest :: "ptr \<Rightarrow> 'a cert_world_scheme \<Rightarrow> fault + bool" where
  "server_cert_is_newest p w = bnd (deref (server_ctxs w) p) (\<lambda>(_, c). Inr (sc_id c = server_crt_id w))"

text \<open>
  The serial number is copied without a test of its length.  (The parsed chain is never freed
  by the code; mbedTLS' own memory is not modelled.)
\<close>

definition server_crt_update :: "'e env_scheme \<Rightarrow> nat \<Rightarrow> 'a cert_world_scheme
    \<Rightarrow> fault + (int \<times> 'a cert_world_scheme)" where
  "server_crt_update E n w = bnd (peek (server_crt_buf w) 0 n) (\<lambda>crt.
     let (r, w) = ext_call E (X509_parse crt) w in
     if r < 0 then Inr (- EIO, w)
     else bnd (poke (server_crt_serial w) 0 (serial_of E crt)) (\<lambda>s.
       Inr (0, w\<lparr>server_crt_serial := s, server_crt_serial_len := length (serial_of E crt),
                 server_crt_len := n, server_crt_id := server_crt_id w + 1\<rparr>)))"

definition server_cert_is_complete :: "ptr \<Rightarrow> 'a cert_world_scheme \<Rightarrow> fault + bool" where
  "server_cert_is_complete p w = bnd (deref (server_ctxs w) p) (\<lambda>(_, c). Inr (sc_offset c \<ge> server_crt_len w))"

text \<open>\<open>n\<close> is \<open>*dst_len\<close> on entry; the result holds the code, the buffer, \<open>*dst_len\<close> and \<open>*is_last\<close>.\<close>

definition server_cert_get_data :: "ptr \<Rightarrow> bytes \<Rightarrow> nat \<Rightarrow> 'a cert_world_scheme
    \<Rightarrow> fault + (int \<times> bytes \<times> nat \<times> bool \<times> 'a cert_world_scheme)" where
  "server_cert_get_data p dst n w = bnd (deref (server_ctxs w) p) (\<lambda>(a, c).
     let total_len = server_crt_len w in
     if sc_offset c \<ge> total_len then Inr (- ENODATA, dst, n, False, w)
     else let n = (if n > total_len - sc_offset c then total_len - sc_offset c else n) in
       bnd (peek (server_crt_buf w) (sc_offset c) n) (\<lambda>bs.
       bnd (poke dst 0 bs) (\<lambda>dst.
         Inr (0, dst, n, sc_offset c + n \<ge> total_len,
              w\<lparr>server_ctxs := (server_ctxs w)(a \<mapsto> c\<lparr>sc_offset := sc_offset c + n\<rparr>)\<rparr>))))"

definition server_cert_get_serial :: "bytes \<Rightarrow> nat \<Rightarrow> 'a cert_world_scheme \<Rightarrow> fault + (bytes \<times> nat)" where
  "server_cert_get_serial dst n w =
     (let n = (if n > server_crt_serial_len w then server_crt_serial_len w else n) in
      bnd (peek (server_crt_serial w) 0 n) (\<lambda>bs. bnd (poke dst 0 bs) (\<lambda>dst. Inr (dst, n))))"

definition server_cert_abort :: "ptr \<Rightarrow> 'a cert_world_scheme \<Rightarrow> fault + 'a cert_world_scheme" where
  "server_cert_abort p w = (if p = NULL then Inr w
     else bnd (deref (server_ctxs w) p) (\<lambda>(a, _). Inr (w\<lparr>server_ctxs := (server_ctxs w)(a := None)\<rparr>)))"

text \<open>
  The download goes straight into the buffer in use; the client stores at most as many bytes
  as it was given room for, and whatever it stored before an error stays there.
\<close>

definition cert_module_on_connected ::
  "'e env_scheme \<Rightarrow> 'a cert_world_scheme \<Rightarrow> fault + 'a cert_world_scheme" where
  "cert_module_on_connected E w =
     (if cloud E then
        let crt = take (server_cert_max E) (downloaded E (trace w));
            (status, w) = ext_call E Server_cert_get w in
        bnd (poke (server_crt_buf w) 0 crt) (\<lambda>buf.
          let w = w\<lparr>server_crt_buf := buf\<rparr> in
          if status \<noteq> 0 then Inr w
          else bnd (server_crt_update E (length crt) w) (\<lambda>(_, w). Inr w))
      else (case builtin_cert E of
          None \<Rightarrow> Inr w
        | Some crt \<Rightarrow> bnd (poke (server_crt_buf w) 0 crt) (\<lambda>buf.
            bnd (server_crt_update E (length crt) (w\<lparr>server_crt_buf := buf\<rparr>)) (\<lambda>(_, w). Inr w))))"

end
