(* ===== verification/Cert_Props.thy ===== *)
theory Cert_Props
  imports Cert
begin

text \<open>
  The properties of the certificate module: a device certificate reaches the cloud as the
  concatenation of its chunks, a server certificate leaves through a context completely
  and in order, and what a refresh of the server certificate does to transfers under way.
\<close>

subsection \<open>The server certificate is a byte source\<close>

definition crt :: "'a cert_world_scheme \<Rightarrow> bytes" where
  "crt w = take (server_crt_len w) (server_crt_buf w)"

definition cert_pull :: "addr \<Rightarrow> nat \<Rightarrow> 'a cert_world_scheme \<Rightarrow> (bytes \<times> bool \<times> 'a cert_world_scheme) option" where
  "cert_pull a n w = (case server_cert_get_data (Some a) (replicate n 0) n w of
     Inl _ \<Rightarrow> None
   | Inr (rc, dst, n', lst, w') \<Rightarrow> if rc = 0 then Some (take n' dst, lst, w') else None)"

definition cert_ready :: "addr \<Rightarrow> 'a cert_world_scheme \<Rightarrow> bool" where
  "cert_ready a w \<longleftrightarrow> server_crt_len w \<le> length (server_crt_buf w)
     \<and> (case server_ctxs w a of None \<Rightarrow> False | Some c \<Rightarrow> sc_offset c < server_crt_len w)"

definition cert_left :: "addr \<Rightarrow> 'a cert_world_scheme \<Rightarrow> bytes" where
  "cert_left a w = (case server_ctxs w a of None \<Rightarrow> [] | Some c \<Rightarrow> drop (sc_offset c) (crt w))"

text \<open>One read of the certificate.\<close>

lemma get_data_run:
  assumes c: "server_ctxs w a = Some c" and "server_crt_len w \<le> length (server_crt_buf w)"
    and "sc_offset c < server_crt_len w" and "n \<le> length dst"
  defines "k \<equiv> min n (server_crt_len w - sc_offset c)"
  defines "w1 \<equiv> w\<lparr>server_ctxs := (server_ctxs w)(a \<mapsto> c\<lparr>sc_offset := sc_offset c + k\<rparr>)\<rparr>"
  shows "server_cert_get_data (Some a) dst n w = Inr (0, take k (drop (sc_offset c) (crt w)) @ drop k dst, k,
      sc_offset c + k = server_crt_len w, w1)"
proof -
  have part: "take k (drop (sc_offset c) (server_crt_buf w)) = take k (drop (sc_offset c) (crt w))"
    by (simp add: crt_def drop_take k_def)
  have k: "(if n > server_crt_len w - sc_offset c then server_crt_len w - sc_offset c else n) = k"
    "sc_offset c + k \<le> length (server_crt_buf w)" "k \<le> length dst" "sc_offset c + k \<le> server_crt_len w"
    using assms by (auto simp: k_def)
  have l: "length (take k (drop (sc_offset c) (crt w))) = k"
    using assms(2-4) by (simp add: crt_def k_def)
  have e: "(sc_offset c + k \<ge> server_crt_len w) = (sc_offset c + k = server_crt_len w)" using k(4) by auto
  show ?thesis using assms(1-3) k(2,3)
    by (simp add: server_cert_get_data_def Let_def peek_def poke_def k(1) part w1_def l e del: length_take)
qed

interpretation cert_src: byte_source "cert_pull a" "cert_ready a" "cert_left a" for a
proof (unfold_locales, goal_cases)
  case (1 w n)
  then obtain c where c: "server_ctxs w a = Some c" "server_crt_len w \<le> length (server_crt_buf w)"
    "sc_offset c < server_crt_len w" by (auto simp: cert_ready_def split: option.splits)
  define k where "k = min n (server_crt_len w - sc_offset c)"
  define w1 where "w1 = w\<lparr>server_ctxs := (server_ctxs w)(a \<mapsto> c\<lparr>sc_offset := sc_offset c + k\<rparr>)\<rparr>"
  have len: "length (crt w) = server_crt_len w" using c(2) by (simp add: crt_def)
  from get_data_run [OF c, of n "replicate n 0"]
  have "cert_pull a n w = Some (take k (drop (sc_offset c) (crt w)), sc_offset c + k = server_crt_len w, w1)"
    using len by (simp add: cert_pull_def k_def w1_def)
  moreover have "cert_left a w1 = drop k (drop (sc_offset c) (crt w))"
    by (simp add: cert_left_def w1_def crt_def add.commute)
  then have "take k (drop (sc_offset c) (crt w)) @ cert_left a w1 = cert_left a w"
    using append_take_drop_id [of k "drop (sc_offset c) (crt w)"] c(1)
    by (simp only: cert_left_def option.case)
  moreover have "cert_left a w1 = []" if "sc_offset c + k = server_crt_len w"
    using that len by (simp add: cert_left_def w1_def crt_def)
  moreover have "length (take k (drop (sc_offset c) (crt w))) = n" "cert_ready a w1"
    if "sc_offset c + k \<noteq> server_crt_len w"
    using that c len by (auto simp: k_def min_def w1_def cert_ready_def split: if_splits)
  ultimately show ?case by (cases "sc_offset c + k = server_crt_len w") auto
qed

subsection \<open>Contexts and updates\<close>

lemma server_start_run:
  assumes "server_cert_start E w = Inr (p, w')"
  shows "\<exists>a. p = Some a \<and> server_ctxs w' = (server_ctxs w)(a \<mapsto> \<lparr>sc_id = server_crt_id w, sc_offset = 0\<rparr>)"
    and "crt w' = crt w" and "server_crt_len w' = server_crt_len w" and "server_crt_id w' = server_crt_id w"
    and "server_crt_buf w' = server_crt_buf w"
  using assms by (cases E w rule: malloc_cases; force simp: server_cert_start_def crt_def)+

subsection \<open>Collecting a device certificate\<close>

primrec push_all :: "'e env_scheme \<Rightarrow> ptr \<Rightarrow> bytes list \<Rightarrow> 'a cert_world_scheme \<Rightarrow> fault + 'a cert_world_scheme" where
  "push_all E p [] w = Inr w"
| "push_all E p (x # xs) w = bnd (device_cert_push E p x w) (\<lambda>(rc, w).
     if rc = 0 then push_all E p xs w else Inl No_progress)"

definition collected :: "'e env_scheme \<Rightarrow> addr \<Rightarrow> bytes \<Rightarrow> 'a cert_world_scheme \<Rightarrow> bool" where
  "collected E a bs w \<longleftrightarrow> (\<exists>c. device_ctxs w a = Some c \<and> length (dc_buf c) = device_cert_max E
     \<and> dc_len c = length bs \<and> take (dc_len c) (dc_buf c) = bs)"

lemma push_run:
  assumes "collected E a bs w" and "length bs + length x < 2 ^ 32"
  shows "if length bs + length x \<le> device_cert_max E
    then \<exists>w'. device_cert_push E (Some a) x w = Inr (0, w') \<and> collected E a (bs @ x) w' \<and> trace w' = trace w
    else device_cert_push E (Some a) x w = Inr (- ENOSPC, w)"
proof -
  from assms(1) obtain c where c: "device_ctxs w a = Some c" "length (dc_buf c) = device_cert_max E"
    "dc_len c = length bs" "take (dc_len c) (dc_buf c) = bs" by (auto simp: collected_def)
  with assms(2) show ?thesis by (auto simp: device_cert_push_def poke_def collected_def)
qed

lemma push_all_run:
  "collected E a bs w \<Longrightarrow> length bs + length (concat xs) \<le> device_cert_max E \<Longrightarrow> device_cert_max E < 2 ^ 32 \<Longrightarrow>
     \<exists>w'. push_all E (Some a) xs w = Inr w' \<and> collected E a (bs @ concat xs) w' \<and> trace w' = trace w"
proof (induction xs arbitrary: bs w)
  case (Cons x xs)
  from push_run [OF Cons.prems(1), of x] Cons.prems(2,3) obtain w1 where
    w1: "device_cert_push E (Some a) x w = Inr (0, w1)" "collected E a (bs @ x) w1" "trace w1 = trace w" by auto
  from Cons.IH [OF w1(2)] Cons.prems(2,3) w1 show ?case by auto
qed auto

subsection \<open>A small certificate store\<close>

definition cert_boot :: cert_world where
  "cert_boot = \<lparr>trace = [], next_addr = 0, slab = Map.empty, slab_used = 0, downlinks = Map.empty,
     uplinks = Map.empty, pblocks_live = 0, server_crt_buf = replicate 8 0, server_crt_len = 0,
     server_crt_serial = replicate 20 0, server_crt_serial_len = 0, server_crt_id = 0,
     device_ctxs = Map.empty, server_ctxs = Map.empty\<rparr>"

definition cert_loaded :: cert_world where
  "cert_loaded = cert_boot\<lparr>trace := [Server_cert_get, X509_parse [1, 2, 3, 4, 5]],
     server_crt_buf := [1, 2, 3, 4, 5, 0, 0, 0], server_crt_len := 5,
     server_crt_serial := [1, 2] @ replicate 18 0, server_crt_serial_len := 2, server_crt_id := 1\<rparr>"

lemma cert_loaded_run: "cert_module_on_connected small_env cert_boot = Inr cert_loaded"
  by (simp add: cert_module_on_connected_def server_crt_update_def ext_call_def peek_def poke_def
      Let_def cert_boot_def cert_loaded_def numeral_eq_Suc)

definition cert_started :: cert_world where
  "cert_started = cert_loaded\<lparr>trace := trace cert_loaded @ [Malloc], next_addr := 1,
     server_ctxs := [0 \<mapsto> \<lparr>sc_id = 1, sc_offset = 0\<rparr>]\<rparr>"

lemma cert_started_run: "server_cert_start small_env cert_loaded = Inr (Some 0, cert_started)"
  by (simp add: server_cert_start_def malloc_def ext_call_def cert_started_def cert_loaded_def cert_boot_def)

definition device_started :: cert_world where
  "device_started = cert_boot\<lparr>trace := [Malloc], next_addr := 1,
     device_ctxs := [0 \<mapsto> \<lparr>dc_len = 0, dc_buf = replicate 8 0\<rparr>]\<rparr>"

lemma device_started_run: "device_cert_start small_env cert_boot = Inr (Some 0, device_started)"
  by (simp add: device_cert_start_def malloc_def ext_call_def device_started_def cert_boot_def
      map_replicate_const small_env_def)

subsection \<open>The properties\<close>

text \<open>
  C23: a device certificate arrives whole.  Chunks pushed into a fresh context one after the
  other are stored in order; finishing the context hands exactly their concatenation to
  the cloud and, if the cloud takes it, releases the context.
\<close>

theorem device_cert_roundtrip:
  assumes "device_cert_start E w = Inr (Some a, w0)" and "cloud E"
    and "length (concat xs) \<le> device_cert_max E" and "device_cert_max E < 2 ^ 32"
  shows "\<exists>w1 w2 rc. push_all E (Some a) xs w0 = Inr w1
    \<and> device_cert_finish E (Some a) w1 = Inr (rc, w2)
    \<and> trace w2 = trace w0 @ [Device_cert_set (concat xs)]
    \<and> rc = (if ret E (trace w0) (Device_cert_set (concat xs)) = 0 then 0 else - EIO)
    \<and> (device_ctxs w2 a = None \<longleftrightarrow> rc = 0)"
proof -
  from assms(1) have "collected E a [] w0"
    by (cases E w rule: malloc_cases) (auto simp: device_cert_start_def collected_def)
  from push_all_run [OF this, of xs] assms(3,4) obtain w1 where
    w1: "push_all E (Some a) xs w0 = Inr w1" "collected E a (concat xs) w1" "trace w1 = trace w0" by auto
  then obtain c where c: "device_ctxs w1 a = Some c" "peek (dc_buf c) 0 (dc_len c) = Inr (concat xs)"
    using assms(3) by (auto simp: collected_def peek_def)
  with w1(1,3) assms(2) show ?thesis
    by (auto simp: device_cert_finish_def device_cert_abort_def ext_call_def Let_def)
qed

theorem device_cert_roundtrip_witness:
  "\<exists>w1 w2. push_all small_env (Some 0) [[1, 2], [3]] device_started = Inr w1
     \<and> device_cert_finish small_env (Some 0) w1 = Inr (0, w2)
     \<and> trace w2 = [Malloc, Device_cert_set [1, 2, 3]]"
  using device_cert_roundtrip [OF device_started_run, of "[[1, 2], [3]]"]
  by (auto simp: device_started_def)

text \<open>
  A push never leaves the buffer.  It is refused with -ENOSPC, nothing changed, exactly
  when the chunk does not fit behind what is there, and otherwise appends the chunk.
\<close>

theorem device_cert_push_bounds:
  assumes "collected E a bs w" and "length bs + length x < 2 ^ 32"
  shows "if length bs + length x \<le> device_cert_max E
    then \<exists>w'. device_cert_push E (Some a) x w = Inr (0, w') \<and> collected E a (bs @ x) w' \<and> trace w' = trace w
    else device_cert_push E (Some a) x w = Inr (- ENOSPC, w)"
  by (rule push_run [OF assms])

theorem device_cert_push_bounds_witness:
  "device_cert_push small_env (Some 0) (replicate 9 1) device_started = Inr (- ENOSPC, device_started)"
proof -
  have "collected small_env 0 [] device_started" by (simp add: collected_def device_started_def)
  from device_cert_push_bounds [OF this, of "replicate 9 1"] show ?thesis by simp
qed

text \<open>
  A server certificate leaves whole.  A context started on a non-empty certificate and
  asked again and again for \<open>n > 0\<close> bytes delivers the certificate in order, announces the end
  with the last byte and no earlier, and needs at most one request per byte and one more.
\<close>

theorem server_cert_transfer:
  assumes "server_cert_start E w = Inr (Some a, w0)" and "server_crt_len w \<le> length (server_crt_buf w)"
    and "0 < server_crt_len w" and "0 < n" and "server_crt_len w < k"
  shows "\<exists>w'. drain (cert_pull a) n k w0 = Some (crt w, True, w')"
proof -
  from server_start_run [OF assms(1)] have "server_ctxs w0 a = Some \<lparr>sc_id = server_crt_id w, sc_offset = 0\<rparr>"
    "crt w0 = crt w" "server_crt_len w0 = server_crt_len w" "server_crt_buf w0 = server_crt_buf w" by auto
  then have "cert_ready a w0" "cert_left a w0 = crt w" "length (crt w) = server_crt_len w"
    using assms(2,3) by (simp_all add: cert_ready_def cert_left_def crt_def)
  with cert_src.drain_all [OF _ assms(4), of a w0 k] assms(5) show ?thesis by simp
qed

theorem server_cert_transfer_witness:
  "\<exists>w'. drain (cert_pull 0) 3 6 cert_started = Some ([1, 2, 3, 4, 5], True, w')"
  using server_cert_transfer [OF cert_started_run, of 3 6] by (simp add: cert_loaded_def cert_boot_def crt_def)

text \<open>
  A refresh during a transfer is noticed.  After a successful update, every context that
  was up to date before no longer is, so that the transfer is repeated; a context started
  afterwards is up to date.
\<close>

theorem update_outdates_contexts:
  assumes "server_crt_update E n w = Inr (0, w')" and "server_ctxs w a = Some c"
    and "server_cert_is_newest (Some a) w = Inr True"
  shows "server_cert_is_newest (Some a) w' = Inr False \<and> crt w' = take n (server_crt_buf w)
    \<and> (\<forall>p w2. server_cert_start E w' = Inr (p, w2) \<longrightarrow> server_cert_is_newest p w2 = Inr True)"
proof -
  have w': "server_ctxs w' = server_ctxs w \<and> server_crt_id w' = server_crt_id w + 1 \<and> server_crt_len w' = n
      \<and> server_crt_buf w' = server_crt_buf w"
    using assms(1) by (auto simp: server_crt_update_def ext_call_def bnd_simps Let_def split: if_splits)
  have "server_cert_is_newest p w2 = Inr True" if "server_cert_start E w' = Inr (p, w2)" for p w2
    using server_start_run [OF that] by (auto simp: server_cert_is_newest_def)
  with w' assms(2,3) show ?thesis by (simp add: server_cert_is_newest_def crt_def)
qed

theorem update_outdates_contexts_witness:
  "\<exists>w'. server_crt_update small_env 5 cert_started = Inr (0, w') \<and> server_cert_is_newest (Some 0) w' = Inr False"
proof -
  obtain w' where run: "server_crt_update small_env 5 cert_started = Inr (0, w')"
    by (simp add: server_crt_update_def ext_call_def peek_def poke_def Let_def cert_started_def cert_loaded_def
        cert_boot_def)
  from update_outdates_contexts [OF run, of 0 "\<lparr>sc_id = 1, sc_offset = 0\<rparr>"] run show ?thesis
    by (simp add: cert_started_def cert_loaded_def cert_boot_def server_cert_is_newest_def)
qed

text \<open>
  C35: a failed refresh is not noticed.  When the new certificate arrives but does not parse,
  the buffer already begins with it, while the length, the serial number and the version stay: a
  context in the middle of a transfer keeps counting as up to date, and what its reads deliver from
  then on are the bytes of the rejected certificate, cut to the old length or, if it is shorter,
  followed by what the buffer held before.
\<close>

theorem failed_refresh_goes_unnoticed:
  assumes "cloud E" and "ret E (trace w) Server_cert_get = 0"
    and "ret E (trace w @ [Server_cert_get]) (X509_parse new) < 0"
    and "downloaded E (trace w) = new" and "length new \<le> server_cert_max E"
    and "length (server_crt_buf w) = server_cert_max E"
    and "server_ctxs w a = Some c" and "sc_offset c < server_crt_len w" and "server_crt_len w \<le> server_cert_max E"
    and "n \<le> length dst"
  defines "mixed \<equiv> take (server_crt_len w) (new @ drop (length new) (server_crt_buf w))"
    and "k \<equiv> min n (server_crt_len w - sc_offset c)"
  shows "\<exists>w' w''. cert_module_on_connected E w = Inr w'
    \<and> server_cert_is_newest (Some a) w' = server_cert_is_newest (Some a) w
    \<and> server_crt_serial w' = server_crt_serial w \<and> cert_left a w' = drop (sc_offset c) mixed
    \<and> server_cert_get_data (Some a) dst n w' = Inr (0, take k (drop (sc_offset c) mixed) @ drop k dst, k,
        sc_offset c + k = server_crt_len w, w'') \<and> cert_left a w'' = drop (sc_offset c + k) mixed"
proof -
  define w' where "w' = w\<lparr>trace := trace w @ [Server_cert_get, X509_parse new],
    server_crt_buf := new @ drop (length new) (server_crt_buf w)\<rparr>"
  have run: "cert_module_on_connected E w = Inr w'"
    using assms(1-6) by (simp add: cert_module_on_connected_def server_crt_update_def ext_call_def peek_def poke_def Let_def w'_def)
  have same: "server_crt_len w' = server_crt_len w" "server_ctxs w' a = Some c" "crt w' = mixed"
    "server_crt_len w' \<le> length (server_crt_buf w')"
    using assms(5-9) by (simp_all add: w'_def crt_def mixed_def)
  define w'' where "w'' = w'\<lparr>server_ctxs := (server_ctxs w')(a \<mapsto> c\<lparr>sc_offset := sc_offset c + k\<rparr>)\<rparr>"
  from get_data_run [OF same(2,4) _ assms(10)] assms(8) have read: "server_cert_get_data (Some a) dst n w'
      = Inr (0, take k (drop (sc_offset c) mixed) @ drop k dst, k, sc_offset c + k = server_crt_len w, w'')"
    unfolding w''_def k_def same(1,3) by blast
  have "crt w'' = mixed" using same(3) by (simp add: w''_def crt_def)
  then have left: "cert_left a w' = drop (sc_offset c) mixed" "cert_left a w'' = drop (sc_offset c + k) mixed"
    using same(2,3) by (simp_all add: cert_left_def w''_def)
  have "server_cert_is_newest (Some a) w' = server_cert_is_newest (Some a) w" "server_crt_serial w' = server_crt_serial w"
    using assms(7) by (simp_all add: server_cert_is_newest_def w'_def)
  with run read left show ?thesis by blast
qed

text \<open>The second download brings three bytes that do not parse; two bytes of the old certificate follow.\<close>

definition bad_refresh_env :: env where
  "bad_refresh_env = small_env\<lparr>downloaded := (\<lambda>_. [9, 9, 9]),
     ret := (\<lambda>_ c. case c of X509_parse _ \<Rightarrow> -1 | _ \<Rightarrow> 0)\<rparr>"

theorem failed_refresh_goes_unnoticed_witness:
  "\<exists>w' w''. cert_module_on_connected bad_refresh_env cert_started = Inr w'
     \<and> server_cert_is_newest (Some 0) w' = Inr True \<and> cert_left 0 w' = [9, 9, 9, 4, 5]
     \<and> server_cert_get_data (Some 0) [0, 0, 0, 0] 4 w' = Inr (0, [9, 9, 9, 4], 4, False, w'')"
proof -
  note env = bad_refresh_env_def small_env_def cert_started_def cert_loaded_def cert_boot_def
  have newest: "server_cert_is_newest (Some 0) cert_started = Inr True" by (simp add: env server_cert_is_newest_def)
  show ?thesis
    using failed_refresh_goes_unnoticed [of bad_refresh_env cert_started "[9, 9, 9]" 0 "\<lparr>sc_id = 1, sc_offset = 0\<rparr>" 4 "[0, 0, 0, 0]"]
    unfolding newest by (simp add: env) blast
qed

text \<open>
  The serial number is copied unchecked.  A certificate that parses but whose serial number
  is longer than the 20 bytes reserved for it overruns the static buffer.
\<close>

theorem long_serial_overflows:
  assumes "n \<le> length (server_crt_buf w)" and "length (server_crt_serial w) = CERT_SERIAL_MAXLEN"
    and "0 \<le> ret E (trace w) (X509_parse (take n (server_crt_buf w)))"
    and "CERT_SERIAL_MAXLEN < length (serial_of E (take n (server_crt_buf w)))"
  shows "server_crt_update E n w = Inl Buffer_overflow"
  using assms by (simp add: server_crt_update_def peek_def poke_def ext_call_def Let_def)

theorem long_serial_overflows_witness:
  "server_crt_update (small_env\<lparr>serial_of := (\<lambda>_. replicate 21 1)\<rparr>) 5 cert_loaded = Inl Buffer_overflow"
  by (rule long_serial_overflows) (simp_all add: cert_loaded_def cert_boot_def small_env_def)

text \<open>
  Neither start tests \<open>malloc\<close>: when memory is exhausted both write through NULL.
\<close>

theorem cert_start_out_of_memory:
  assumes "ret E (trace w) Malloc = 0"
  shows "device_cert_start E w = Inl Null_deref \<and> server_cert_start E w = Inl Null_deref"
  using assms by (simp add: device_cert_start_def server_cert_start_def malloc_def ext_call_def)

theorem cert_start_out_of_memory_witness:
  "server_cert_start (small_env\<lparr>ret := (\<lambda>_ _. 0)\<rparr>) cert_loaded = Inl Null_deref"
  using cert_start_out_of_memory [of "small_env\<lparr>ret := (\<lambda>_ _. 0)\<rparr>" cert_loaded] by simp

end
