(* ===== verification/Downlink_Source.thy ===== *)
theory Downlink_Source
  imports Downlink_Stream Byte_Source
begin

text \<open>
  A downlink whose last block has arrived is a byte source, too: the reader that keeps asking
  gets all pending bytes and the end mark.
\<close>

definition dl_pull :: "'e env_scheme \<Rightarrow> addr \<Rightarrow> nat \<Rightarrow> 'a downlink_world_scheme
    \<Rightarrow> (bytes \<times> bool \<times> 'a downlink_world_scheme) option" where
  "dl_pull E a n w = (case downlink_get_data E (Some a) (replicate n 0) n w of
     Inl _ \<Rightarrow> None
   | Inr (rc, dst, n', lst, w') \<Rightarrow> if rc = 0 then Some (take n' dst, lst, w') else None)"

definition dl_ready :: "'e env_scheme \<Rightarrow> addr \<Rightarrow> 'a downlink_world_scheme \<Rightarrow> bool" where
  "dl_ready E a w \<longleftrightarrow> max_block_size E < 2 ^ 31 \<and> dl_inv E w
     \<and> (case downlinks w a of None \<Rightarrow> False
        | Some d \<Rightarrow> \<not> complete d \<and> \<not> aborted d \<and> marked True (segs w d))"

definition dl_left :: "addr \<Rightarrow> 'a downlink_world_scheme \<Rightarrow> bytes" where
  "dl_left a w = (case downlinks w a of None \<Rightarrow> [] | Some d \<Rightarrow> pending w d)"

interpretation dl_src: byte_source "dl_pull E a" "dl_ready E a" "dl_left a" for E a
proof (unfold_locales, goal_cases)
  case (1 w n)
  then obtain d where d: "downlinks w a = Some d" "dl_inv E w" "max_block_size E < 2 ^ 31"
    "\<not> complete d" "\<not> aborted d" "marked True (segs w d)"
    by (auto simp: dl_ready_def split: option.splits)
  obtain out r l st where draw: "draw (segs w d) n = (out, r, l, st)" by (cases "draw (segs w d) n")
  from draw_ready [OF draw d(6)] draw_starved [OF draw] have st: "\<not> st" and l: "l \<or> length out = n" by auto
  from get_data_world [OF d(2,1,4,3) _ draw, of "replicate n 0"] st d(5) obtain w' d' where
    w': "downlink_get_data E (Some a) (replicate n 0) n w
        = Inr (0, out @ drop (length out) (replicate n 0), length out, l, w')"
      "downlinks w' = (downlinks w)(a \<mapsto> d')" "segs w' d' = r" "complete d' = l" "\<not> aborted d'" "dl_inv E w'"
    by auto
  have "dl_pull E a n w = Some (out, l, w')" by (simp add: dl_pull_def w'(1))
  moreover have "out @ dl_left a w' = dl_left a w"
    using draw_concat [OF draw] w'(2,3) d(1) by (simp add: dl_left_def pending_def)
  moreover have "if l then dl_left a w' = [] else length out = n \<and> dl_ready E a w'"
    using draw_marked [OF draw d(6)] l w'(2-6) d(3)
    by (auto simp: dl_left_def dl_ready_def pending_def)
  ultimately show ?case by blast
qed

text \<open>
  C10: a finished download is delivered completely.  Once the last block has arrived, a reader
  that asks for \<open>n > 0\<close> bytes again and again gets every pending byte, in order, and the end mark
  after at most one request per byte and one more; with what it had drawn before, it then
  has all the cloud delivered.
\<close>

theorem downlink_delivers_all:
  assumes "dl_stream E a fed True got False w" and "max_block_size E < 2 ^ 31" and "0 < n"
  shows "\<exists>bs w'. drain (dl_pull E a) n (Suc (length fed)) w = Some (bs, True, w') \<and> got @ bs = fed"
proof -
  from dl_stream_inv [OF assms(1,2)] obtain d where d: "downlinks w a = Some d" "dl_inv E w"
    "\<not> complete d" "\<not> aborted d" "marked True (segs w d)" "got @ pending w d = fed" by auto
  then have "dl_ready E a w" "dl_left a w = pending w d"
    using assms(2) by (simp_all add: dl_ready_def dl_left_def)
  with dl_src.drain_all [OF _ assms(3), of E a w "Suc (length fed)"] d(6) show ?thesis by auto
qed

theorem downlink_delivers_all_witness:
  "\<exists>(w :: downlink_world) bs w'. drain (dl_pull small_env 0) 1 3 w = Some (bs, True, w') \<and> [1] @ bs = [1, 2]"
proof -
  from stream2 obtain w :: downlink_world where w: "dl_stream small_env 0 [1, 2] True [1] False w" ..
  have k: "Suc (length [1 :: byte, 2]) = 3" by simp
  from downlink_delivers_all [OF w, of 1] show ?thesis unfolding k by fastforce
qed

end
