(* ===== verification/Node.thy ===== *)
theory Node
  imports Cert
begin

text \<open>
  The state of the Bluetooth glue (\<open>include/pouch_gateway/types.h\<close>, \<open>lib/bt/\<close>): one record per
  connection, and what the glue shares with the platform - scratch buffers and packetizers.
  The packetizer belongs to the Pouch module: it calls the fill callback it was started with
  and frames what that returned (\<open>pk_room\<close>, \<open>pk_encode\<close>, \<open>pk_decode\<close> of the environment); handing
  it a NULL or finished packetizer, or a buffer smaller than announced, is outside its contract
  and a fault of the model.
\<close>

subsection \<open>State\<close>

datatype gatt_attr = ATTR_INFO | ATTR_DOWNLINK | ATTR_UPLINK | ATTR_SERVER_CERT | ATTR_DEVICE_CERT

text \<open>The attributes in the order of the C enumeration, as the loops visit them.\<close>

definition gatt_attrs :: "gatt_attr list" where
  "gatt_attrs = [ATTR_INFO, ATTR_DOWNLINK, ATTR_UPLINK, ATTR_SERVER_CERT, ATTR_DEVICE_CERT]"

lemma all_attrs [simp]: "i \<in> set gatt_attrs"
  by (cases i) (simp_all add: gatt_attrs_def)

instantiation gatt_attr :: enum
begin

definition enum_gatt_attr :: "gatt_attr list" where
  "enum_gatt_attr = gatt_attrs"

definition enum_all_gatt_attr :: "(gatt_attr \<Rightarrow> bool) \<Rightarrow> bool" where
  "enum_all_gatt_attr P = list_all P gatt_attrs"

definition enum_ex_gatt_attr :: "(gatt_attr \<Rightarrow> bool) \<Rightarrow> bool" where
  "enum_ex_gatt_attr P = list_ex P gatt_attrs"

instance
proof
  show "distinct (enum_class.enum :: gatt_attr list)" by (simp add: enum_gatt_attr_def gatt_attrs_def)
qed (auto simp: enum_gatt_attr_def enum_all_gatt_attr_def enum_ex_gatt_attr_def list_all_iff list_ex_iff)

end

record attr_handle =
  attr_value :: handle
  attr_ccc :: handle

text \<open>The parameter blocks of \<open>struct pouch_gateway_node_info\<close> share their memory: \<open>params\<close>.\<close>

record node_info =
  attr_handles :: "gatt_attr \<Rightarrow> attr_handle"
  params :: gatt_params
  downlink_ctx :: ptr
  downlink_scratch :: ptr
  server_cert_scratch :: ptr
  packetizer :: ptr
  node_uplink :: ptr
  device_cert_ctx :: ptr
  server_cert_ctx :: ptr

datatype fill_kind = Fill_downlink | Fill_server_cert

record gw_world = cert_world +
  nodes :: "conn \<Rightarrow> node_info" \<comment> \<open>\<open>connected_nodes\<close>\<close>
  packetizers :: "addr \<rightharpoonup> fill_kind \<times> ptr"
  scratches :: "addr \<rightharpoonup> nat"

definition zero_node :: node_info where \<comment> \<open>after \<open>memset\<close>\<close>
  "zero_node = \<lparr>attr_handles = (\<lambda>_. \<lparr>attr_value = 0, attr_ccc = 0\<rparr>), params = No_params,
     downlink_ctx = NULL, downlink_scratch = NULL, server_cert_scratch = NULL, packetizer = NULL,
     node_uplink = NULL, device_cert_ctx = NULL, server_cert_ctx = NULL\<rparr>"

text \<open>An update of the record of one connection.\<close>

definition set_node :: "conn \<Rightarrow> (node_info \<Rightarrow> node_info) \<Rightarrow> 'a gw_world_scheme \<Rightarrow> 'a gw_world_scheme" where
  "set_node c f w = w\<lparr>nodes := (nodes w)(c := f (nodes w c))\<rparr>"

definition value_handle :: "'a gw_world_scheme \<Rightarrow> conn \<Rightarrow> gatt_attr \<Rightarrow> handle" where
  "value_handle w c i = attr_value (attr_handles (nodes w c) i)"

subsection \<open>Memory and connections\<close>

abbreviation BT_ATT_OVERHEAD :: nat where "BT_ATT_OVERHEAD \<equiv> 3"

definition gatt_mtu_malloc :: "'e env_scheme \<Rightarrow> conn \<Rightarrow> 'a gw_world_scheme \<Rightarrow> ptr \<times> 'a gw_world_scheme" where
  "gatt_mtu_malloc E c w = (let m = mtu E (trace w) c in
     if m < BT_ATT_OVERHEAD then (NULL, w)
     else (case malloc E w of
         (None, w) \<Rightarrow> (NULL, w)
       | (Some a, w) \<Rightarrow> (Some a, w\<lparr>scratches := (scratches w)(a \<mapsto> m - BT_ATT_OVERHEAD)\<rparr>)))"

definition free_scratch :: "ptr \<Rightarrow> 'a gw_world_scheme \<Rightarrow> fault + 'a gw_world_scheme" where
  "free_scratch p w = bnd (deref (scratches w) p) (\<lambda>(a, _). Inr (w\<lparr>scratches := (scratches w)(a := None)\<rparr>))"

text \<open>\<open>pouch_gateway_bt_finished\<close> of the gateway application: it drops the connection.\<close>

definition bt_finished :: "'e env_scheme \<Rightarrow> conn \<Rightarrow> 'a gw_world_scheme \<Rightarrow> 'a gw_world_scheme" where
  "bt_finished E c w = snd (ext_call E (Conn_disconnect c) w)"

subsection \<open>The packetizer and its fill callbacks\<close>

definition downlink_packet_fill_cb :: "'e env_scheme \<Rightarrow> bytes \<Rightarrow> ptr \<Rightarrow> 'a gw_world_scheme
    \<Rightarrow> fault + (pk_result \<times> bytes \<times> 'a gw_world_scheme)" where
  "downlink_packet_fill_cb E dst arg w =
     bnd (downlink_get_data E arg dst (length dst) w) (\<lambda>(rc, dst, n, lst, w).
       if rc = - EAGAIN then Inr (PK_MORE_DATA, take n dst, w)
       else if rc < 0 then Inr (PK_ERROR, [], w)
       else Inr (if lst then PK_NO_MORE_DATA else PK_MORE_DATA, take n dst, w))"

definition server_cert_fill_cb :: "'e env_scheme \<Rightarrow> bytes \<Rightarrow> ptr \<Rightarrow> 'a gw_world_scheme
    \<Rightarrow> fault + (pk_result \<times> bytes \<times> 'a gw_world_scheme)" where
  "server_cert_fill_cb E dst arg w =
     bnd (server_cert_get_data arg dst (length dst) w) (\<lambda>(rc, dst, n, lst, w).
       if rc = - EAGAIN then Inr (PK_MORE_DATA, take n dst, w)
       else if rc < 0 then Inr (PK_ERROR, [], w)
       else Inr (if lst then PK_NO_MORE_DATA else PK_MORE_DATA, take n dst, w))"

definition fill_cb :: "'e env_scheme \<Rightarrow> fill_kind \<Rightarrow> bytes \<Rightarrow> ptr \<Rightarrow> 'a gw_world_scheme
    \<Rightarrow> fault + (pk_result \<times> bytes \<times> 'a gw_world_scheme)" where
  "fill_cb E k = (case k of Fill_downlink \<Rightarrow> downlink_packet_fill_cb E | Fill_server_cert \<Rightarrow> server_cert_fill_cb E)"

definition packetizer_start :: "'e env_scheme \<Rightarrow> fill_kind \<Rightarrow> ptr \<Rightarrow> 'a gw_world_scheme
    \<Rightarrow> ptr \<times> 'a gw_world_scheme" where
  "packetizer_start E k arg w = (let (r, w) = ext_call E (Packetizer_start arg) w in
     if r = 0 then (NULL, w)
     else (Some (next_addr w), w\<lparr>next_addr := Suc (next_addr w),
            packetizers := (packetizers w)(next_addr w \<mapsto> (k, arg))\<rparr>))"

definition packetizer_finish :: "'e env_scheme \<Rightarrow> ptr \<Rightarrow> 'a gw_world_scheme \<Rightarrow> fault + 'a gw_world_scheme" where
  "packetizer_finish E p w = bnd (deref (packetizers w) p) (\<lambda>(a, _).
     let w = snd (ext_call E (Packetizer_finish p) w) in
     Inr (w\<lparr>packetizers := (packetizers w)(a := None)\<rparr>))"

text \<open>\<open>pouch_gatt_packetizer_get\<close> with a buffer of the announced size \<open>n\<close>.\<close>

definition packetizer_get :: "'e env_scheme \<Rightarrow> ptr \<Rightarrow> ptr \<Rightarrow> nat \<Rightarrow> 'a gw_world_scheme
    \<Rightarrow> fault + (pk_result \<times> bytes \<times> 'a gw_world_scheme)" where
  "packetizer_get E p buf n w = bnd (deref (packetizers w) p) (\<lambda>(_, (k, arg)).
     bnd (deref (scratches w) buf) (\<lambda>(b, size).
     if size < n then Inl Buffer_overflow
     else bnd (fill_cb E k (map (garbage E b) [0..<pk_room E n]) arg w) (\<lambda>(res, bs, w).
       let (res, out) = pk_encode E res bs in Inr (res, out, w))))"

lemma packetizer_get_InrD:
  assumes "packetizer_get E p buf n w = Inr (res, out, w')"
  obtains a k arg b size r bs where "p = Some a" and "packetizers w a = Some (k, arg)" and "buf = Some b"
    and "scratches w b = Some size" and "n \<le> size"
    and "fill_cb E k (map (garbage E b) [0..<pk_room E n]) arg w = Inr (r, bs, w')"
    and "pk_encode E r bs = (res, out)"
proof -
  from assms obtain a k arg b size where p: "p = Some a" "packetizers w a = Some (k, arg)" "buf = Some b"
    "scratches w b = Some size" "n \<le> size"
    by (auto simp: packetizer_get_def bnd_simps split: if_splits)
  with assms obtain r bs w1 where "fill_cb E k (map (garbage E b) [0..<pk_room E n]) arg w = Inr (r, bs, w1)"
    "(case pk_encode E r bs of (res, out) \<Rightarrow> Inr (res, out, w1)) = (Inr (res, out, w') :: fault + _)"
    by (fastforce simp: packetizer_get_def elim!: bnd_InrE)
  with p that show ?thesis by (cases "pk_encode E r bs") auto
qed

subsection \<open>Updates that do not concern the streams\<close>

lemma set_node_simps [simp]:
  "nodes (set_node c f w) = (nodes w)(c := f (nodes w c))" "trace (set_node c f w) = trace w"
  "next_addr (set_node c f w) = next_addr w" "downlinks (set_node c f w) = downlinks w"
  "uplinks (set_node c f w) = uplinks w" "pblocks_live (set_node c f w) = pblocks_live w"
  "slab (set_node c f w) = slab w" "slab_used (set_node c f w) = slab_used w"
  "packetizers (set_node c f w) = packetizers w" "scratches (set_node c f w) = scratches w"
  "server_ctxs (set_node c f w) = server_ctxs w" "device_ctxs (set_node c f w) = device_ctxs w"
  "server_crt_len (set_node c f w) = server_crt_len w" "server_crt_id (set_node c f w) = server_crt_id w"
  "server_crt_buf (set_node c f w) = server_crt_buf w" "server_crt_serial (set_node c f w) = server_crt_serial w"
  "server_crt_serial_len (set_node c f w) = server_crt_serial_len w"
  by (simp_all add: set_node_def)

lemma nodes_put_uplink [simp]:
  "nodes (put_uplink a u w) = nodes w" "packetizers (put_uplink a u w) = packetizers w"
  "scratches (put_uplink a u w) = scratches w"
  by (simp_all add: put_uplink_def)

end
