(* ===== verification/Bt_Downlink.thy ===== *)
theory Bt_Downlink
  imports Node Downlink_Source
begin

text \<open>
  \<open>lib/bt/downlink.c\<close>: moving the downlink to the node.  Each write response triggers the
  next write; a reader that found nothing is woken up by the data callback of the downlink.
\<close>

subsection \<open>Operations\<close>

text \<open>The error of the packetizer is returned as it is; 0 would count as success.\<close>

definition write_downlink_characteristic :: "'e env_scheme \<Rightarrow> conn \<Rightarrow> 'a gw_world_scheme
    \<Rightarrow> fault + (int \<times> 'a gw_world_scheme)" where
  "write_downlink_characteristic E c w =
     (let h = value_handle w c ATTR_DOWNLINK; m = mtu E (trace w) c in
      if m < BT_ATT_OVERHEAD then Inr (- EIO, w)
      else bnd (packetizer_get E (packetizer (nodes w c)) (downlink_scratch (nodes w c)) (m - BT_ATT_OVERHEAD) w)
        (\<lambda>(res, out, w).
          if res = PK_ERROR then Inr (ext_call E (Packetizer_error (packetizer (nodes w c))) w)
          else if res = PK_EMPTY_PAYLOAD then Inr (- ENODATA, w)
          else let prm = Write_params Cb_downlink_write_response h out;
                   w = set_node c (params_update (\<lambda>_. prm)) w in
            Inr (ext_call E (Gatt_write c prm) w)))"

text \<open>Giving up from the Bluetooth side: abort, finish the packetizer, drop the connection.\<close>

definition downlink_give_up :: "'e env_scheme \<Rightarrow> conn \<Rightarrow> 'a gw_world_scheme \<Rightarrow> fault + 'a gw_world_scheme" where
  "downlink_give_up E c w =
     bnd (downlink_abort (downlink_ctx (nodes w c)) w) (\<lambda>w.
     bnd (packetizer_finish E (packetizer (nodes w c)) w) (\<lambda>w. Inr (bt_finished E c w)))"

definition downlink_write_response_cb :: "'e env_scheme \<Rightarrow> conn \<Rightarrow> byte \<Rightarrow> 'a gw_world_scheme
    \<Rightarrow> fault + 'a gw_world_scheme" where
  "downlink_write_response_cb E c err w =
     (if err \<noteq> 0 then downlink_give_up E c w
      else bnd (downlink_is_complete (downlink_ctx (nodes w c)) w) (\<lambda>fin.
        if fin then
          bnd (downlink_close (downlink_ctx (nodes w c)) w) (\<lambda>w.
          bnd (packetizer_finish E (packetizer (nodes w c)) w) (\<lambda>w. Inr (bt_finished E c w)))
        else bnd (write_downlink_characteristic E c w) (\<lambda>(rc, w).
          if rc \<noteq> 0 \<and> rc \<noteq> - ENODATA then downlink_give_up E c w else Inr w)))"

definition downlink_data_available :: "'e env_scheme \<Rightarrow> conn \<Rightarrow> 'a gw_world_scheme
    \<Rightarrow> fault + 'a gw_world_scheme" where
  "downlink_data_available E c w = bnd (write_downlink_characteristic E c w) (\<lambda>(rc, w).
     if rc \<noteq> 0 then downlink_give_up E c w else Inr w)"

text \<open>Neither the new context nor the packetizer is tested for NULL.\<close>

definition downlink_start :: "'e env_scheme \<Rightarrow> conn \<Rightarrow> 'a gw_world_scheme \<Rightarrow> ptr \<times> 'a gw_world_scheme" where
  "downlink_start E c w =
     (if value_handle w c ATTR_DOWNLINK = 0 then (NULL, w)
      else if \<not> cloud E then (NULL, bt_finished E c w)
      else let (buf, w) = gatt_mtu_malloc E c w;
               w = set_node c (downlink_scratch_update (\<lambda>_. buf)) w in
        if buf = NULL then (NULL, w)
        else let (ctx, w) = downlink_open E c w;
                 w = set_node c (downlink_ctx_update (\<lambda>_. ctx)) w;
                 (pk, w) = packetizer_start E Fill_downlink ctx w;
                 w = set_node c (packetizer_update (\<lambda>_. pk)) w in
          (downlink_ctx (nodes w c), w))"

definition downlink_cleanup :: "conn \<Rightarrow> 'a gw_world_scheme \<Rightarrow> fault + 'a gw_world_scheme" where
  "downlink_cleanup c w = (if downlink_scratch (nodes w c) \<noteq> NULL then
       bnd (free_scratch (downlink_scratch (nodes w c)) w) (\<lambda>w.
         Inr (set_node c (downlink_scratch_update (\<lambda>_. NULL)) w))
     else Inr w)"

subsection \<open>What the operations leave alone\<close>

lemma more_gw:
  assumes "downlink_world.more w' = downlink_world.more w"
  shows "nodes w' = nodes w" and "packetizers w' = packetizers w" and "scratches w' = scratches w"
    and "uplinks w' = uplinks w" and "pblocks_live w' = pblocks_live w"
    and "server_ctxs w' = server_ctxs w" and "device_ctxs w' = device_ctxs w"
  using assms by (cases w; cases w'; simp)+

lemma free_each_more:
  "free_each block_free as w = Inr w' \<Longrightarrow> downlink_world.more w' = downlink_world.more w \<and> trace w' = trace w"
  by (induction as arbitrary: w) (auto simp: bnd_simps block_free_def)

lemma close_more:
  "downlink_close p w = Inr w' \<Longrightarrow> downlink_world.more w' = downlink_world.more w \<and> trace w' = trace w"
  by (auto simp: downlink_close_def bnd_simps block_free_def split: if_splits)

lemma abort_more:
  "downlink_abort p w = Inr w' \<Longrightarrow> downlink_world.more w' = downlink_world.more w \<and> trace w' = trace w"
  by (auto simp: downlink_abort_def bnd_simps Let_def dest!: close_more split: if_splits)

lemma dl_inv_frame:
  assumes "dl_inv E w" and "slab w' = slab w" and "slab_used w' = slab_used w"
    and "downlinks w' = downlinks w" and "next_addr w \<le> next_addr w'"
  shows "dl_inv E w'"
proof -
  have "slab_view w' = slab_view w" by (rule ext) (simp add: slab_view_def assms(2))
  then have "wf_downlink w' d = wf_downlink w d" for d by (intro wf_downlink_cong) simp
  with assms show ?thesis
    by (auto simp: dl_inv_def slab_inv_def intro: fresh_above_mono)
qed

lemma fill_keeps:
  assumes "dl_inv E w" and "max_block_size E < 2 ^ 31" and "fill_cb E k dst arg w = Inr (res, bs, w')"
  shows "dl_inv E w'"
proof (cases k)
  case Fill_downlink
  with assms(3) obtain rc dst' n lst where
    "downlink_get_data E arg dst (length dst) w = Inr (rc, dst', n, lst, w')"
    by (auto simp: fill_cb_def downlink_packet_fill_cb_def bnd_simps split: if_splits)
  from read_keeps [OF assms(1) this _ assms(2)] show ?thesis by simp
next
  case Fill_server_cert
  with assms(3) have "slab w' = slab w \<and> slab_used w' = slab_used w \<and> downlinks w' = downlinks w
      \<and> next_addr w' = next_addr w"
    by (auto simp: fill_cb_def server_cert_fill_cb_def server_cert_get_data_def bnd_simps Let_def
        split: if_splits)
  then show ?thesis by (intro dl_inv_frame [OF assms(1)]) simp_all
qed

lemma write_characteristic_keeps:
  assumes "dl_inv E w" and "max_block_size E < 2 ^ 31"
    and run: "write_downlink_characteristic E c w = Inr (rc, w')"
  shows "dl_inv E w'"
proof (cases "mtu E (trace w) c < BT_ATT_OVERHEAD")
  case True
  with assms show ?thesis by (simp add: write_downlink_characteristic_def Let_def)
next
  case False
  with run obtain res out w1 where
    get: "packetizer_get E (packetizer (nodes w c)) (downlink_scratch (nodes w c)) (mtu E (trace w) c - BT_ATT_OVERHEAD) w
      = Inr (res, out, w1)"
    and w': "w' = w1 \<or> (\<exists>f t. w' = (set_node c f w1)\<lparr>trace := t\<rparr>) \<or> (\<exists>t. w' = w1\<lparr>trace := t\<rparr>)"
    by (fastforce simp: write_downlink_characteristic_def bnd_simps ext_call_def Let_def split: if_splits)
  from get obtain k dst arg res' bs where "fill_cb E k dst arg w = Inr (res', bs, w1)"
    by (rule packetizer_get_InrD)
  from fill_keeps [OF assms(1,2) this] w' show ?thesis
    by (auto intro: dl_inv_frame)
qed

lemma abort_keeps:
  assumes "dl_inv E w" and "downlink_abort p w = Inr w'"
  shows "dl_inv E w'"
proof -
  from assms(2) obtain a d where "p = Some a" "downlinks w a = Some d"
    unfolding downlink_abort_def by (rule deref_InrE)
  with abort_world [OF assms(1)] assms(2) show ?thesis by fastforce
qed

lemma give_up_keeps:
  assumes "dl_inv E w" and "downlink_give_up E c w = Inr w'"
  shows "dl_inv E w'"
proof -
  from assms(2) obtain w1 where "downlink_abort (downlink_ctx (nodes w c)) w = Inr w1"
    and w': "slab w' = slab w1" "slab_used w' = slab_used w1" "downlinks w' = downlinks w1"
      "next_addr w1 \<le> next_addr w'"
    by (auto simp: downlink_give_up_def packetizer_finish_def bt_finished_def bnd_simps Let_def)
  from abort_keeps [OF assms(1) this(1)] dl_inv_frame w' show ?thesis by blast
qed

interpretation bt_client: downlink_client E "downlink_data_available E" for E :: "'e env_scheme"
proof (unfold_locales, goal_cases)
  case (1 w c w')
  then obtain rc w1 where w1: "write_downlink_characteristic E c w = Inr (rc, w1)"
    "w' = w1 \<or> downlink_give_up E c w1 = Inr w'"
    by (auto simp: downlink_data_available_def bnd_simps split: if_splits)
  from write_characteristic_keeps [OF 1(1,2) w1(1)] have "dl_inv E w1" .
  with w1(2) give_up_keeps show ?case by blast
qed

end
