(* ===== verification/Bt_Downlink_Props.thy ===== *)
theory Bt_Downlink_Props
  imports Bt_Downlink
begin

text \<open>
  One write to the downlink characteristic: what it carries, whether the stream goes on, starves or
  ends, and the response to it.  Then the ways the glue goes wrong: pointers it keeps after the
  other thread has freed what they name.
\<close>

subsection \<open>The contract of the packetizer\<close>

text \<open>
  Documented behaviour of the packetizer: it keeps the result of the callback unless there is
  neither data nor an end, and what it packs the other side unpacks.
\<close>

definition faithful :: "'e env_scheme \<Rightarrow> bool" where
  "faithful E \<longleftrightarrow> (\<forall>r bs. r = PK_NO_MORE_DATA \<or> r = PK_MORE_DATA \<and> bs \<noteq> [] \<longrightarrow>
     (\<exists>out. pk_encode E r bs = (r, out) \<and> pk_decode E out = Inr (bs, r = PK_NO_MORE_DATA)))"

text \<open>The link works: a constant MTU that leaves room for payload, and writes that are accepted.\<close>

definition good_link :: "'e env_scheme \<Rightarrow> conn \<Rightarrow> nat \<Rightarrow> bool" where
  "good_link E c m \<longleftrightarrow> (\<forall>t. mtu E t c = m) \<and> BT_ATT_OVERHEAD \<le> m \<and> 0 < pk_room E (m - BT_ATT_OVERHEAD)
     \<and> (\<forall>t g. ret E t (Gatt_write c g) = 0)"

text \<open>The connection \<open>c\<close> reads the downlink \<open>a\<close> through the packetizer \<open>p\<close> into its scratch buffer.\<close>

definition wired :: "conn \<Rightarrow> addr \<Rightarrow> addr \<Rightarrow> nat \<Rightarrow> 'a gw_world_scheme \<Rightarrow> bool" where
  "wired c a p m w \<longleftrightarrow> downlink_ctx (nodes w c) = Some a \<and> packetizer (nodes w c) = Some p
     \<and> packetizers w p = Some (Fill_downlink, Some a)
     \<and> (\<exists>b size. downlink_scratch (nodes w c) = Some b \<and> scratches w b = Some size \<and> m - BT_ATT_OVERHEAD \<le> size)"

subsection \<open>One write\<close>

text \<open>
  The stream may still be waiting for blocks (\<open>lf\<close> false): then a fill can run out of them, and one
  that finds nothing at all leaves the mark that the client waits.
\<close>

definition dl_open :: "'e env_scheme \<Rightarrow> addr \<Rightarrow> bool \<Rightarrow> 'a downlink_world_scheme \<Rightarrow> bool" where
  "dl_open E a lf w \<longleftrightarrow> max_block_size E < 2 ^ 31 \<and> dl_inv E w
     \<and> (case downlinks w a of None \<Rightarrow> False
        | Some d \<Rightarrow> \<not> complete d \<and> \<not> aborted d \<and> marked lf (segs w d))"

lemma dl_ready_open: "dl_ready E a w = dl_open E a True w"
  by (simp add: dl_ready_def dl_open_def)

lemma draw_nothing: "draw ss n = ([], r, l, st) \<Longrightarrow> n \<noteq> 0 \<Longrightarrow> \<not> l \<Longrightarrow> st"
  by (induction ss n rule: draw.induct) (auto split: if_splits prod.splits)

lemma fill_open:
  assumes "dl_open E a lf w" and "dst \<noteq> []" and a: "downlinks w a = Some d"
  shows "\<exists>bs l w' d'. downlink_packet_fill_cb E dst (Some a) w
      = Inr (if l then PK_NO_MORE_DATA else PK_MORE_DATA, bs, w')
    \<and> bs @ dl_left a w' = dl_left a w \<and> downlinks w' = (downlinks w)(a \<mapsto> d') \<and> complete d' = l
    \<and> \<not> aborted d' \<and> cb_arg d' = cb_arg d \<and> client_waiting d' = (client_waiting d \<or> \<not> l \<and> bs = [])
    \<and> (bs = [] \<longrightarrow> \<not> l \<longrightarrow> \<not> lf \<and> segs w' d' = [])
    \<and> (if l then lf \<and> dl_left a w' = [] \<and> segs w' d' = [] else dl_open E a lf w') \<and> dl_inv E w' \<and> orphans w' = orphans w
    \<and> downlink_world.more w' = downlink_world.more w \<and> trace w' = trace w"
proof -
  from assms(1) a have d: "dl_inv E w" "max_block_size E < 2 ^ 31" "\<not> complete d" "\<not> aborted d" "marked lf (segs w d)"
    by (simp_all add: dl_open_def)
  obtain out r l st where draw: "draw (segs w d) (length dst) = (out, r, l, st)"
    by (cases "draw (segs w d) (length dst)")
  note m = draw_marked [OF draw d(5)]
  from get_data_world [OF d(1) a d(3,2) _ draw, of dst] d(4) obtain w' d' where
    w': "downlink_get_data E (Some a) dst (length dst) w
        = Inr (if st then - EAGAIN else 0, out @ drop (length out) dst, length out, l, w')"
      "downlinks w' = (downlinks w)(a \<mapsto> d')" "segs w' d' = r" "complete d' = l" "\<not> aborted d'" "dl_inv E w'"
      "downlink_world.more w' = downlink_world.more w" "trace w' = trace w" "cb_arg d' = cb_arg d"
      "client_waiting d' = (client_waiting d \<or> st \<and> out = [])" "orphans w' = orphans w"
    by auto
  have "downlink_packet_fill_cb E dst (Some a) w = Inr (if l then PK_NO_MORE_DATA else PK_MORE_DATA, out, w')"
    using m by (auto simp: downlink_packet_fill_cb_def w'(1))
  moreover have "out @ dl_left a w' = dl_left a w"
    using draw_concat [OF draw] w'(2,3) a by (simp add: dl_left_def pending_def)
  moreover have "if l then lf \<and> dl_left a w' = [] \<and> segs w' d' = [] else dl_open E a lf w'"
    using m w'(2-6) d(2) by (auto simp: dl_left_def dl_open_def pending_def)
  moreover have starved: "st" if "out = []" "\<not> l"
    using that draw draw_nothing [of "segs w d" "length dst" r l st] assms(2) by simp
  moreover have "client_waiting d' = (client_waiting d \<or> \<not> l \<and> out = [])"
    using w'(10) m starved by auto
  moreover have "\<not> lf \<and> segs w' d' = []" if "out = []" "\<not> l"
    using starved [OF that] that m w'(3) draw_starved [OF draw] by simp
  ultimately show ?thesis using w' by blast
qed

text \<open>The payloads of the writes to the downlink characteristic.\<close>

definition written_to :: "'e env_scheme \<Rightarrow> conn \<Rightarrow> ext_call list \<Rightarrow> bytes" where
  "written_to E c tr = concat (map (\<lambda>x. case x of
     Gatt_write c' (Write_params cb h out) \<Rightarrow> (if c' = c then (case pk_decode E out of Inl _ \<Rightarrow> [] | Inr (bs, _) \<Rightarrow> bs) else [])
   | _ \<Rightarrow> []) tr)"

lemma written_to_append [simp]: "written_to E c (s @ t) = written_to E c s @ written_to E c t"
  by (simp add: written_to_def)

lemma dl_open_frame:
  assumes "downlinks w' = downlinks w" and "slab w' = slab w" and "slab_used w' = slab_used w"
    and "next_addr w \<le> next_addr w'"
  shows "dl_open E a lf w \<Longrightarrow> dl_open E a lf w'" and "dl_left a w' = dl_left a w"
proof -
  have "slab_view w' = slab_view w" by (rule ext) (simp add: slab_view_def assms(2))
  then have s: "segs w' d = segs w d" for d by (intro wf_downlink_cong) simp
  show "dl_left a w' = dl_left a w"
    by (simp add: dl_left_def assms(1) pending_def s cong: option.case_cong)
  show "dl_open E a lf w \<Longrightarrow> dl_open E a lf w'"
    using dl_inv_frame [OF _ assms(2,3,1,4), of E] by (simp add: dl_open_def assms(1) s cong: option.case_cong)
qed

lemmas dl_ready_frame = dl_open_frame(1) [where lf = True, folded dl_ready_open] dl_open_frame(2)

text \<open>What the downlink leaves alone.\<close>

definition beside_dl :: "'a gw_world_scheme \<Rightarrow> _" where
  "beside_dl w = (uplinks w, pblocks_live w, packetizers w, scratches w, device_ctxs w, server_ctxs w)"

text \<open>What belongs to the two streams.\<close>

definition streams :: "'a gw_world_scheme \<Rightarrow> _" where
  "streams w = (slab w, slab_used w, downlinks w, uplinks w, pblocks_live w)"

text \<open>
  Documented behaviour of the packetizer when there is nothing to pack, which matters as long as
  blocks are to come.
\<close>

definition idle_packet :: "'e env_scheme \<Rightarrow> bool" where
  "idle_packet E \<longleftrightarrow> fst (pk_encode E PK_MORE_DATA []) = PK_EMPTY_PAYLOAD"

lemma same_node: "\<exists>q. f = f(c := f c\<lparr>params := q\<rparr>)"
  by (rule exI [of _ "params (f c)"]) simp

text \<open>What one write with the payload \<open>bs\<close> leads to, from the context \<open>d\<close> to \<open>d'\<close>.\<close>

definition dl_written :: "'e env_scheme \<Rightarrow> conn \<Rightarrow> addr \<Rightarrow> addr \<Rightarrow> nat \<Rightarrow> bool \<Rightarrow> downlink \<Rightarrow> 'a gw_world_scheme
    \<Rightarrow> bytes \<Rightarrow> downlink \<Rightarrow> 'a gw_world_scheme \<Rightarrow> bool" where
  "dl_written E c a p m lf d w bs d' w' \<longleftrightarrow> wired c a p m w' \<and> written_to E c (trace w') = written_to E c (trace w) @ bs
    \<and> bs @ dl_left a w' = dl_left a w \<and> downlinks w' = (downlinks w)(a \<mapsto> d') \<and> \<not> aborted d' \<and> cb_arg d' = cb_arg d
    \<and> client_waiting d' = (client_waiting d \<or> \<not> complete d' \<and> bs = [])
    \<and> (bs = [] \<longrightarrow> \<not> complete d' \<longrightarrow> \<not> lf \<and> segs w' d' = [])
    \<and> (if complete d' then lf \<and> dl_left a w' = [] \<and> segs w' d' = [] else dl_open E a lf w')
    \<and> dl_inv E w' \<and> orphans w' = orphans w
    \<and> beside_dl w' = beside_dl w \<and> (\<exists>q. nodes w' = (nodes w)(c := (nodes w c)\<lparr>params := q\<rparr>))
    \<and> (\<exists>g. trace w' = trace w @ (if bs = [] \<and> \<not> complete d' then [] else [Gatt_write c g]))
    \<and> (bs \<noteq> [] \<or> complete d' \<longrightarrow>
        (\<exists>out. params (nodes w' c) = Write_params Cb_downlink_write_response (value_handle w c ATTR_DOWNLINK) out))"

lemma write_open:
  assumes "dl_open E a lf w" and "wired c a p m w" and "good_link E c m" and "faithful E" and idle: "\<not> lf \<Longrightarrow> idle_packet E"
    and a: "downlinks w a = Some d"
  shows "\<exists>w' bs d'. write_downlink_characteristic E c w = Inr (if bs = [] \<and> \<not> complete d' then - ENODATA else 0, w')
    \<and> dl_written E c a p m lf d w bs d' w'"
proof -
  from assms(2) obtain b size where b: "downlink_scratch (nodes w c) = Some b" "scratches w b = Some size"
    "m - BT_ATT_OVERHEAD \<le> size" "packetizer (nodes w c) = Some p" "packetizers w p = Some (Fill_downlink, Some a)"
    "downlink_ctx (nodes w c) = Some a"
    by (auto simp: wired_def)
  let ?dst = "map (garbage E b) [0..<pk_room E (m - BT_ATT_OVERHEAD)]"
  have "?dst \<noteq> []" using assms(3) by (simp add: good_link_def)
  from fill_open [OF assms(1) this a] obtain bs l w1 d1 where
    f: "downlink_packet_fill_cb E ?dst (Some a) w = Inr (if l then PK_NO_MORE_DATA else PK_MORE_DATA, bs, w1)"
      "bs @ dl_left a w1 = dl_left a w" "downlinks w1 = (downlinks w)(a \<mapsto> d1)" "complete d1 = l"
      "\<not> aborted d1" "cb_arg d1 = cb_arg d" "client_waiting d1 = (client_waiting d \<or> \<not> l \<and> bs = [])"
      "bs = [] \<longrightarrow> \<not> l \<longrightarrow> \<not> lf \<and> segs w1 d1 = []"
      "if l then lf \<and> dl_left a w1 = [] \<and> segs w1 d1 = [] else dl_open E a lf w1" "dl_inv E w1" "orphans w1 = orphans w"
      "downlink_world.more w1 = downlink_world.more w" "trace w1 = trace w" by (elim exE conjE) (rule that)
  note more = more_gw [OF f(12)]
  have beside: "beside_dl w1 = beside_dl w" using more by (simp add: beside_dl_def)
  have wired: "wired c a p m w1" using assms(2) more by (simp add: wired_def)
  define r where "r = (if l then PK_NO_MORE_DATA else PK_MORE_DATA)"
  obtain res out where enc: "pk_encode E r bs = (res, out)" by (cases "pk_encode E r bs")
  have get: "packetizer_get E (Some p) (Some b) (m - BT_ATT_OVERHEAD) w = Inr (res, out, w1)"
    using b f(1) enc by (simp add: packetizer_get_def fill_cb_def r_def)
  show ?thesis
  proof (cases "bs = [] \<and> \<not> l")
    case True
    with f(8) idle have "idle_packet E" by blast
    with True enc have "res = PK_EMPTY_PAYLOAD" by (simp add: idle_packet_def r_def)
    with get b assms(3) have "write_downlink_characteristic E c w = Inr (- ENODATA, w1)"
      by (simp add: write_downlink_characteristic_def good_link_def Let_def)
    then show ?thesis using True f wired beside more same_node [of "nodes w" c]
      by (intro exI [of _ w1] exI [of _ "[]"] exI [of _ d1]) (simp add: dl_written_def)
  next
    case False
    then have "r = PK_NO_MORE_DATA \<or> r = PK_MORE_DATA \<and> bs \<noteq> []" by (auto simp: r_def)
    with assms(4) obtain out' where "pk_encode E r bs = (r, out')" "pk_decode E out' = Inr (bs, r = PK_NO_MORE_DATA)"
      unfolding faithful_def by blast
    with enc have out: "res = r" "pk_decode E out = Inr (bs, l)" by (simp_all add: r_def)
    define prm where "prm = Write_params Cb_downlink_write_response (value_handle w c ATTR_DOWNLINK) out"
    define w2 where "w2 = set_node c (params_update (\<lambda>_. prm)) w1"
    define w3 where "w3 = w2\<lparr>trace := trace w2 @ [Gatt_write c prm]\<rparr>"
    have ne: "r \<noteq> PK_ERROR" "r \<noteq> PK_EMPTY_PAYLOAD" by (simp_all add: r_def)
    have "write_downlink_characteristic E c w = Inr (0, w3)"
      using get [unfolded out(1)] b assms(3) ne
      by (simp add: write_downlink_characteristic_def good_link_def Let_def ext_call_def prm_def w2_def w3_def)
    moreover have "wired c a p m w3" using wired by (auto simp: wired_def w3_def w2_def)
    moreover have "written_to E c (trace w3) = written_to E c (trace w) @ bs"
      using out(2) f(13) by (simp add: w3_def w2_def written_to_def prm_def)
    moreover have frame: "downlinks w3 = downlinks w1" "slab w3 = slab w1" "slab_used w3 = slab_used w1"
      "next_addr w1 \<le> next_addr w3" by (simp_all add: w3_def w2_def)
    moreover note left = dl_open_frame(2) [OF frame, of a]
    moreover have segs: "segs w3 d1 = segs w1 d1" by (simp add: w3_def w2_def segs_def seg_def slab_view_def cong: option.case_cong)
    moreover have "complete d1 \<Longrightarrow> lf \<and> dl_left a w3 = [] \<and> segs w3 d1 = []" "\<not> complete d1 \<Longrightarrow> dl_open E a lf w3"
      using f(4,9) dl_open_frame(1) [OF frame, of E a lf] left segs by simp_all
    moreover have "dl_inv E w3" using dl_inv_frame [OF f(10) frame(2,3,1,4)] .
    moreover have "params (nodes w3 c) = prm" "\<exists>q. nodes w3 = (nodes w)(c := (nodes w c)\<lparr>params := q\<rparr>)"
      "beside_dl w3 = beside_dl w" "orphans w3 = orphans w" "trace w3 = trace w @ [Gatt_write c prm]"
      using beside more f(11,13) by (auto simp: w3_def w2_def set_node_def beside_dl_def orphans_def owned_def)
    moreover have "downlinks w3 = (downlinks w)(a \<mapsto> d1)" "bs @ dl_left a w3 = dl_left a w" "bs = [] \<Longrightarrow> complete d1"
      "client_waiting d1 = (client_waiting d \<or> \<not> complete d1 \<and> bs = [])"
      using False f(2-4,7) left frame(1) by auto
    ultimately show ?thesis
      using f(5,6) prm_def by (intro exI [of _ w3] exI [of _ bs] exI [of _ d1]) (simp add: dl_written_def)
  qed
qed

lemma write_ready:
  assumes "dl_ready E a w" and "wired c a p m w" and "good_link E c m" and "faithful E"
  shows "\<exists>w' bs l d'. write_downlink_characteristic E c w = Inr (0, w') \<and> wired c a p m w'
    \<and> written_to E c (trace w') = written_to E c (trace w) @ bs \<and> bs @ dl_left a w' = dl_left a w
    \<and> downlinks w' a = Some d' \<and> complete d' = l \<and> dl_inv E w'
    \<and> (if l then dl_left a w' = [] else bs \<noteq> [] \<and> dl_ready E a w')
    \<and> (\<exists>out. params (nodes w' c) = Write_params Cb_downlink_write_response (value_handle w c ATTR_DOWNLINK) out)"
proof -
  from assms(1) obtain d where "downlinks w a = Some d" by (auto simp: dl_ready_def split: option.splits)
  from write_open [OF assms(1) [unfolded dl_ready_open] assms(2-4) _ this] obtain w' bs d' where
    "write_downlink_characteristic E c w = Inr (if bs = [] \<and> \<not> complete d' then - ENODATA else 0, w')"
    "dl_written E c a p m True d w bs d' w'" by blast
  then show ?thesis unfolding dl_ready_open
    by (intro exI [of _ w'] exI [of _ bs] exI [of _ "complete d'"] exI [of _ d']) (simp add: dl_written_def split: if_splits)
qed

text \<open>The response to a write, while the stream goes on and at its end.\<close>

lemma response_next:
  assumes "dl_ready E a w" and "wired c a p m w"
  shows "downlink_write_response_cb E c 0 w = bnd (write_downlink_characteristic E c w) (\<lambda>(rc, w).
      if rc \<noteq> 0 \<and> rc \<noteq> - ENODATA then downlink_give_up E c w else Inr w)"
proof -
  from assms obtain d where "downlinks w a = Some d" "\<not> complete d" "downlink_ctx (nodes w c) = Some a"
    by (auto simp: dl_ready_def wired_def split: option.splits)
  then show ?thesis by (simp add: downlink_write_response_cb_def downlink_is_complete_def)
qed

lemma response_last:
  assumes "dl_inv E w" and "wired c a p m w" and "downlinks w a = Some d" and "complete d"
  shows "\<exists>w'. downlink_write_response_cb E c 0 w = Inr w' \<and> downlinks w' a = None \<and> packetizers w' p = None
    \<and> trace w' = trace w @ [Packetizer_finish (Some p), Conn_disconnect c]"
proof -
  from close_world [OF assms(1,3)] obtain w1 where w1: "downlink_close (Some a) w = Inr w1"
    "downlinks w1 = (downlinks w)(a := None)" "trace w1 = trace w" by blast
  from close_more [OF w1(1)] have more: "nodes w1 = nodes w" "packetizers w1 = packetizers w"
    using more_gw by blast+
  from assms(2-4) w1 more show ?thesis
    by (simp add: wired_def downlink_write_response_cb_def downlink_is_complete_def packetizer_finish_def
        bt_finished_def Let_def)
qed

subsection \<open>A small connection\<close>

definition gw_boot :: gw_world where
  "gw_boot = \<lparr>trace = [], next_addr = 0, slab = Map.empty, slab_used = 0, downlinks = Map.empty,
     uplinks = Map.empty, pblocks_live = 0, server_crt_buf = replicate 8 0, server_crt_len = 0,
     server_crt_serial = replicate 20 0, server_crt_serial_len = 0, server_crt_id = 0,
     device_ctxs = Map.empty, server_ctxs = Map.empty,
     nodes = (\<lambda>_. zero_node\<lparr>attr_handles := (\<lambda>_. \<lparr>attr_value = 5, attr_ccc = 0\<rparr>)\<rparr>),
     packetizers = Map.empty, scratches = Map.empty\<rparr>"

definition gw_wired :: gw_world where
  "gw_wired = gw_boot\<lparr>trace := [Malloc, Malloc, Packetizer_start (Some 1)], next_addr := 3,
     downlinks := [1 \<mapsto> new_downlink 0], scratches := [0 \<mapsto> 20], packetizers := [2 \<mapsto> (Fill_downlink, Some 1)],
     nodes := (nodes gw_boot)(0 := (nodes gw_boot 0)\<lparr>downlink_scratch := Some 0, downlink_ctx := Some 1,
       packetizer := Some 2\<rparr>)\<rparr>"

lemma gw_wired_run: "downlink_start small_env 0 gw_boot = (Some 1, gw_wired)"
  by (simp add: downlink_start_def value_handle_def gatt_mtu_malloc_def malloc_def ext_call_def downlink_open_def
      packetizer_start_def put_downlink_def set_node_def gw_boot_def gw_wired_def zero_node_def Let_def
      numeral_2_eq_2 [symmetric])

lemma gw_wired_simps [simp]:
  "downlinks gw_wired = [1 \<mapsto> new_downlink 0]" "slab_used gw_wired = 0" "dl_inv small_env gw_wired"
  "wired 0 1 2 23 gw_wired" "packetizers gw_wired = [2 \<mapsto> (Fill_downlink, Some 1)]"
  "downlink_ctx (nodes gw_wired 0) = Some 1" "packetizer (nodes gw_wired 0) = Some 2"
  by (simp_all add: gw_wired_def gw_boot_def dl_inv_def slab_inv_def fresh_above_def wired_def wf_downlink_def
      held_def new_downlink_def)

lemma small_env_link: "good_link small_env c 23" "faithful small_env"
  by (auto simp: good_link_def faithful_def) (auto simp: small_env_def)

text \<open>A block of \<open>src\<close> has arrived, the last one if \<open>lf\<close>.\<close>

lemma gw_block:
  assumes "length src \<le> 4"
  shows "\<exists>(w :: gw_world) d. downlink_block_cb small_env (\<lambda>_ w. Inr w) src lf (Some 1) gw_wired = Inr (GOLIOTH_OK, w)
    \<and> downlinks w = [1 \<mapsto> d] \<and> segs w d = [(src, lf)] \<and> \<not> complete d \<and> \<not> aborted d \<and> dl_inv small_env w
    \<and> wired 0 1 2 23 w \<and> current_block d = NULL"
proof -
  have d: "downlinks gw_wired 1 = Some (new_downlink 0)" by simp
  from block_cb_push [OF gw_wired_simps(3) d, of src "\<lambda>_ w. Inr w" lf] assms
  obtain w d where w: "downlink_block_cb small_env (\<lambda>_ w. Inr w) src lf (Some 1) gw_wired = Inr (GOLIOTH_OK, w)"
    "downlinks w = [1 \<mapsto> d]" "segs w d = [(src, lf)]" "\<not> complete d" "\<not> aborted d" "dl_inv small_env w"
    "downlink_world.more w = downlink_world.more gw_wired" "current_block d = NULL" by auto
  from gw_wired_simps(4) have "wired 0 1 2 23 w" by (simp add: wired_def more_gw [OF w(7)])
  with w show ?thesis by blast
qed

subsection \<open>The properties\<close>

text \<open>
  Every interleaving of the operations of the downlink keeps the ownership of the blocks,
  with the callback the Bluetooth side really registers: a notification that runs a write,
  meets an error and aborts from inside the callback included.
\<close>

theorem downlink_runs_keep_ownership:
  assumes "dl_run E (downlink_data_available E) w w'" and "dl_inv E w" and "max_block_size E < 2 ^ 31"
  shows "dl_inv E w'"
  by (rule bt_client.run_keeps [OF assms(1,3,2)])

theorem downlink_runs_keep_ownership_witness:
  "\<exists>w' :: gw_world. dl_run small_env (downlink_data_available small_env) gw_wired w' \<and> gw_wired \<noteq> w' \<and> dl_inv small_env w'"
proof -
  from abort_world [OF gw_wired_simps(3), of 1 "new_downlink 0"] obtain w' where
    w': "downlink_abort (Some 1) gw_wired = Inr w'" "downlinks w' = [1 \<mapsto> (new_downlink 0)\<lparr>aborted := True\<rparr>]" by auto
  from step_abort [OF w'(1)] have run: "dl_run small_env (downlink_data_available small_env) gw_wired w'"
    by (rule run_step [OF run_refl])
  have "aborted (the (downlinks w' 1))" "\<not> aborted (the (downlinks gw_wired 1))" using w'(2) by simp_all
  then have "gw_wired \<noteq> w'" by auto
  with run downlink_runs_keep_ownership [OF run gw_wired_simps(3)] show ?thesis by auto
qed

text \<open>What a start leaves behind: a buffer as large as the MTU allowed, and the packetizer of the context.\<close>

lemma start_scratch:
  assumes "downlink_start E c w = (Some a, w1)" and "packetizer (nodes w1 c) \<noteq> NULL"
  shows "\<exists>b p. downlink_scratch (nodes w1 c) = Some b \<and> BT_ATT_OVERHEAD \<le> mtu E (trace w) c
    \<and> scratches w1 b = Some (mtu E (trace w) c - BT_ATT_OVERHEAD) \<and> packetizer (nodes w1 c) = Some p
    \<and> packetizers w1 p = Some (Fill_downlink, Some a)"
  using assms by (auto simp: downlink_start_def gatt_mtu_malloc_def malloc_def ext_call_def downlink_open_def
      packetizer_start_def put_downlink_def set_node_def Let_def split: if_splits)

text \<open>A fill stays inside the buffer it is given.\<close>

lemma fill_inside:
  assumes "dl_inv E w" and "downlinks w a = Some d" and "max_block_size E < 2 ^ 31"
  shows "\<exists>r. fill_cb E Fill_downlink dst (Some a) w = Inr r"
proof (cases "complete d")
  case True
  with assms(2) show ?thesis
    by (simp add: fill_cb_def downlink_packet_fill_cb_def downlink_get_data_def downlink_is_complete_def)
next
  case False
  obtain out r l st where draw: "draw (segs w d) (length dst) = (out, r, l, st)"
    by (cases "draw (segs w d) (length dst)")
  from get_data_world [OF assms(1,2) False assms(3) _ draw, of dst] obtain rc bs k lst w' where
    "downlink_get_data E (Some a) dst (length dst) w = Inr (rc, bs, k, lst, w')" by blast
  then show ?thesis by (simp add: fill_cb_def downlink_packet_fill_cb_def)
qed

text \<open>
  C39: the scratch buffer has the size the MTU allowed when the downlink was started, while each
  write uses the MTU of its own time.  At any time after the start at which the connection still
  has its buffer, its packetizer and its context, a write runs over the end of the buffer
  exactly if the MTU is larger than it was when the downlink was started.  (The packetizer fills the
  buffer up to the size it is told: handing it a smaller buffer counts as the overrun.)
\<close>

theorem mtu_growth_overruns_scratch:
  assumes start: "downlink_start E c w = (Some a, w1)" "packetizer (nodes w1 c) \<noteq> NULL"
    and later: "downlink_scratch (nodes w2 c) = downlink_scratch (nodes w1 c)" "packetizer (nodes w2 c) = packetizer (nodes w1 c)"
      "scratches w2 = scratches w1" "packetizers w2 = packetizers w1" "downlinks w2 a = Some d"
    and "dl_inv E w2" and "max_block_size E < 2 ^ 31"
  shows "write_downlink_characteristic E c w2 = Inl Buffer_overflow \<longleftrightarrow> mtu E (trace w) c < mtu E (trace w2) c"
proof -
  let ?m = "mtu E (trace w2) c"
  from start_scratch [OF start] obtain b p where b: "downlink_scratch (nodes w2 c) = Some b" "BT_ATT_OVERHEAD \<le> mtu E (trace w) c"
    "scratches w2 b = Some (mtu E (trace w) c - BT_ATT_OVERHEAD)" "packetizer (nodes w2 c) = Some p"
    "packetizers w2 p = Some (Fill_downlink, Some a)" using later by auto
  show ?thesis
  proof (cases "mtu E (trace w) c < ?m")
    case True
    with b have "mtu E (trace w) c - BT_ATT_OVERHEAD < ?m - BT_ATT_OVERHEAD" "\<not> ?m < BT_ATT_OVERHEAD" by simp_all
    with b True show ?thesis by (simp add: write_downlink_characteristic_def packetizer_get_def Let_def)
  next
    case False
    then have "\<not> mtu E (trace w) c - BT_ATT_OVERHEAD < ?m - BT_ATT_OVERHEAD" by simp
    moreover from fill_inside [OF assms(8) later(5) assms(9), of "map (garbage E b) [0..<pk_room E (?m - BT_ATT_OVERHEAD)]"]
    obtain r where "fill_cb E Fill_downlink (map (garbage E b) [0..<pk_room E (?m - BT_ATT_OVERHEAD)]) (Some a) w2 = Inr r" by blast
    ultimately show ?thesis
      using b False by (auto simp: write_downlink_characteristic_def packetizer_get_def Let_def split: prod.splits)
  qed
qed

text \<open>The MTU is exchanged after the start.\<close>

definition late_mtu :: env where
  "late_mtu = small_env\<lparr>mtu := (\<lambda>t _. if t = [] then 23 else 247)\<rparr>"

theorem mtu_growth_overruns_scratch_witness:
  "downlink_start late_mtu 0 gw_boot = (Some 1, gw_wired)
     \<and> write_downlink_characteristic late_mtu 0 gw_wired = Inl Buffer_overflow"
proof -
  have start: "downlink_start late_mtu 0 gw_boot = (Some 1, gw_wired)"
    by (simp add: late_mtu_def downlink_start_def value_handle_def gatt_mtu_malloc_def malloc_def ext_call_def downlink_open_def
        packetizer_start_def put_downlink_def set_node_def gw_boot_def gw_wired_def zero_node_def Let_def
        numeral_2_eq_2 [symmetric])
  have "dl_inv late_mtu gw_wired"
    using gw_wired_simps(3) by (simp add: late_mtu_def dl_inv_def slab_inv_def wf_block_def)
  with mtu_growth_overruns_scratch [OF start _ refl refl refl refl, of "new_downlink 0"] start
  show ?thesis by (simp add: late_mtu_def gw_boot_def gw_wired_def)
qed

text \<open>
  A failed write followed by a failed download uses the packetizer after it was finished.
  The write error aborts the downlink and finishes the packetizer; the context lives on,
  because the stream is not complete; when the cloud then ends the download with an error, the
  context's callback starts another write through the finished packetizer.
\<close>

theorem end_after_write_error_faults:
  assumes inv: "dl_inv E w" and wired: "wired c a p m w" and d: "downlinks w a = Some d" "cb_arg d = c"
    and "\<not> complete d" and "current_block d = NULL" and "err \<noteq> 0" and "status \<noteq> GOLIOTH_OK"
    and "\<And>t. BT_ATT_OVERHEAD \<le> mtu E t c"
  shows "\<exists>w1. downlink_write_response_cb E c err w = Inr w1
    \<and> downlink_end_cb (downlink_data_available E) status (Some a) w1 = Inl Use_after_free"
proof -
  from abort_world [OF inv d(1)] assms(5) obtain w1 where w1: "downlink_abort (Some a) w = Inr w1"
    "downlinks w1 = (downlinks w)(a \<mapsto> d\<lparr>aborted := True\<rparr>)" "dl_inv E w1" by auto
  have more: "nodes w1 = nodes w" "packetizers w1 = packetizers w"
    using abort_more [OF w1(1)] more_gw by blast+
  obtain w2 where w2: "downlink_write_response_cb E c err w = Inr w2" "packetizers w2 p = None"
    "packetizer (nodes w2 c) = Some p" "downlinks w2 = downlinks w1" "slab w2 = slab w1" "slab_used w2 = slab_used w1"
    "next_addr w2 = next_addr w1"
    using wired w1(1) more assms(7)
    by (simp add: wired_def downlink_write_response_cb_def downlink_give_up_def packetizer_finish_def bt_finished_def
        Let_def)
  have inv2: "dl_inv E w2" by (rule dl_inv_frame [OF w1(3) w2(5,6,4)]) (simp add: w2(7))
  from w2(4) w1(2) have d2: "downlinks w2 a = Some (d\<lparr>aborted := True\<rparr>)" by simp
  from abort_world [OF inv2 d2] assms(5) obtain w3 where
    w3: "downlink_abort (Some a) w2 = Inr w3" "downlinks w3 a = Some (d\<lparr>aborted := True\<rparr>)"
    by (auto simp: d2)
  have "nodes w3 = nodes w2" "packetizers w3 = packetizers w2" using abort_more [OF w3(1)] more_gw by blast+
  then have "downlink_data_available E c w3 = Inl Use_after_free"
    using w2(2,3) assms(9) [of "trace w3"]
    by (simp add: downlink_data_available_def write_downlink_characteristic_def packetizer_get_def Let_def)
  with w2(1) w3 d(2) assms(6,8) show ?thesis by (intro exI [of _ w2]) (simp add: downlink_end_cb_def)
qed

theorem end_after_write_error_faults_witness:
  "\<exists>w1. downlink_write_response_cb small_env 0 1 gw_wired = Inr w1
     \<and> downlink_end_cb (downlink_data_available small_env) GOLIOTH_ERR_OTHER (Some 1) w1 = Inl Use_after_free"
  by (rule end_after_write_error_faults [where d = "new_downlink 0", OF gw_wired_simps(3,4)]) simp_all

text \<open>
  The Bluetooth side never learns that the cloud side has given the downlink up.  When a
  block cannot be stored, the block callback frees the context; the node record still points
  to it, and the next write response, successful or not, uses it after it was freed.
\<close>

theorem response_after_give_up_faults:
  assumes "dl_inv E w" and "wired c a p m w" and "downlinks w a = Some d" and "num_blocks E \<le> slab_used w"
  shows "\<exists>st w1. downlink_block_cb E (downlink_data_available E) src lst (Some a) w = Inr (st, w1)
    \<and> st \<noteq> GOLIOTH_OK \<and> (\<forall>err. downlink_write_response_cb E c err w1 = Inl Use_after_free)"
proof -
  from block_cb_give_up [OF assms(1,3), of "downlink_data_available E" src lst] assms(4) obtain w1 where
    w1: "downlink_block_cb E (downlink_data_available E) src lst (Some a) w
        = Inr (if aborted d then GOLIOTH_ERR_NACK else GOLIOTH_ERR_MEM_ALLOC, w1)"
      "downlinks w1 = (downlinks w)(a := None)" by auto
  have "nodes w1 = nodes w"
  proof -
    from w1(1) assms(3,4) obtain w2 w3 where w23: "flush_block_queue (Some a) w = Inr w2" "downlink_close (Some a) w2 = Inr w1"
      by (auto simp: downlink_block_cb_def block_alloc_def bnd_simps split: if_splits)
    from w23(1) have "downlink_world.more w2 = downlink_world.more w"
      by (auto simp: flush_block_queue_def bnd_simps dest!: free_each_more)
    with close_more [OF w23(2)] show ?thesis using more_gw(1) by metis
  qed
  with assms(2) w1 show ?thesis
    by (intro exI [of _ "if aborted d then GOLIOTH_ERR_NACK else GOLIOTH_ERR_MEM_ALLOC"] exI [of _ w1])
      (simp add: downlink_write_response_cb_def downlink_give_up_def downlink_abort_def downlink_is_complete_def wired_def)
qed

theorem response_after_give_up_faults_witness:
  "\<exists>st w1. downlink_block_cb (small_env\<lparr>num_blocks := 0\<rparr>) (downlink_data_available (small_env\<lparr>num_blocks := 0\<rparr>))
      [1] False (Some 1) gw_wired = Inr (st, w1) \<and> st \<noteq> GOLIOTH_OK
     \<and> (\<forall>err. downlink_write_response_cb (small_env\<lparr>num_blocks := 0\<rparr>) 0 err w1 = Inl Use_after_free)"
  by (rule response_after_give_up_faults [where d = "new_downlink 0", OF _ gw_wired_simps(4)])
    (simp_all add: gw_wired_def gw_boot_def dl_inv_def slab_inv_def fresh_above_def wf_downlink_def held_def new_downlink_def)

end
