(* ===== verification/Uplink_Stream.thy ===== *)
theory Uplink_Stream
  imports Uplink
begin

text \<open>
  What an uplink promises the node: the bytes written reach the cloud as consecutive blocks
  of the maximum size, numbered from 0, one in flight at a time, with the end mark on the
  last one and on no other; success is reported exactly when all of them are acknowledged.
\<close>

subsection \<open>The ledger\<close>

text \<open>
  The blocks handed to the cloud client in session \<open>s\<close> since the trace had length \<open>t0\<close>, with
  their index and their end mark.
\<close>

definition block_of :: "int \<Rightarrow> ext_call \<Rightarrow> (32 word \<times> bytes \<times> bool) list" where
  "block_of s c = (case c of Uplink_block s' i b l \<Rightarrow> if s' = s then [(i, b, l)] else [] | _ \<Rightarrow> [])"

definition up_sent :: "int \<Rightarrow> nat \<Rightarrow> 'a ext_world_scheme \<Rightarrow> (32 word \<times> bytes \<times> bool) list" where
  "up_sent s t0 w = concat (map (block_of s) (drop t0 (trace w)))"

text \<open>Blocks numbered in order; the one that completes a stream of \<open>tot\<close> blocks is marked.\<close>

definition stamped :: "nat \<Rightarrow> bytes list \<Rightarrow> (32 word \<times> bytes \<times> bool) list" where
  "stamped tot bs = map (\<lambda>k. (of_nat k, bs ! k, Suc k = tot)) [0..<length bs]"

lemma stamped_Nil [simp]: "stamped tot [] = []"
  by (simp add: stamped_def)

lemma length_stamped [simp]: "length (stamped tot bs) = length bs"
  by (simp add: stamped_def)

lemma stamped_bytes [simp]: "map (fst \<circ> snd) (stamped tot bs) = bs"
  by (simp add: stamped_def comp_def map_nth)

lemma stamped_snoc:
  "stamped tot (bs @ [b]) = stamped tot bs @ [(of_nat (length bs), b, Suc (length bs) = tot)]"
  by (simp add: stamped_def nth_append)

lemma stamped_open: "length bs < tot \<Longrightarrow> stamped tot bs = stamped 0 bs"
  by (simp add: stamped_def)

lemma block_of_simps [simp]:
  "block_of s (Uplink_block s' i b l) = (if s' = s then [(i, b, l)] else [])"
  "block_of s Malloc = []" "block_of s (Uplink_start p) = []" "block_of s (Uplink_finish x) = []"
  by (simp_all add: block_of_def)

lemma up_sent_snoc:
  "t0 \<le> length (trace w) \<Longrightarrow> trace w' = trace w @ cs \<Longrightarrow>
     up_sent s t0 w' = up_sent s t0 w @ concat (map (block_of s) cs)"
  by (simp add: up_sent_def)

lemma up_sent_cong: "trace w' = trace w \<Longrightarrow> up_sent s t0 w' = up_sent s t0 w"
  by (simp add: up_sent_def)

subsection \<open>The invariant\<close>

text \<open>\<open>collects E ds b xs\<close>: the bytes \<open>xs\<close> fill the blocks \<open>ds\<close>, with \<open>b\<close> still being written.\<close>

definition collects :: "'e env_scheme \<Rightarrow> bytes list \<Rightarrow> bytes \<Rightarrow> bytes \<Rightarrow> bool" where
  "collects E ds b xs \<longleftrightarrow> xs = concat ds @ b \<and> (\<forall>d \<in> set ds. length d = max_block_size E)
     \<and> length b \<le> max_block_size E \<and> (b = [] \<longrightarrow> ds = [])"

lemma collects_chunks:
  "wf_env E \<Longrightarrow> collects E ds b xs \<Longrightarrow> xs \<noteq> [] \<Longrightarrow> chunks (max_block_size E) xs = ds @ [b]"
  unfolding collects_def by (cases "b = []") (auto intro!: chunks_concat_full)

lemma collects_more:
  assumes "collects E ds b xs" and "length b + length ys \<le> max_block_size E" and "ys \<noteq> []"
  shows "collects E ds (b @ ys) (xs @ ys)"
  using assms by (simp add: collects_def)

lemma collects_next:
  assumes "collects E ds b xs" and "length b = max_block_size E" and "ys \<noteq> []"
    and "length ys \<le> max_block_size E"
  shows "collects E (ds @ [b]) ys (xs @ ys)"
  using assms by (auto simp: collects_def)

definition payloads :: "(32 word \<times> bytes \<times> bool) list \<Rightarrow> bytes list" where
  "payloads sent = map (fst \<circ> snd) sent"

lemma payloads_simps [simp]:
  "payloads [] = []" "payloads (s @ t) = payloads s @ payloads t" "payloads [(i, b, l)] = [b]"
  "length (payloads s) = length s" "payloads (stamped n bs) = bs"
  by (simp_all add: payloads_def)

text \<open>The number of blocks the stream will have; 0 as long as it is open.\<close>

definition up_total :: "'e env_scheme \<Rightarrow> uplink \<Rightarrow> bytes \<Rightarrow> nat" where
  "up_total E u written = (if up_closed u then length (chunks (max_block_size E) written) else 0)"

definition up_data :: "'e env_scheme \<Rightarrow> uplink \<Rightarrow> bytes list \<Rightarrow> bytes \<Rightarrow> bool" where
  "up_data E u sent written \<longleftrightarrow> (case wblock u of
       Some b \<Rightarrow> \<not> up_closed u \<and> collects E (sent @ up_queue u) b written
     | None \<Rightarrow> up_closed u \<and> written \<noteq> [] \<and> sent @ up_queue u = chunks (max_block_size E) written)"

definition up_flight :: "uplink \<Rightarrow> bytes list \<Rightarrow> bool" where
  "up_flight u sent \<longleftrightarrow> rblock u = (if up_sending u then Some (last sent) else None)
     \<and> (up_sending u \<longrightarrow> sent \<noteq> [])"

definition up_inv :: "'e env_scheme \<Rightarrow> int \<Rightarrow> nat \<Rightarrow> uplink \<Rightarrow> bytes \<Rightarrow> 'a ext_world_scheme \<Rightarrow> bool" where
  "up_inv E s t0 u written w \<longleftrightarrow> session u = s \<and> t0 \<le> length (trace w)
     \<and> up_sent s t0 w = stamped (up_total E u written) (payloads (up_sent s t0 w))
     \<and> block_idx u = of_nat (length (up_sent s t0 w))
     \<and> up_data E u (payloads (up_sent s t0 w)) written
     \<and> up_flight u (payloads (up_sent s t0 w))"

text \<open>Nothing waits for a send that nobody will start.\<close>

definition up_live :: "uplink \<Rightarrow> bool" where
  "up_live u \<longleftrightarrow> up_sending u \<or> (up_queue u = [] \<and> \<not> up_closed u)"

lemma put_uplink_simps [simp]:
  "uplinks (put_uplink a u w) = (uplinks w)(a \<mapsto> u)" "trace (put_uplink a u w) = trace w"
  "pblocks_live (put_uplink a u w) = pblocks_live w" "next_addr (put_uplink a u w) = next_addr w"
  "downlinks (put_uplink a u w) = downlinks w" "slab (put_uplink a u w) = slab w"
  by (simp_all add: put_uplink_def)

lemma put_uplink_twice [simp]: "put_uplink a u (put_uplink a v w) = put_uplink a u w"
  by (simp add: put_uplink_def)

lemma up_inv_cong:
  "trace w' = trace w \<Longrightarrow> up_inv E s t0 u written w' = up_inv E s t0 u written w"
  by (simp add: up_inv_def up_sent_cong [of w' w])

subsection \<open>Sending the next block\<close>

lemma process_busy: "uplinks w a = Some u \<Longrightarrow> up_sending u \<Longrightarrow> process_uplink E ecb (Some a) w = Inr w"
  by (simp add: process_uplink_def)

lemma process_rest:
  assumes "uplinks w a = Some u" and "\<not> up_sending u" and "up_queue u = []" and "\<not> up_closed u"
  shows "process_uplink E ecb (Some a) w = Inr (put_uplink a u w)"
proof -
  have same: "u\<lparr>up_sending := False\<rparr> = u" using assms(2) by (cases u) simp
  have "process_uplink E ecb (Some a) w = Inr (put_uplink a (u\<lparr>up_sending := False\<rparr>) w)"
    using assms by (simp add: process_uplink_def Let_def)
  then show ?thesis unfolding same .
qed

lemma process_end:
  assumes "uplinks w a = Some u" and "\<not> up_sending u" and "up_queue u = []" and "up_closed u"
  shows "process_uplink E ecb (Some a) w = bnd (ecb UPLINK_SUCCESS (end_cb_arg u)
      (put_uplink a (u\<lparr>up_sending := True\<rparr>) w)) (cleanup_uplink E (Some a))"
  using assms by (simp add: process_uplink_def Let_def)

text \<open>The world and the uplink when a block is on its way.\<close>

definition launched :: "addr \<Rightarrow> uplink \<Rightarrow> bytes \<Rightarrow> bytes list \<Rightarrow> 'a uplink_world_scheme \<Rightarrow> 'a uplink_world_scheme" where
  "launched a u b q w = put_uplink a
     (u\<lparr>up_sending := True, up_queue := q, rblock := Some b, block_idx := block_idx u + 1\<rparr>)
     (w\<lparr>trace := trace w @ [Uplink_block (session u) (block_idx u) b (q = [] \<and> up_closed u)]\<rparr>)"

lemma process_send:
  assumes "uplinks w a = Some u" and "\<not> up_sending u" and "up_queue u = b # q" and "b \<noteq> []" and "cloud E"
  shows "process_uplink E ecb (Some a) w =
    (if ret E (trace w) (Uplink_block (session u) (block_idx u) b (q = [] \<and> up_closed u)) = 0
     then Inr (launched a u b q w)
     else bnd (ecb UPLINK_ERROR_LOCAL (end_cb_arg u) (launched a u b q w)) (cleanup_uplink E (Some a)))"
  using assms by (simp add: process_uplink_def launched_def Let_def ext_call_def)

lemma launched_inv:
  assumes inv: "up_inv E s t0 u written w" and q: "up_queue u = b # q"
  shows "\<exists>u'. uplinks (launched a u b q w) = (uplinks w)(a \<mapsto> u') \<and> up_inv E s t0 u' written (launched a u b q w)
    \<and> up_sending u' \<and> up_closed u' = up_closed u \<and> end_cb_arg u' = end_cb_arg u
    \<and> up_sent s t0 (launched a u b q w) = up_sent s t0 w
        @ [(of_nat (length (up_sent s t0 w)), b, q = [] \<and> up_closed u)]"
proof -
  let ?S = "up_sent s t0 w"
  let ?f = "(of_nat (length ?S), b, q = [] \<and> up_closed u) :: 32 word \<times> bytes \<times> bool"
  define u' where "u' = u\<lparr>up_sending := True, up_queue := q, rblock := Some b, block_idx := block_idx u + 1\<rparr>"
  have i: "session u = s" "t0 \<le> length (trace w)" "?S = stamped (up_total E u written) (payloads ?S)"
    "block_idx u = of_nat (length ?S)" "up_data E u (payloads ?S) written"
    using inv by (simp_all add: up_inv_def)
  have sent: "up_sent s t0 (launched a u b q w) = ?S @ [?f]"
    using up_sent_snoc [OF i(2), of "launched a u b q w"] i(1,4) by (simp add: launched_def)
  have data: "up_data E u' (payloads (?S @ [?f])) written"
    using i(5) q by (simp add: up_data_def u'_def split: option.splits)
  have mark: "(q = [] \<and> up_closed u) = (Suc (length ?S) = up_total E u written)"
  proof (cases "up_closed u")
    case True
    with i(5) q have "payloads ?S @ b # q = chunks (max_block_size E) written"
      by (auto simp: up_data_def split: option.splits)
    from arg_cong [OF this, of length] True show ?thesis by (cases q) (auto simp: up_total_def)
  qed (simp add: up_total_def)
  have "?S @ [?f] = stamped (up_total E u' written) (payloads (?S @ [?f]))"
    using i(3) mark by (simp add: stamped_snoc u'_def up_total_def)
  then have "up_inv E s t0 u' written (launched a u b q w)"
    unfolding up_inv_def sent using data i by (simp add: u'_def up_flight_def launched_def)
  with sent show ?thesis
    by (intro exI [of _ u'] conjI) (simp_all add: launched_def u'_def)
qed

text \<open>Running an operation with this callback shows that it does not end the uplink.\<close>

definition no_end :: "'a end_cb" where
  "no_end r c w = Inl No_progress"

lemma up_inv_unsent:
  assumes "up_inv E s t0 u written w" and "wf_env E" and d: "d \<in> set (up_queue u)"
  shows "d \<noteq> []"
proof (cases "wblock u")
  case None
  with assms(1) have "payloads (up_sent s t0 w) @ up_queue u = chunks (max_block_size E) written"
    by (simp add: up_inv_def up_data_def)
  from arg_cong [OF this, of set] d chunks_nonempty show ?thesis by auto
next
  case (Some b)
  with assms have "length d = max_block_size E" "0 < max_block_size E"
    by (auto simp: up_inv_def up_data_def collects_def wf_env_def)
  then show ?thesis by auto
qed

lemma process_no_end:
  assumes u: "uplinks w a = Some u" and inv: "up_inv E s t0 u written w" and "cloud E" and "wf_env E"
    and run: "process_uplink E no_end (Some a) w = Inr w'"
  shows "\<exists>u'. uplinks w' = (uplinks w)(a \<mapsto> u') \<and> up_inv E s t0 u' written w' \<and> up_live u'
    \<and> up_closed u' = up_closed u \<and> end_cb_arg u' = end_cb_arg u"
proof (cases "up_sending u")
  case True
  with process_busy [OF u True, of E no_end] u inv run show ?thesis
    by (intro exI [of _ u]) (auto simp: up_live_def fun_upd_idem)
next
  case idle: False
  show ?thesis
  proof (cases "up_queue u")
    case Nil
    with run process_end [OF u idle Nil, of E no_end] have "\<not> up_closed u" by (auto simp: no_end_def)
    with run process_rest [OF u idle Nil, of E no_end] Nil inv show ?thesis
      by (intro exI [of _ u]) (auto simp: up_live_def up_inv_cong [of "put_uplink a u w" w])
  next
    case (Cons b q)
    with up_inv_unsent [OF inv assms(4)] have "b \<noteq> []" by simp
    with run process_send [OF u idle Cons _ assms(3), of no_end] have "w' = launched a u b q w"
      by (auto simp: no_end_def split: if_splits)
    with launched_inv [OF inv Cons] show ?thesis by (auto simp: up_live_def)
  qed
qed

subsection \<open>Writing\<close>

lemma up_inv_extend:
  assumes "trace w' = trace w @ cs" and "concat (map (block_of s) cs) = []"
    and "up_inv E s t0 u written w"
  shows "up_inv E s t0 u written w'" and "up_sent s t0 w' = up_sent s t0 w"
proof -
  show same: "up_sent s t0 w' = up_sent s t0 w"
    using assms up_sent_snoc [OF _ assms(1), of t0 s] by (simp add: up_inv_def del: concat_eq_Nil_conv)
  show "up_inv E s t0 u written w'" using assms(1,3) unfolding up_inv_def same by simp
qed

lemma up_inv_fill:
  assumes "up_inv E s t0 u written w" and "wblock u = Some b" and "ys \<noteq> []"
    and "length b + length ys \<le> max_block_size E"
  shows "up_inv E s t0 (u\<lparr>wblock := Some (b @ ys)\<rparr>) (written @ ys) w"
  using assms collects_more
  by (auto simp: up_inv_def up_data_def up_flight_def up_total_def)

lemma up_inv_next:
  assumes "up_inv E s t0 u written w" and "wblock u = Some b" and "ys \<noteq> []"
    and "length b = max_block_size E" and "length ys \<le> max_block_size E"
  shows "up_inv E s t0 (u\<lparr>up_queue := up_queue u @ [b], wblock := Some ys\<rparr>) (written @ ys) w"
  using assms collects_next [of E "payloads (up_sent s t0 w) @ up_queue u" b written ys]
  by (auto simp: up_inv_def up_data_def up_flight_def up_total_def)

text \<open>What a write leaves behind when no block could be allocated: only full blocks.\<close>

definition cut_short :: "'e env_scheme \<Rightarrow> int \<Rightarrow> nat \<Rightarrow> uplink \<Rightarrow> bytes \<Rightarrow> bytes \<Rightarrow> 'a ext_world_scheme \<Rightarrow> bool" where
  "cut_short E s t0 u written payload w \<longleftrightarrow> wblock u = None \<and> \<not> up_closed u \<and> up_queue u \<noteq> []
     \<and> session u = s \<and> t0 \<le> length (trace w) \<and> block_idx u = of_nat (length (up_sent s t0 w))
     \<and> up_sent s t0 w = stamped 0 (payloads (up_sent s t0 w)) \<and> up_flight u (payloads (up_sent s t0 w))
     \<and> (\<exists>k < length payload. concat (payloads (up_sent s t0 w) @ up_queue u) = written @ take k payload)
     \<and> (\<forall>d \<in> set (payloads (up_sent s t0 w) @ up_queue u). length d = max_block_size E)"

lemma write_round_fill:
  assumes "uplinks w a = Some u" and "wblock u = Some b" and "length b < max_block_size E" and "p \<noteq> []"
  shows "write_loop E (Some a) p w = write_loop E (Some a) (drop (max_block_size E - length b) p)
      (put_uplink a (u\<lparr>wblock := Some (b @ take (max_block_size E - length b) p)\<rparr>) w)"
  using assms by (simp add: write_loop.simps [of E "Some a" p w] min_def Let_def)

lemma pouch_block_alloc_cases:
  obtains (NULL) "pouch_block_alloc E w = (None, w\<lparr>trace := trace w @ [Malloc]\<rparr>)"
  | (fresh) "pouch_block_alloc E w = (Some [], w\<lparr>trace := trace w @ [Malloc],
      next_addr := Suc (next_addr w), pblocks_live := Suc (pblocks_live w)\<rparr>)"
  by (cases E w rule: malloc_cases) (auto simp: pouch_block_alloc_def)

lemma write_round_full:
  assumes "uplinks w a = Some u" and "wblock u = Some b" and "length b = max_block_size E" and "p \<noteq> []"
    and "0 < max_block_size E"
  defines "w1 \<equiv> put_uplink a (u\<lparr>up_queue := up_queue u @ [b], wblock := None\<rparr>) w"
  shows "pouch_block_alloc E w1 = (None, w2) \<Longrightarrow> write_loop E (Some a) p w = Inr (False, w2)"
    and "pouch_block_alloc E w1 = (Some [], w2) \<Longrightarrow> write_loop E (Some a) p w =
      write_loop E (Some a) (drop (max_block_size E) p)
        (put_uplink a (u\<lparr>up_queue := up_queue u @ [b], wblock := Some (take (max_block_size E) p)\<rparr>) w2)"
proof -
  have w1: "submit_block (Some a) w = Inr w1"
    "uplinks w1 a = Some (u\<lparr>up_queue := up_queue u @ [b], wblock := None\<rparr>)"
    using assms(1,2) by (simp_all add: submit_block_def w1_def)
  note round = write_loop.simps [of E "Some a" p w]
  show "pouch_block_alloc E w1 = (None, w2) \<Longrightarrow> write_loop E (Some a) p w = Inr (False, w2)"
    using assms(1-4) w1 by (simp add: round)
  show "pouch_block_alloc E w1 = (Some [], w2) \<Longrightarrow> write_loop E (Some a) p w =
      write_loop E (Some a) (drop (max_block_size E) p)
        (put_uplink a (u\<lparr>up_queue := up_queue u @ [b], wblock := Some (take (max_block_size E) p)\<rparr>) w2)"
    using assms(1-5) w1 by (simp add: round min_def Let_def)
qed

definition write_post :: "'e env_scheme \<Rightarrow> addr \<Rightarrow> int \<Rightarrow> nat \<Rightarrow> uplink \<Rightarrow> bytes \<Rightarrow> bytes
    \<Rightarrow> 'a uplink_world_scheme \<Rightarrow> bool \<Rightarrow> 'a uplink_world_scheme \<Rightarrow> bool" where
  "write_post E a s t0 u written p w ok w' \<longleftrightarrow> (\<exists>u'. uplinks w' = (uplinks w)(a \<mapsto> u')
     \<and> \<not> up_closed u' \<and> up_sending u' = up_sending u \<and> rblock u' = rblock u
     \<and> end_cb_arg u' = end_cb_arg u \<and> up_sent s t0 w' = up_sent s t0 w
     \<and> pblocks_live w' + own_blocks u = pblocks_live w + own_blocks u'
     \<and> (if ok then up_inv E s t0 u' (written @ p) w' else cut_short E s t0 u' written p w'))"

lemma cut_short_more:
  "cut_short E s t0 u (written @ take n p) (drop n p) w \<Longrightarrow> n \<le> length p \<Longrightarrow> cut_short E s t0 u written p w"
  unfolding cut_short_def
  by (elim conjE exE, intro conjI, simp_all) (metis add.commute less_diff_conv take_add)

lemma write_post_trans:
  assumes "write_post E a s t0 u1 (written @ take n p) (drop n p) w1 ok w'" and "n \<le> length p"
    and "uplinks w1 = (uplinks w)(a \<mapsto> u1)" and "up_sending u1 = up_sending u" and "rblock u1 = rblock u"
    and "end_cb_arg u1 = end_cb_arg u" and "up_sent s t0 w1 = up_sent s t0 w"
    and "pblocks_live w1 + own_blocks u = pblocks_live w + own_blocks u1"
  shows "write_post E a s t0 u written p w ok w'"
proof -
  from assms(1) obtain u' where u': "uplinks w' = (uplinks w1)(a \<mapsto> u')" "\<not> up_closed u'"
    "up_sending u' = up_sending u1" "rblock u' = rblock u1" "end_cb_arg u' = end_cb_arg u1"
    "up_sent s t0 w' = up_sent s t0 w1"
    "pblocks_live w' + own_blocks u1 = pblocks_live w1 + own_blocks u'"
    "if ok then up_inv E s t0 u' ((written @ take n p) @ drop n p) w'
     else cut_short E s t0 u' (written @ take n p) (drop n p) w'"
    unfolding write_post_def by blast
  from u'(8) have "if ok then up_inv E s t0 u' (written @ p) w' else cut_short E s t0 u' written p w'"
    using cut_short_more [OF _ assms(2)] by (simp split: if_splits)
  with u' assms(3-8) show ?thesis unfolding write_post_def by (intro exI [of _ u']) auto
qed

lemma write_loop_world:
  assumes "uplinks w a = Some u" and "up_inv E s t0 u written w" and "\<not> up_closed u" and "wf_env E"
  shows "\<exists>ok w'. write_loop E (Some a) p w = Inr (ok, w') \<and> write_post E a s t0 u written p w ok w'"
  using assms
proof (induction "length p" arbitrary: p w u written rule: less_induct)
  case less
  note u = less.prems(1) and inv = less.prems(2)
  show ?case
  proof (cases "p = []")
    case True
    with less.prems have "write_post E a s t0 u written p w True w"
      unfolding write_post_def by (intro exI [of _ u]) (simp add: fun_upd_idem)
    with True show ?thesis by (auto simp: write_loop.simps [of E "Some a" "[]"])
  next
    case p: False
    from inv less.prems(3) obtain b where b: "wblock u = Some b" "length b \<le> max_block_size E"
      by (auto simp: up_inv_def up_data_def collects_def split: option.splits)
    have pos: "0 < max_block_size E" using less.prems(4) by simp
    show ?thesis
    proof (cases "length b = max_block_size E")
      case False
      define n where "n = min (length p) (max_block_size E - length b)"
      define u1 where "u1 = u\<lparr>wblock := Some (b @ take n p)\<rparr>"
      have n: "n \<le> length p" "0 < n" "length b + n \<le> max_block_size E"
        using p b(2) False by (auto simp: n_def)
      have same: "take (max_block_size E - length b) p = take n p" "drop (max_block_size E - length b) p = drop n p"
        by (auto simp: n_def min_def)
      have run: "write_loop E (Some a) p w = write_loop E (Some a) (drop n p) (put_uplink a u1 w)"
        using write_round_fill [OF u b(1) _ p, of E] b(2) False by (simp add: same u1_def)
      have "up_inv E s t0 u1 (written @ take n p) (put_uplink a u1 w)"
        using up_inv_fill [OF inv b(1), of "take n p"] n p
        by (simp add: u1_def up_inv_cong [of "put_uplink a x w" w for x])
      with less.hyps [of "drop n p" "put_uplink a u1 w" u1 "written @ take n p"] n p less.prems
      obtain ok w' where r: "write_loop E (Some a) (drop n p) (put_uplink a u1 w) = Inr (ok, w')"
        "write_post E a s t0 u1 (written @ take n p) (drop n p) (put_uplink a u1 w) ok w'"
        by (auto simp: u1_def)
      have "write_post E a s t0 u written p w ok w'"
        by (rule write_post_trans [OF r(2) n(1)])
          (simp_all add: u1_def b own_blocks_def up_sent_cong [of "put_uplink a x w" w for x])
      with run r(1) show ?thesis by auto
    next
      case full: True
      define w1 where "w1 = put_uplink a (u\<lparr>up_queue := up_queue u @ [b], wblock := None\<rparr>) w"
      define n where "n = min (length p) (max_block_size E)"
      have n: "n \<le> length p" "0 < n" using p pos by (auto simp: n_def)
      have same: "take (max_block_size E) p = take n p" "drop (max_block_size E) p = drop n p"
        by (auto simp: n_def min_def)
      show ?thesis
      proof (cases E w1 rule: pouch_block_alloc_cases)
        case NULL
        let ?w2 = "w1\<lparr>trace := trace w1 @ [Malloc]\<rparr>"
        have sent: "up_sent s t0 ?w2 = up_sent s t0 w"
          using up_inv_extend(2) [of ?w2 w "[Malloc]" s E t0 u written] inv by (simp add: w1_def)
        have full_blocks: "concat (payloads (up_sent s t0 w) @ up_queue u @ [b]) = written @ take 0 p"
          "\<forall>d \<in> set (payloads (up_sent s t0 w) @ up_queue u @ [b]). length d = max_block_size E"
          using inv b full by (auto simp: up_inv_def up_data_def collects_def)
        have fields: "session u = s" "t0 \<le> Suc (length (trace w))" "block_idx u = of_nat (length (up_sent s t0 w))"
          "stamped 0 (payloads (up_sent s t0 w)) = up_sent s t0 w"
          "up_flight (u\<lparr>up_queue := up_queue u @ [b], wblock := None\<rparr>) (payloads (up_sent s t0 w))"
          using inv less.prems(3) by (simp_all add: up_inv_def up_total_def up_flight_def)
        have "write_post E a s t0 u written p w False ?w2"
          unfolding write_post_def cut_short_def sent using full_blocks b less.prems(3) p fields
          by (intro exI [of _ "u\<lparr>up_queue := up_queue u @ [b], wblock := None\<rparr>"])
            (auto simp: w1_def own_blocks_def intro: exI [of _ 0])
        with write_round_full(1) [OF u b(1) full p pos] NULL show ?thesis by (auto simp: w1_def)
      next
        case fresh
        define w2 where "w2 = w1\<lparr>trace := trace w1 @ [Malloc], next_addr := Suc (next_addr w1),
          pblocks_live := Suc (pblocks_live w1)\<rparr>"
        define u1 where "u1 = u\<lparr>up_queue := up_queue u @ [b], wblock := Some (take n p)\<rparr>"
        have run: "write_loop E (Some a) p w = write_loop E (Some a) (drop n p) (put_uplink a u1 w2)"
          using write_round_full(2) [OF u b(1) full p pos] fresh by (simp add: w1_def w2_def u1_def same)
        have i1: "up_inv E s t0 u1 (written @ take n p) w"
          unfolding u1_def using up_inv_next [OF inv b(1) _ full, of "take n p"] p n by (simp add: n_def)
        have tr: "trace (put_uplink a u1 w2) = trace w @ [Malloc]" by (simp add: w2_def w1_def)
        from up_inv_extend [OF tr _ i1] have i2: "up_inv E s t0 u1 (written @ take n p) (put_uplink a u1 w2)"
          "up_sent s t0 (put_uplink a u1 w2) = up_sent s t0 w" by simp_all
        from less.hyps [of "drop n p" "put_uplink a u1 w2" u1 "written @ take n p"] i2(1) n p less.prems
        obtain ok w' where r: "write_loop E (Some a) (drop n p) (put_uplink a u1 w2) = Inr (ok, w')"
          "write_post E a s t0 u1 (written @ take n p) (drop n p) (put_uplink a u1 w2) ok w'"
          by (auto simp: u1_def)
        have "write_post E a s t0 u written p w ok w'"
          by (rule write_post_trans [OF r(2) n(1) _ _ _ _ i2(2)])
            (simp_all add: u1_def b own_blocks_def w2_def w1_def)
        with run r(1) show ?thesis by auto
      qed
    qed
  qed
qed

subsection \<open>Closing\<close>

lemma up_inv_close:
  assumes "up_inv E s t0 u written w" and "wblock u = Some b" and "written \<noteq> []" and "wf_env E"
  shows "up_inv E s t0 (u\<lparr>up_closed := True, up_queue := up_queue u @ [b], wblock := None\<rparr>) written w"
proof -
  let ?S = "up_sent s t0 w"
  from assms have c: "collects E (payloads ?S @ up_queue u) b written" "\<not> up_closed u"
    by (auto simp: up_inv_def up_data_def)
  have ch: "chunks (max_block_size E) written = payloads ?S @ up_queue u @ [b]"
    using collects_chunks [OF assms(4) c(1) assms(3)] by simp
  then have "stamped (length (chunks (max_block_size E) written)) (payloads ?S) = stamped 0 (payloads ?S)"
    by (intro stamped_open) simp
  with assms c ch show ?thesis
    by (simp add: up_inv_def up_total_def up_data_def up_flight_def)
qed

lemma close_open:
  assumes "uplinks w a = Some u" and "wblock u = Some b" and "\<not> up_closed u"
  shows "uplink_close E ecb (Some a) w = process_uplink E ecb (Some a)
    (put_uplink a (u\<lparr>up_closed := True, up_queue := up_queue u @ [b], wblock := None\<rparr>) w)"
  using assms by (simp add: uplink_close_def submit_block_def Let_def)

lemma close_again:
  assumes "uplinks w a = Some u" and "up_closed u"
  shows "uplink_close E ecb (Some a) w = process_uplink E ecb (Some a) w"
proof -
  have same: "put_uplink a (u\<lparr>up_closed := True\<rparr>) w = w"
    using assms by (cases u) (simp add: put_uplink_def fun_upd_idem)
  show ?thesis using assms by (simp add: uplink_close_def same Let_def)
qed

subsection \<open>The life of an uplink\<close>

text \<open>
  \<open>up_run E a s t0 written c w\<close>: the uplink \<open>a\<close>, opened with session \<open>s\<close> when the trace had
  length \<open>t0\<close>, has been written \<open>written\<close>, is closed if \<open>c\<close>, and has not ended; the world is
  \<open>w\<close>.  Writes, the close, acknowledgements of the cloud and whatever the rest of
  the program does in between (other connections, other calls) come in any order.
\<close>

inductive up_run :: "'e env_scheme \<Rightarrow> addr \<Rightarrow> int \<Rightarrow> nat \<Rightarrow> bytes \<Rightarrow> bool \<Rightarrow> 'a uplink_world_scheme \<Rightarrow> bool"
  for E a s t0 where
  up_opened: "cloud E \<Longrightarrow> uplink_open E dl arg w0 = (Some a, w) \<Longrightarrow> uplinks w a = Some u \<Longrightarrow>
    s = session u \<Longrightarrow> t0 = length (trace w) \<Longrightarrow> up_run E a s t0 [] False w"
| up_written: "up_run E a s t0 written False w \<Longrightarrow> (lst \<Longrightarrow> written @ p \<noteq> []) \<Longrightarrow>
    uplink_write E no_end (Some a) p lst w = Inr (0, w') \<Longrightarrow> up_run E a s t0 (written @ p) lst w'"
| up_close: "up_run E a s t0 written c w \<Longrightarrow> written \<noteq> [] \<Longrightarrow>
    uplink_close E no_end (Some a) w = Inr w' \<Longrightarrow> up_run E a s t0 written True w'"
| up_acked: "up_run E a s t0 written c w \<Longrightarrow>
    block_upload_callback E no_end GOLIOTH_OK (Some a) w = Inr w' \<Longrightarrow> up_run E a s t0 written c w'"
| up_other: "up_run E a s t0 written c w \<Longrightarrow> uplinks w' a = uplinks w a \<Longrightarrow>
    trace w' = trace w @ cs \<Longrightarrow> concat (map (block_of s) cs) = [] \<Longrightarrow> up_run E a s t0 written c w'"

lemma open_cases:
  assumes run: "uplink_open E dl arg w0 = (Some a, w)" and "cloud E"
  obtains sid w1 where "w = put_uplink a (new_uplink sid arg) w1" and "sid \<noteq> 0" and "uplinks w1 = uplinks w0"
    and "a = next_addr w0" and "pblocks_live w1 = Suc (pblocks_live w0)"
    and "trace w1 = trace w0 @ [Malloc, Malloc, Uplink_start dl]"
    and "next_addr w1 = Suc (Suc (next_addr w0))"
proof -
  obtain x where x: "malloc E w0 = (Some (next_addr w0), x)" "trace x = trace w0 @ [Malloc]"
    "uplinks x = uplinks w0" "pblocks_live x = pblocks_live w0" "next_addr x = Suc (next_addr w0)"
    using run by (cases E w0 rule: malloc_cases) (auto simp: uplink_open_def)
  obtain y where y: "pouch_block_alloc E x = (Some [], y)" "trace y = trace x @ [Malloc]"
    "uplinks y = uplinks x" "pblocks_live y = Suc (pblocks_live x)" "next_addr y = Suc (next_addr x)"
    using run x(1) by (cases E x rule: pouch_block_alloc_cases) (auto simp: uplink_open_def)
  define sid where "sid = ret E (trace y) (Uplink_start dl)"
  from run x(1) y(1) assms(2) have "sid \<noteq> 0"
    "w = put_uplink a (new_uplink sid arg) (y\<lparr>trace := trace y @ [Uplink_start dl]\<rparr>)" "a = next_addr w0"
    by (auto simp: uplink_open_def ext_call_def sid_def Let_def split: if_splits)
  with x y show ?thesis by (intro that [of sid "y\<lparr>trace := trace y @ [Uplink_start dl]\<rparr>"]) simp_all
qed

lemma acked_idle:
  assumes "uplinks w a = Some u" and "up_sending u" and "rblock u = Some b"
  shows "block_upload_callback E ecb GOLIOTH_OK (Some a) w = process_uplink E ecb (Some a)
    ((put_uplink a (u\<lparr>up_sending := False, rblock := None\<rparr>) w)\<lparr>pblocks_live := pblocks_live w - 1\<rparr>)"
  using assms by (simp add: block_upload_callback_def Let_def)

lemma up_inv_acked:
  "up_inv E s t0 u written w \<Longrightarrow> up_inv E s t0 (u\<lparr>up_sending := False, rblock := None\<rparr>) written w"
  by (simp add: up_inv_def up_total_def up_data_def up_flight_def cong: option.case_cong)

lemma up_run_inv:
  assumes "up_run E a s t0 written c w" and "wf_env E"
  shows "cloud E \<and> (\<exists>u. uplinks w a = Some u \<and> up_inv E s t0 u written w \<and> up_live u \<and> up_closed u = c)"
  using assms(1)
proof induction
  case (up_opened dl arg w0 w u)
  from open_cases [OF up_opened(2,1)] obtain sid w1 where
    w: "w = put_uplink a (new_uplink sid arg) w1" "trace w1 = trace w0 @ [Malloc, Malloc, Uplink_start dl]"
    by metis
  with up_opened(1,3,4,5) show ?case
    by (auto simp: new_uplink_def up_inv_def up_sent_def up_total_def up_data_def up_flight_def
        up_live_def collects_def)
next
  case (up_written written w lst p w')
  then obtain u where u: "cloud E" "uplinks w a = Some u" "up_inv E s t0 u written w" "\<not> up_closed u" by auto
  from write_loop_world [OF u(2-4) assms(2), of p] up_written(3) obtain w1 u1 where
    w1: "write_loop E (Some a) p w = Inr (True, w1)" "uplinks w1 = (uplinks w)(a \<mapsto> u1)" "\<not> up_closed u1"
      "up_inv E s t0 u1 (written @ p) w1"
    by (fastforce simp: uplink_write_def write_post_def split: if_splits)
  show ?case
  proof (cases lst)
    case False
    with up_written(3) w1(1) have "process_uplink E no_end (Some a) w1 = Inr w'"
      by (auto simp: uplink_write_def bnd_simps)
    from process_no_end [OF _ w1(4) u(1) assms(2) this] w1(2,3) u(1) False show ?thesis by fastforce
  next
    case True
    then have ne: "written @ p \<noteq> []" using up_written(2) by simp
    from w1(3,4) obtain b where b: "wblock u1 = Some b" by (auto simp: up_inv_def up_data_def split: option.splits)
    have a1: "uplinks w1 a = Some u1" using w1(2) by simp
    let ?u2 = "u1\<lparr>up_closed := True, up_queue := up_queue u1 @ [b], wblock := None\<rparr>"
    from True up_written(3) w1(1) close_open [OF a1 b w1(3), of E no_end]
    have run: "process_uplink E no_end (Some a) (put_uplink a ?u2 w1) = Inr w'"
      by (auto simp: uplink_write_def bnd_simps)
    have "up_inv E s t0 ?u2 (written @ p) (put_uplink a ?u2 w1)"
      using up_inv_close [OF w1(4) b ne assms(2)] by (simp add: up_inv_cong [of "put_uplink a ?u2 w1" w1])
    from process_no_end [OF _ this u(1) assms(2) run] u(1) True show ?thesis by fastforce
  qed
next
  case (up_close written c w w')
  then obtain u where u: "cloud E" "uplinks w a = Some u" "up_inv E s t0 u written w" "up_closed u = c" by auto
  show ?case
  proof (cases c)
    case True
    with up_close(3) close_again [OF u(2), of E no_end] u(4) have "process_uplink E no_end (Some a) w = Inr w'" by simp
    from process_no_end [OF u(2,3,1) assms(2) this] u(1,4) True show ?thesis by fastforce
  next
    case False
    with u obtain b where b: "wblock u = Some b" by (auto simp: up_inv_def up_data_def split: option.splits)
    let ?u2 = "u\<lparr>up_closed := True, up_queue := up_queue u @ [b], wblock := None\<rparr>"
    from up_close(3) close_open [OF u(2) b, of E no_end] False u(4)
    have run: "process_uplink E no_end (Some a) (put_uplink a ?u2 w) = Inr w'" by simp
    have "up_inv E s t0 ?u2 written (put_uplink a ?u2 w)"
      using up_inv_close [OF u(3) b up_close(2) assms(2)] by (simp add: up_inv_cong [of "put_uplink a ?u2 w" w])
    from process_no_end [OF _ this u(1) assms(2) run] u(1) show ?thesis by fastforce
  qed
next
  case (up_acked written c w w')
  then obtain u where u: "cloud E" "uplinks w a = Some u" "up_inv E s t0 u written w" "up_live u" "up_closed u = c" by auto
  show ?case
  proof (cases "up_sending u")
    case False
    with up_acked(2) u show ?thesis by (auto simp: block_upload_callback_def)
  next
    case True
    then obtain b where b: "rblock u = Some b" using u(3) by (auto simp: up_inv_def up_flight_def)
    let ?u2 = "u\<lparr>up_sending := False, rblock := None\<rparr>"
    let ?w2 = "(put_uplink a ?u2 w)\<lparr>pblocks_live := pblocks_live w - 1\<rparr>"
    have run: "process_uplink E no_end (Some a) ?w2 = Inr w'"
      using up_acked(2) acked_idle [OF u(2) True b, of E no_end] by simp
    have "up_inv E s t0 ?u2 written ?w2"
      using up_inv_acked [OF u(3)] by (subst up_inv_cong [of ?w2 w]) simp_all
    from process_no_end [OF _ this u(1) assms(2) run] u(1,5) show ?thesis by fastforce
  qed
next
  case (up_other written c w w' cs)
  then show ?case using up_inv_extend(1) by auto
qed

end
