(* ===== verification/Uplink_Props.thy ===== *)
theory Uplink_Props
  imports Uplink_Stream
begin

text \<open>
  The properties of the uplink, and one small uplink on which their witnesses run: blocks of
  four bytes, five bytes written, so that a full block and a short one are sent.
\<close>

subsection \<open>A small uplink\<close>

definition up_boot :: uplink_world where
  "up_boot = \<lparr>trace = [], next_addr = 0, slab = Map.empty, slab_used = 0, downlinks = Map.empty,
     uplinks = Map.empty, pblocks_live = 0\<rparr>"

definition up_fresh :: uplink_world where
  "up_fresh = up_boot\<lparr>trace := [Malloc, Malloc, Uplink_start NULL], next_addr := 2,
     uplinks := [0 \<mapsto> new_uplink 1 7], pblocks_live := 1\<rparr>"

lemma up_fresh_run: "uplink_open small_env NULL 7 up_boot = (Some 0, up_fresh)"
  by (simp add: uplink_open_def pouch_block_alloc_def malloc_def ext_call_def up_boot_def up_fresh_def put_uplink_def)

lemma up_run0: "up_run small_env 0 1 3 [] False up_fresh"
  by (rule up_opened [where u = "new_uplink 1 7", OF _ up_fresh_run]) (simp_all add: up_fresh_def new_uplink_def)

definition up_first :: uplink_world where
  "up_first = up_fresh\<lparr>
     trace := [Malloc, Malloc, Uplink_start NULL, Malloc, Uplink_block 1 0 [1, 2, 3, 4] False],
     next_addr := 3, pblocks_live := 2,
     uplinks := [0 \<mapsto> \<lparr>session = 1, block_idx = 1, up_closed = True, up_sending = True, wblock = None,
       rblock = Some [1, 2, 3, 4], up_queue = [[5]], end_cb_arg = 7\<rparr>]\<rparr>"

lemma up_first_run: "uplink_write small_env no_end (Some 0) [1, 2, 3, 4, 5] True up_fresh = Inr (0, up_first)"
  by (simp add: uplink_write_def uplink_close_def process_uplink_def submit_block_def write_loop.simps
      pouch_block_alloc_def malloc_def ext_call_def Let_def up_fresh_def up_boot_def up_first_def new_uplink_def
      put_uplink_def cong: bnd_weak_cong if_weak_cong)

lemma up_run1: "up_run small_env 0 1 3 [1, 2, 3, 4, 5] True up_first"
  using up_written [OF up_run0 _ up_first_run] by simp

subsection \<open>The stream as a whole\<close>

text \<open>The blocks the cloud has to see for the bytes \<open>written\<close>.\<close>

definition whole :: "'e env_scheme \<Rightarrow> bytes \<Rightarrow> (32 word \<times> bytes \<times> bool) list" where
  "whole E written = (let bs = chunks (max_block_size E) written in stamped (length bs) bs)"

definition send_call :: "int \<Rightarrow> 32 word \<times> bytes \<times> bool \<Rightarrow> ext_call" where
  "send_call s f = (case f of (i, b, l) \<Rightarrow> Uplink_block s i b l)"

lemma take_stamped: "take n (stamped tot bs) = stamped tot (take n bs)"
  by (rule nth_equalityI) (simp_all add: stamped_def)

lemma nth_stamped: "k < length bs \<Longrightarrow> stamped tot bs ! k = (of_nat k, bs ! k, Suc k = tot)"
  by (simp add: stamped_def)

text \<open>A closed uplink on its way: it has been given \<open>written\<close>, and a block is in flight.\<close>

definition closed_at :: "'e env_scheme \<Rightarrow> addr \<Rightarrow> int \<Rightarrow> nat \<Rightarrow> bytes \<Rightarrow> 'a uplink_world_scheme \<Rightarrow> bool" where
  "closed_at E a s t0 written w \<longleftrightarrow> cloud E
     \<and> (\<exists>u. uplinks w a = Some u \<and> up_inv E s t0 u written w \<and> up_live u \<and> up_closed u)"

lemma closed_run: "up_run E a s t0 written True w \<Longrightarrow> wf_env E \<Longrightarrow> closed_at E a s t0 written w"
  using up_run_inv [of E a s t0 written True w] by (auto simp: closed_at_def)

lemma closed_atE:
  assumes "closed_at E a s t0 written w"
  obtains u b where "uplinks w a = Some u" and "up_sending u" and "rblock u = Some b" and "up_closed u"
    and "session u = s" and "cloud E" and "up_inv E s t0 u written w"
    and "up_sent s t0 w = take (length (up_sent s t0 w)) (whole E written)"
    and "payloads (up_sent s t0 w) @ up_queue u = chunks (max_block_size E) written"
proof -
  from assms obtain u where u: "cloud E" "uplinks w a = Some u" "up_inv E s t0 u written w"
    "up_sending u" "up_closed u" by (auto simp: closed_at_def up_live_def)
  let ?S = "up_sent s t0 w"
  from u have S: "?S = stamped (length (chunks (max_block_size E) written)) (payloads ?S)"
    and q: "payloads ?S @ up_queue u = chunks (max_block_size E) written"
    by (auto simp: up_inv_def up_total_def up_data_def split: option.splits)
  have "payloads ?S = take (length ?S) (chunks (max_block_size E) written)"
    using arg_cong [OF q, of "take (length (payloads ?S))"] by simp
  with S have "?S = stamped (length (chunks (max_block_size E) written))
      (take (length ?S) (chunks (max_block_size E) written))" by metis
  then have "?S = take (length ?S) (whole E written)"
    unfolding whole_def Let_def take_stamped .
  with u q that show ?thesis by (auto simp: up_inv_def up_flight_def)
qed

lemma ack_step:
  assumes "closed_at E a s t0 written w" and "wf_env E"
  shows "\<exists>w1 u1. (\<forall>ecb. block_upload_callback E ecb GOLIOTH_OK (Some a) w =
      (if up_sent s t0 w = whole E written
       then bnd (ecb UPLINK_SUCCESS (end_cb_arg u1) w1) (cleanup_uplink E (Some a))
       else if ret E (trace w) (send_call s (whole E written ! length (up_sent s t0 w))) = 0 then Inr w1
       else bnd (ecb UPLINK_ERROR_LOCAL (end_cb_arg u1) w1) (cleanup_uplink E (Some a))))
    \<and> up_sent s t0 w1 = take (Suc (length (up_sent s t0 w))) (whole E written)
    \<and> uplinks w1 a = Some u1 \<and> map_option end_cb_arg (uplinks w a) = Some (end_cb_arg u1) \<and> session u1 = s
    \<and> t0 \<le> length (trace w1) \<and> (up_sent s t0 w \<noteq> whole E written \<longrightarrow> closed_at E a s t0 written w1)"
proof -
  from closed_atE [OF assms(1)] obtain u b where u: "uplinks w a = Some u" "up_sending u" "rblock u = Some b"
    "up_closed u" "session u = s" "cloud E" "up_inv E s t0 u written w"
    "up_sent s t0 w = take (length (up_sent s t0 w)) (whole E written)"
    "payloads (up_sent s t0 w) @ up_queue u = chunks (max_block_size E) written" by metis
  let ?S = "up_sent s t0 w"
  define u2 where "u2 = u\<lparr>up_sending := False, rblock := None\<rparr>"
  define w2 where "w2 = (put_uplink a u2 w)\<lparr>pblocks_live := pblocks_live w - 1\<rparr>"
  have u2: "uplinks w2 a = Some u2" "\<not> up_sending u2" "up_closed u2" "up_queue u2 = up_queue u"
    "session u2 = s" "block_idx u2 = of_nat (length ?S)" "trace w2 = trace w"
    using u(4,5,7) by (simp_all add: u2_def w2_def up_inv_def)
  have arg: "end_cb_arg u2 = end_cb_arg u" by (simp add: u2_def)
  have t0: "t0 \<le> length (trace w)" using u(7) by (simp add: up_inv_def)
  have run: "block_upload_callback E ecb GOLIOTH_OK (Some a) w = process_uplink E ecb (Some a) w2" for ecb
    using acked_idle [OF u(1-3)] by (simp add: w2_def u2_def)
  have len: "length (whole E written) = length ?S + length (up_queue u)"
    using arg_cong [OF u(9), of length] by (simp add: whole_def Let_def)
  have inv2: "up_inv E s t0 u2 written w2"
    using up_inv_acked [OF u(7)] by (simp add: u2_def up_inv_cong [OF u2(7)])
  show ?thesis
  proof (cases "up_queue u")
    case Nil
    with u(8) len have all: "?S = whole E written" by simp
    with process_end [OF u2(1,2) _ u2(3)] u2(4,5,7) Nil run u(1) arg t0
    show ?thesis
      by (intro exI [of _ "put_uplink a (u2\<lparr>up_sending := True\<rparr>) w2"] exI [of _ "u2\<lparr>up_sending := True\<rparr>"])
        (auto simp: up_sent_cong [of "put_uplink a x w2" w for x])
  next
    case (Cons b q)
    from len Cons have n: "length ?S < length (whole E written)" by simp
    have nb: "b \<noteq> []" using up_inv_unsent [OF u(7) assms(2)] Cons by simp
    have "chunks (max_block_size E) written ! length ?S = b"
      using u(9) Cons by (metis nth_append_length payloads_simps(4))
    moreover have "length (chunks (max_block_size E) written) = length ?S + Suc (length q)"
      using len Cons by (simp add: whole_def Let_def)
    ultimately have nth: "whole E written ! length ?S = (of_nat (length ?S), b, q = [])"
      using n by (simp add: whole_def Let_def nth_stamped)
    from launched_inv [OF inv2, of b q a] u2(3,4) Cons u(8) nth n obtain u1 where
      sent: "up_sent s t0 (launched a u2 b q w2) = take (Suc (length ?S)) (whole E written)"
        "uplinks (launched a u2 b q w2) a = Some u1" "end_cb_arg u1 = end_cb_arg u2"
        "up_inv E s t0 u1 written (launched a u2 b q w2)" "up_sending u1" "up_closed u1 = up_closed u2"
      by (auto simp: up_sent_cong [OF u2(7)] take_Suc_conv_app_nth)
    have "closed_at E a s t0 written (launched a u2 b q w2)"
      using sent(2,4-6) u(6) u2(3) by (auto simp: closed_at_def up_live_def)
    moreover have "?S \<noteq> whole E written" using n by auto
    ultimately show ?thesis using process_send [OF u2(1,2) _ nb u(6), of q] u2 Cons run nth sent(1-3) arg u(1)
      sent(4) [unfolded up_inv_def]
      by (intro exI [of _ "launched a u2 b q w2"] exI [of _ u1]) (auto simp: send_call_def)
  qed
qed

text \<open>The cloud acknowledges \<open>n\<close> blocks, one after the other.\<close>

primrec acks :: "'e env_scheme \<Rightarrow> 'a end_cb \<Rightarrow> addr \<Rightarrow> nat \<Rightarrow> 'a uplink_world_scheme
    \<Rightarrow> fault + 'a uplink_world_scheme" where
  "acks E ecb a 0 w = Inr w"
| "acks E ecb a (Suc n) w = bnd (block_upload_callback E ecb GOLIOTH_OK (Some a) w) (acks E ecb a n)"

lemma acks_none: "acks E ecb a 0 = Inr"
  by (rule ext) simp

text \<open>The cloud client accepts every block of the session.\<close>

definition accepts :: "'e env_scheme \<Rightarrow> int \<Rightarrow> bool" where
  "accepts E s \<longleftrightarrow> (\<forall>tr i b l. ret E tr (Uplink_block s i b l) = 0)"

lemma accepts_call: "accepts E s \<Longrightarrow> ret E tr (send_call s f) = 0"
  by (cases f) (simp add: accepts_def send_call_def)

subsection \<open>The properties\<close>

text \<open>
  C2: the uplink is a lossless stream.  At every moment, in every interleaving of writes, the
  close and acknowledgements, the blocks handed to the cloud, the queued ones and the one being
  written are together the bytes written; the blocks sent are numbered 0, 1, 2, ...; before
  the close each is full and none is marked last, after it they are the first ones of the whole
  stream, whose last block alone is marked; at most one block is in flight, the last
  one sent; and when none is, nothing is left waiting.
\<close>

theorem uplink_stream_integrity:
  assumes "up_run E a s t0 written c w" and "wf_env E"
  shows "\<exists>u. uplinks w a = Some u \<and> up_closed u = c
    \<and> concat (payloads (up_sent s t0 w) @ up_queue u) @ (case wblock u of None \<Rightarrow> [] | Some b \<Rightarrow> b) = written
    \<and> (\<not> c \<longrightarrow> (\<forall>k < length (up_sent s t0 w). \<exists>b. up_sent s t0 w ! k = (of_nat k, b, False)
        \<and> length b = max_block_size E))
    \<and> (c \<longrightarrow> up_sent s t0 w = take (length (up_sent s t0 w)) (whole E written))
    \<and> rblock u = (if up_sending u then Some (last (payloads (up_sent s t0 w))) else None)
    \<and> (\<not> up_sending u \<longrightarrow> up_queue u = [] \<and> \<not> c)"
proof -
  let ?S = "up_sent s t0 w"
  from up_run_inv [OF assms] obtain u where u: "uplinks w a = Some u" "up_inv E s t0 u written w" "up_live u"
    "up_closed u = c" by auto
  have S: "?S = stamped (up_total E u written) (payloads ?S)" using u(2) by (simp add: up_inv_def)
  have pos: "0 < max_block_size E" using assms(2) by simp
  have all: "concat (payloads ?S @ up_queue u) @ (case wblock u of None \<Rightarrow> [] | Some b \<Rightarrow> b) = written"
  proof (cases "wblock u")
    case None
    with u(2) have "payloads ?S @ up_queue u = chunks (max_block_size E) written"
      by (simp add: up_inv_def up_data_def)
    from arg_cong [OF this, of concat] None concat_chunks [OF pos] show ?thesis by simp
  next
    case (Some b)
    with u(2) show ?thesis by (simp add: up_inv_def up_data_def collects_def)
  qed
  have open': "?S ! k = (of_nat k, payloads ?S ! k, False) \<and> length (payloads ?S ! k) = max_block_size E"
    if "\<not> c" "k < length ?S" for k
  proof
    from that u(4) have "up_total E u written = 0" by (simp add: up_total_def)
    with S nth_stamped [of k "payloads ?S" 0] that(2) show "?S ! k = (of_nat k, payloads ?S ! k, False)" by simp
    from u(2,4) that show "length (payloads ?S ! k) = max_block_size E"
      by (auto simp: up_inv_def up_data_def collects_def split: option.splits)
  qed
  have "?S = take (length ?S) (whole E written)" if c
    using closed_atE [OF closed_run [OF _ assms(2)]] assms(1) that by metis
  with u all open' show ?thesis
    by (intro exI [of _ u]) (auto simp: up_inv_def up_flight_def up_live_def)
qed

theorem uplink_stream_integrity_witness:
  "\<exists>u. uplinks up_first 0 = Some u \<and> up_closed u
     \<and> up_sent 1 3 up_first = take 1 (whole small_env [1, 2, 3, 4, 5])"
  using uplink_stream_integrity [OF up_run1] by (auto simp: up_sent_def up_first_def)

text \<open>
  What an acknowledgement after the close leads to.  If every block of the stream has been
  sent, the callback reports SUCCESS and the uplink is cleaned up; otherwise exactly the next
  block of the stream is handed over, and if the cloud client refuses it, the callback reports
  the local error.  So SUCCESS is reported only when the cloud has acknowledged the whole stream.
\<close>

theorem uplink_ack_outcome:
  assumes "up_run E a s t0 written True w" and "wf_env E"
  shows "\<exists>c w1. (\<forall>ecb. block_upload_callback E ecb GOLIOTH_OK (Some a) w =
      (if up_sent s t0 w = whole E written
       then bnd (ecb UPLINK_SUCCESS c w1) (cleanup_uplink E (Some a))
       else if ret E (trace w) (send_call s (whole E written ! length (up_sent s t0 w))) = 0 then Inr w1
       else bnd (ecb UPLINK_ERROR_LOCAL c w1) (cleanup_uplink E (Some a))))
    \<and> up_sent s t0 w1 = take (Suc (length (up_sent s t0 w))) (whole E written)"
  using ack_step [OF closed_run [OF assms] assms(2)] by blast

theorem uplink_ack_outcome_witness:
  "\<exists>w1. block_upload_callback small_env no_end GOLIOTH_OK (Some 0) up_first = Inr w1
     \<and> up_sent 1 3 w1 = [(0, [1, 2, 3, 4], False), (1, [5], True)]"
proof -
  have whole: "whole small_env [1, 2, 3, 4, 5] = [(0, [1, 2, 3, 4], False), (1, [5], True)]"
    by (simp add: whole_def chunks.simps stamped_def upt_rec)
  have sent: "up_sent 1 3 up_first = [(0, [1, 2, 3, 4], False)]"
    by (simp add: up_sent_def up_first_def)
  have ok: "ret small_env tr (Uplink_block 1 1 [5] True) = 0" for tr by simp
  from uplink_ack_outcome [OF up_run1] obtain w1 where
    "block_upload_callback small_env no_end GOLIOTH_OK (Some 0) up_first = Inr w1"
    "up_sent 1 3 w1 = take 2 (whole small_env [1, 2, 3, 4, 5])"
    by (auto simp: whole sent send_call_def)
  then show ?thesis by (auto simp: whole)
qed

lemma acks_drain:
  assumes "closed_at E a s t0 written w" and "wf_env E" and "accepts E s"
  shows "\<exists>w1 u1. (\<forall>ecb. acks E ecb a (Suc (length (whole E written) - length (up_sent s t0 w))) w
      = bnd (ecb UPLINK_SUCCESS (end_cb_arg u1) w1) (cleanup_uplink E (Some a))) \<and> up_sent s t0 w1 = whole E written
    \<and> uplinks w1 a = Some u1 \<and> map_option end_cb_arg (uplinks w a) = Some (end_cb_arg u1) \<and> session u1 = s
    \<and> t0 \<le> length (trace w1)"
  using assms(1)
proof (induction "length (whole E written) - length (up_sent s t0 w)" arbitrary: w)
  case 0
  from closed_atE [OF 0(2)] have "up_sent s t0 w = take (length (up_sent s t0 w)) (whole E written)"
    by metis
  moreover from 0(1) have "take (length (up_sent s t0 w)) (whole E written) = whole E written" by simp
  ultimately have all: "up_sent s t0 w = whole E written" by metis
  from ack_step [OF 0(2) assms(2)] all obtain w1 u1 where
    w1: "\<forall>ecb. block_upload_callback E ecb GOLIOTH_OK (Some a) w
      = bnd (ecb UPLINK_SUCCESS (end_cb_arg u1) w1) (cleanup_uplink E (Some a))" "up_sent s t0 w1 = whole E written"
      "uplinks w1 a = Some u1" "map_option end_cb_arg (uplinks w a) = Some (end_cb_arg u1)" "session u1 = s"
      "t0 \<le> length (trace w1)"
    by auto
  with all show ?case by (intro exI [of _ w1] exI [of _ u1]) (simp add: bnd_assoc acks_none)
next
  case (Suc m)
  have "up_sent s t0 w \<noteq> whole E written" using Suc(2) by auto
  with ack_step [OF Suc(3) assms(2)] accepts_call [OF assms(3)] obtain w1 u1 where
    w1: "\<forall>ecb. block_upload_callback E ecb GOLIOTH_OK (Some a) w = Inr w1"
      "up_sent s t0 w1 = take (Suc (length (up_sent s t0 w))) (whole E written)"
      "uplinks w1 a = Some u1" "map_option end_cb_arg (uplinks w a) = Some (end_cb_arg u1)" and run: "closed_at E a s t0 written w1" by auto
  have m: "m = length (whole E written) - length (up_sent s t0 w1)" using Suc(2) w1(2) by simp
  from Suc(1) [OF m run] m w1(3,4) obtain w2 u2 where
    w2: "\<forall>ecb. acks E ecb a (Suc m) w1 = bnd (ecb UPLINK_SUCCESS (end_cb_arg u2) w2) (cleanup_uplink E (Some a))"
    "up_sent s t0 w2 = whole E written" "uplinks w2 a = Some u2"
    "map_option end_cb_arg (uplinks w a) = Some (end_cb_arg u2)" "session u2 = s" "t0 \<le> length (trace w2)" by auto
  with w1(1) Suc(2) show ?case
    by (intro exI [of _ w2] exI [of _ u2]) (simp add: Suc(2) [symmetric])
qed

text \<open>
  A closed uplink ends.  When the cloud client accepts the blocks and acknowledges them one
  after the other, one acknowledgement for each block not yet sent and one for the block in
  flight lead to SUCCESS, with the whole stream sent.
\<close>

theorem uplink_drains:
  assumes "up_run E a s t0 written True w" and "wf_env E" and "accepts E s"
  shows "\<exists>c w1. (\<forall>ecb. acks E ecb a (Suc (length (whole E written) - length (up_sent s t0 w))) w
      = bnd (ecb UPLINK_SUCCESS c w1) (cleanup_uplink E (Some a))) \<and> up_sent s t0 w1 = whole E written"
  using acks_drain [OF closed_run [OF assms(1,2)] assms(2,3)] by blast

theorem uplink_drains_witness:
  "\<exists>c w1. acks small_env (\<lambda>_ _ w. Inr w) 0 2 up_first = cleanup_uplink small_env (Some 0) w1
     \<and> up_sent 1 3 w1 = whole small_env [1, 2, 3, 4, 5]"
proof -
  have "length (whole small_env [1, 2, 3, 4, 5]) = 2" "length (up_sent 1 3 up_first) = 1"
    by (simp_all add: whole_def chunks.simps stamped_def upt_rec up_sent_def up_first_def)
  then have two: "Suc (length (whole small_env [1, 2, 3, 4, 5]) - length (up_sent 1 3 up_first)) = 2" by simp
  have "accepts small_env 1" by (simp add: accepts_def)
  from uplink_drains [OF up_run1 _ this] obtain c w1 where
    "\<forall>ecb. acks small_env ecb 0 2 up_first = bnd (ecb UPLINK_SUCCESS c w1) (cleanup_uplink small_env (Some 0))"
    "up_sent 1 3 w1 = whole small_env [1, 2, 3, 4, 5]" unfolding two by auto
  then show ?thesis by auto
qed

lemma write_outcome:
  assumes "up_run E a s t0 written False w" and "wf_env E"
  shows "\<exists>ok w1 u1. (\<forall>ecb. uplink_write E ecb (Some a) p lst w =
      (if \<not> ok then Inr (- ENOMEM, w1)
       else bnd (if lst then uplink_close E ecb (Some a) w1 else process_uplink E ecb (Some a) w1) (\<lambda>w. Inr (0, w))))
    \<and> uplinks w1 = (uplinks w)(a \<mapsto> u1) \<and> up_sent s t0 w1 = up_sent s t0 w \<and> cloud E \<and> \<not> up_closed u1
    \<and> (if ok then up_inv E s t0 u1 (written @ p) w1 else cut_short E s t0 u1 written p w1)"
proof -
  from up_run_inv [OF assms] obtain u where u: "cloud E" "uplinks w a = Some u" "up_inv E s t0 u written w"
    "\<not> up_closed u" by auto
  from write_loop_world [OF u(2-4) assms(2), of p] obtain ok w1 u1 where w1:
    "write_loop E (Some a) p w = Inr (ok, w1)" "uplinks w1 = (uplinks w)(a \<mapsto> u1)"
    "up_sent s t0 w1 = up_sent s t0 w" "\<not> up_closed u1"
    "if ok then up_inv E s t0 u1 (written @ p) w1 else cut_short E s t0 u1 written p w1"
    unfolding write_post_def by blast
  with u(1) show ?thesis by (intro exI [of _ ok] exI [of _ w1] exI [of _ u1]) (simp add: uplink_write_def)
qed

lemma cut_short_close:
  assumes "cut_short E s t0 u written p w" and "wf_env E"
  shows "\<exists>k < length p. payloads (up_sent s t0 w) @ up_queue u = chunks (max_block_size E) (written @ take k p)
    \<and> up_inv E s t0 (u\<lparr>up_closed := True\<rparr>) (written @ take k p) w"
proof -
  let ?S = "up_sent s t0 w"
  have c: "wblock u = None" "up_queue u \<noteq> []" "session u = s" "t0 \<le> length (trace w)"
    "block_idx u = of_nat (length ?S)" "stamped 0 (payloads ?S) = ?S" "up_flight u (payloads ?S)"
    "\<forall>d \<in> set (payloads ?S @ up_queue u). length d = max_block_size E"
    using assms(1) by (simp_all add: cut_short_def)
  from assms(1) obtain k where k: "k < length p" "concat (payloads ?S @ up_queue u) = written @ take k p"
    unfolding cut_short_def by blast
  have pos: "0 < max_block_size E" using assms(2) by simp
  have ch: "payloads ?S @ up_queue u = chunks (max_block_size E) (written @ take k p)"
    using chunks_concat_exact [OF c(8) pos] k(2) by simp
  have "written @ take k p \<noteq> []" using ch c(2) by (cases "written @ take k p") auto
  moreover have "length (payloads ?S) < length (chunks (max_block_size E) (written @ take k p))"
    using arg_cong [OF ch, of length] c(2) by (cases "up_queue u") auto
  then have "stamped (length (chunks (max_block_size E) (written @ take k p))) (payloads ?S) = ?S"
    using c(6) stamped_open by metis
  ultimately have "up_inv E s t0 (u\<lparr>up_closed := True\<rparr>) (written @ take k p) w"
    using c(1,3-5,7) ch by (simp add: up_inv_def up_total_def up_data_def up_flight_def)
  with k(1) ch show ?thesis by blast
qed

text \<open>
  C29: a write never runs over its block.  On an open uplink it either takes all bytes (then
  the close or the processing follows), or, if no block can be allocated, returns -ENOMEM with
  nothing sent; in that case a proper prefix of the payload has been taken, the uplink holds
  full blocks only, and it has no write block any more.
\<close>

theorem uplink_write_outcome:
  assumes "up_run E a s t0 written False w" and "wf_env E"
  shows "\<exists>ok w1 u1. (\<forall>ecb. uplink_write E ecb (Some a) p lst w =
      (if \<not> ok then Inr (- ENOMEM, w1)
       else bnd (if lst then uplink_close E ecb (Some a) w1 else process_uplink E ecb (Some a) w1) (\<lambda>w. Inr (0, w))))
    \<and> uplinks w1 = (uplinks w)(a \<mapsto> u1) \<and> up_sent s t0 w1 = up_sent s t0 w
    \<and> (ok \<longrightarrow> concat (payloads (up_sent s t0 w1) @ up_queue u1) @ the (wblock u1) = written @ p
        \<and> length (the (wblock u1)) \<le> max_block_size E)
    \<and> (\<not> ok \<longrightarrow> wblock u1 = None \<and> (\<forall>d \<in> set (up_queue u1). length d = max_block_size E)
        \<and> (\<exists>k < length p. concat (payloads (up_sent s t0 w1) @ up_queue u1) = written @ take k p))"
proof -
  from write_outcome [OF assms, of p lst] obtain ok w1 u1 where o: "\<forall>ecb. uplink_write E ecb (Some a) p lst w =
      (if \<not> ok then Inr (- ENOMEM, w1)
       else bnd (if lst then uplink_close E ecb (Some a) w1 else process_uplink E ecb (Some a) w1) (\<lambda>w. Inr (0, w)))"
    "uplinks w1 = (uplinks w)(a \<mapsto> u1)" "up_sent s t0 w1 = up_sent s t0 w" "\<not> up_closed u1"
    "if ok then up_inv E s t0 u1 (written @ p) w1 else cut_short E s t0 u1 written p w1" by blast
  have "ok \<longrightarrow> concat (payloads (up_sent s t0 w1) @ up_queue u1) @ the (wblock u1) = written @ p
      \<and> length (the (wblock u1)) \<le> max_block_size E"
    using o(4,5) by (auto simp: up_inv_def up_data_def collects_def split: option.splits)
  moreover have "\<not> ok \<longrightarrow> wblock u1 = None \<and> (\<forall>d \<in> set (up_queue u1). length d = max_block_size E)
        \<and> (\<exists>k < length p. concat (payloads (up_sent s t0 w1) @ up_queue u1) = written @ take k p)"
    using o(5) unfolding cut_short_def by auto
  ultimately show ?thesis using o(1-3) by blast
qed

theorem uplink_write_outcome_witness:
  "\<exists>ok w1. uplink_write small_env no_end (Some 0) [1, 2] False up_fresh =
     (if \<not> ok then Inr (- ENOMEM, w1) else bnd (process_uplink small_env no_end (Some 0) w1) (\<lambda>w. Inr (0, w)))"
proof -
  from uplink_write_outcome [OF up_run0, of "[1, 2]" False] obtain ok w1 where
    "\<forall>ecb. uplink_write small_env ecb (Some 0) [1, 2] False up_fresh =
      (if \<not> ok then Inr (- ENOMEM, w1)
       else bnd (if False then uplink_close small_env ecb (Some 0) w1
         else process_uplink small_env ecb (Some 0) w1) (\<lambda>w. Inr (0, w)))"
    using small_env_simps(6) by blast
  then show ?thesis by (intro exI [of _ ok] exI [of _ w1]) simp
qed

text \<open>
  C33: closing after a failed write passes a truncated stream off as complete.  When a write has
  failed with -ENOMEM and the uplink is then closed, as the cleanup of a connection does, the
  uplink is in the state of one to which exactly the truncated bytes had been written: if the
  cloud client accepts its blocks and acknowledges them, the callback reports SUCCESS once the
  blocks of the truncated stream have been sent, the last of them marked as the last.
\<close>

theorem truncated_uplink_commits:
  assumes "up_run E a s t0 written False w" and "wf_env E"
    and "uplink_write E no_end (Some a) p lst w = Inr (- ENOMEM, w1)"
    and "uplink_close E no_end (Some a) w1 = Inr w2"
  shows "\<exists>u k. k < length p \<and> uplinks w2 a = Some u \<and> up_closed u
    \<and> payloads (up_sent s t0 w2) @ up_queue u = chunks (max_block_size E) (written @ take k p)
    \<and> up_sent s t0 w2 = take (length (up_sent s t0 w2)) (whole E (written @ take k p))
    \<and> (accepts E s \<longrightarrow> (\<exists>w3. up_sent s t0 w3 = whole E (written @ take k p)
        \<and> (\<forall>ecb. acks E ecb a (Suc (length (whole E (written @ take k p)) - length (up_sent s t0 w2))) w2
            = bnd (ecb UPLINK_SUCCESS (end_cb_arg u) w3) (cleanup_uplink E (Some a)))))"
proof -
  from write_outcome [OF assms(1,2), of p lst] obtain ok wx u1 where
    o: "uplink_write E no_end (Some a) p lst w = (if \<not> ok then Inr (- ENOMEM, wx)
       else bnd (if lst then uplink_close E no_end (Some a) wx else process_uplink E no_end (Some a) wx) (\<lambda>w. Inr (0, w)))"
    "uplinks wx a = Some u1" "cloud E" "\<not> ok \<longrightarrow> cut_short E s t0 u1 written p wx" by fastforce
  with assms(3) have "\<not> ok" "wx = w1" by (auto simp: bnd_simps split: if_splits)
  with o have w1: "uplinks w1 a = Some u1" "cut_short E s t0 u1 written p w1" "cloud E" by auto
  from cut_short_close [OF w1(2) assms(2)] obtain k where k: "k < length p"
    "up_inv E s t0 (u1\<lparr>up_closed := True\<rparr>) (written @ take k p) w1" by blast
  let ?w = "put_uplink a (u1\<lparr>up_closed := True\<rparr>) w1"
  have "uplink_close E no_end (Some a) w1 = process_uplink E no_end (Some a) ?w"
    using w1(1,2) by (simp add: uplink_close_def cut_short_def Let_def)
  with assms(4) have run: "process_uplink E no_end (Some a) ?w = Inr w2" by simp
  from k(2) have "up_inv E s t0 (u1\<lparr>up_closed := True\<rparr>) (written @ take k p) ?w"
    by (subst up_inv_cong [of ?w w1]) simp_all
  from process_no_end [OF _ this w1(3) assms(2) run]
  have closed: "closed_at E a s t0 (written @ take k p) w2" using w1(3) by (auto simp: closed_at_def)
  from closed_atE [OF closed] obtain u where u: "uplinks w2 a = Some u" "up_closed u"
    "up_sent s t0 w2 = take (length (up_sent s t0 w2)) (whole E (written @ take k p))"
    "payloads (up_sent s t0 w2) @ up_queue u = chunks (max_block_size E) (written @ take k p)" by metis
  have "\<exists>w3. up_sent s t0 w3 = whole E (written @ take k p)
      \<and> (\<forall>ecb. acks E ecb a (Suc (length (whole E (written @ take k p)) - length (up_sent s t0 w2))) w2
          = bnd (ecb UPLINK_SUCCESS (end_cb_arg u) w3) (cleanup_uplink E (Some a)))" if "accepts E s"
    using acks_drain [OF closed assms(2) that] u(1) by (elim exE conjE) (rule exI, force simp del: acks.simps)
  with k(1) u show ?thesis by (intro exI [of _ u] exI [of _ k]) (simp del: acks.simps)
qed

text \<open>A world in which no further block can be allocated: five bytes do not fit any more.\<close>

definition tight_env :: env where
  "tight_env = small_env\<lparr>ret := (\<lambda>tr c. case c of Malloc \<Rightarrow> if length tr < 2 then 1 else 0
     | Uplink_start _ \<Rightarrow> 1 | _ \<Rightarrow> 0)\<rparr>"

lemma tight_env_simps [simp]:
  "max_block_size tight_env = 4" "cloud tight_env" "wf_env tight_env"
  "ret tight_env tr Malloc = (if length tr < 2 then 1 else 0)" "ret tight_env tr (Uplink_start p) = 1"
  "ret tight_env tr (Uplink_block s i b l) = 0"
  by (simp_all add: tight_env_def small_env_def wf_env_def)

lemma tight_run0: "up_run tight_env 0 1 3 [] False up_fresh"
proof -
  have "uplink_open tight_env NULL 7 up_boot = (Some 0, up_fresh)"
    by (simp add: uplink_open_def pouch_block_alloc_def malloc_def ext_call_def up_boot_def up_fresh_def put_uplink_def)
  then show ?thesis
    by (rule up_opened [where u = "new_uplink 1 7", rotated]) (simp_all add: up_fresh_def new_uplink_def)
qed

theorem truncated_uplink_commits_witness:
  "\<exists>w1 w2 w3 u. uplink_write tight_env no_end (Some 0) [1, 2, 3, 4, 5] True up_fresh = Inr (- ENOMEM, w1)
     \<and> uplink_close tight_env no_end (Some 0) w1 = Inr w2
     \<and> uplinks w2 0 = Some u \<and> up_closed u \<and> up_sent 1 3 w2 = [(0, [1, 2, 3, 4], True)]
     \<and> block_upload_callback tight_env (\<lambda>r _ w. if r = UPLINK_SUCCESS then Inr w else Inl No_progress) GOLIOTH_OK (Some 0) w2
       = cleanup_uplink tight_env (Some 0) w3"
proof -
  let ?w1 = "up_fresh\<lparr>trace := trace up_fresh @ [Malloc],
    uplinks := [0 \<mapsto> (new_uplink 1 7)\<lparr>wblock := None, up_queue := [[1, 2, 3, 4]]\<rparr>]\<rparr>"
  have run: "uplink_write tight_env no_end (Some 0) [1, 2, 3, 4, 5] True up_fresh = Inr (- ENOMEM, ?w1)"
    by (simp add: uplink_write_def submit_block_def write_loop.simps pouch_block_alloc_def malloc_def
        ext_call_def Let_def up_fresh_def up_boot_def new_uplink_def put_uplink_def cong: bnd_weak_cong if_weak_cong)
  obtain w2 where close: "uplink_close tight_env no_end (Some 0) ?w1 = Inr w2"
    "up_sent 1 3 w2 = [(0, [1, 2, 3, 4], True)]"
    by (simp add: uplink_close_def process_uplink_def ext_call_def Let_def up_fresh_def up_boot_def new_uplink_def
        put_uplink_def up_sent_def)
  have acc: "accepts tight_env 1" by (simp add: accepts_def)
  from truncated_uplink_commits [OF tight_run0 _ run close(1)] acc obtain u k w3 where
    u: "k < length [1, 2, 3, 4, 5 :: byte]" "uplinks w2 0 = Some u" "up_closed u"
    and sent: "up_sent 1 3 w2 = take (length (up_sent 1 3 w2)) (whole tight_env ([] @ take k [1, 2, 3, 4, 5]))"
    and acks: "\<forall>ecb. acks tight_env ecb 0 (Suc (length (whole tight_env ([] @ take k [1, 2, 3, 4, 5])) - length (up_sent 1 3 w2))) w2
      = bnd (ecb UPLINK_SUCCESS (end_cb_arg u) w3) (cleanup_uplink tight_env (Some 0))"
    using tight_env_simps(3) by blast
  have "k = 0 \<or> k = 1 \<or> k = 2 \<or> k = 3 \<or> k = 4" using u(1) by auto
  with sent close(2) have "length (whole tight_env (take k [1, 2, 3, 4, 5])) = 1"
    by (auto simp: whole_def chunks.simps stamped_def upt_rec)
  with spec [OF acks, of "\<lambda>r _ w. if r = UPLINK_SUCCESS then Inr w else Inl No_progress"] close(2) have
    "block_upload_callback tight_env (\<lambda>r _ w. if r = UPLINK_SUCCESS then Inr w else Inl No_progress) GOLIOTH_OK (Some 0) w2
      = cleanup_uplink tight_env (Some 0) w3" by (simp add: acks_none)
  with run close u(2,3) show ?thesis by blast
qed

text \<open>
  C38: an uplink that is closed before anything was written never ends.  The close submits
  the empty block, which is skipped: nothing is sent, no callback is made, no acknowledgement
  can ever arrive (a stray one changes nothing), and the uplink with its session stays allocated,
  although it is closed and idle.  Only a second close would end it, with SUCCESS.
\<close>

theorem empty_uplink_stalls:
  assumes "up_run E a s t0 [] False w" and "wf_env E"
  shows "\<exists>w1 u1. (\<forall>ecb. uplink_close E ecb (Some a) w = Inr w1) \<and> trace w1 = trace w
    \<and> uplinks w1 = (uplinks w)(a \<mapsto> u1) \<and> up_closed u1 \<and> \<not> up_sending u1 \<and> own_blocks u1 = 0
    \<and> (\<forall>ecb status. block_upload_callback E ecb status (Some a) w1 = Inr w1)
    \<and> (\<exists>w2. \<forall>ecb. uplink_close E ecb (Some a) w1
        = bnd (ecb UPLINK_SUCCESS (end_cb_arg u1) w2) (cleanup_uplink E (Some a)))"
proof -
  from up_run_inv [OF assms] obtain u where u: "cloud E" "uplinks w a = Some u" "up_inv E s t0 u [] w"
    "\<not> up_closed u" by auto
  let ?S = "up_sent s t0 w"
  have "max_block_size E \<noteq> 0" using assms(2) by (simp add: wf_env_def)
  with u(3,4) have "wblock u = Some []" "payloads ?S = []" "up_queue u = []"
    by (auto simp: up_inv_def up_data_def collects_def split: option.splits)
  with u(3) have f: "\<not> up_sending u" "rblock u = None" by (auto simp: up_inv_def up_flight_def)
  note q = \<open>wblock u = Some []\<close> \<open>up_queue u = []\<close>
  define u1 where "u1 = u\<lparr>up_closed := True, wblock := None, up_queue := [], rblock := None, up_sending := False\<rparr>"
  define w1 where "w1 = (put_uplink a u1 w)\<lparr>pblocks_live := pblocks_live w - 1\<rparr>"
  have "uplink_close E ecb (Some a) w = Inr w1" for ecb
    using u(1,2,4) f q by (simp add: close_open process_uplink_def w1_def u1_def Let_def)
  moreover have w1: "uplinks w1 = (uplinks w)(a \<mapsto> u1)" "trace w1 = trace w" by (simp_all add: w1_def)
  moreover have c: "up_closed u1" "\<not> up_sending u1" "own_blocks u1 = 0" "up_queue u1 = []"
    by (simp_all add: u1_def own_blocks_def)
  moreover have "block_upload_callback E ecb status (Some a) w1 = Inr w1" for ecb status
    using w1 c by (simp add: block_upload_callback_def)
  moreover have "uplink_close E ecb (Some a) w1 = bnd (ecb UPLINK_SUCCESS (end_cb_arg u1)
      (put_uplink a (u1\<lparr>up_sending := True\<rparr>) w1)) (cleanup_uplink E (Some a))" for ecb
    using close_again [of w1 a u1 E ecb] process_end [of w1 a u1 E ecb] w1 c by simp
  ultimately show ?thesis by blast
qed

theorem empty_uplink_stalls_witness:
  "\<exists>w1 u1. uplink_close small_env no_end (Some 0) up_fresh = Inr w1 \<and> uplinks w1 = [0 \<mapsto> u1] \<and> up_closed u1"
  using empty_uplink_stalls [OF up_run0] by (auto simp: up_fresh_def)

end
