(* ===== verification/Uplink_Mem.thy ===== *)
theory Uplink_Mem
  imports Uplink_Stream
begin

text \<open>
  Memory of the uplinks: every pouch block that is allocated belongs to a live uplink, whatever
  the cloud answers and whichever allocation fails.  The operations that end an uplink hand
  control to its end callback first; the locale states what that callback has to promise.
\<close>

subsection \<open>The accounting invariant\<close>

definition up_wf :: "uplink \<Rightarrow> bool" where
  "up_wf u \<longleftrightarrow> (up_sending u \<longleftrightarrow> rblock u \<noteq> None)"

definition up_mem :: "'a uplink_world_scheme \<Rightarrow> bool" where
  "up_mem w \<longleftrightarrow> finite (dom (uplinks w)) \<and> fresh_above (uplinks w) (next_addr w)
     \<and> pblocks_live w = (\<Sum>a \<in> dom (uplinks w). own_blocks (the (uplinks w a)))
     \<and> (\<forall>a u. uplinks w a = Some u \<longrightarrow> up_wf u)"

lemma up_memD:
  assumes "up_mem w"
  shows "finite (dom (uplinks w))" and "fresh_above (uplinks w) (next_addr w)"
    and "pblocks_live w = (\<Sum>a \<in> dom (uplinks w). own_blocks (the (uplinks w a)))"
    and "uplinks w a = Some u \<Longrightarrow> up_wf u"
  using assms unfolding up_mem_def by blast+

text \<open>The blocks of the uplinks other than \<open>a\<close>.\<close>

definition rest_blocks :: "'a uplink_world_scheme \<Rightarrow> addr \<Rightarrow> nat" where
  "rest_blocks w a = (\<Sum>b \<in> dom (uplinks w) - {a}. own_blocks (the (uplinks w b)))"

lemma up_mem_split: "up_mem w \<Longrightarrow> uplinks w a = Some u \<Longrightarrow> pblocks_live w = own_blocks u + rest_blocks w a"
  using sum.remove [of "dom (uplinks w)" a "\<lambda>b. own_blocks (the (uplinks w b))"]
  by (auto simp: up_mem_def rest_blocks_def domI)

lemma up_mem_put:
  assumes m: "up_mem w" and u: "uplinks w a = Some u" and w': "uplinks w' = (uplinks w)(a \<mapsto> u')"
    and "pblocks_live w' + own_blocks u = pblocks_live w + own_blocks u'" and "up_wf u'"
    and "next_addr w \<le> next_addr w'"
  shows "up_mem w'"
proof -
  have "dom (uplinks w') = dom (uplinks w)" using u by (auto simp: w')
  moreover have "(\<Sum>b \<in> dom (uplinks w) - {a}. own_blocks (the (uplinks w' b))) = rest_blocks w a"
    unfolding rest_blocks_def by (rule sum.cong) (auto simp: w')
  moreover have "a \<in> dom (uplinks w)" using u by auto
  ultimately have "(\<Sum>b \<in> dom (uplinks w'). own_blocks (the (uplinks w' b))) = own_blocks u' + rest_blocks w a"
    using sum.remove [OF up_memD(1) [OF m], of a "\<lambda>b. own_blocks (the (uplinks w' b))"] w' by simp
  with assms up_mem_split [OF m u] fresh_above_mono [OF up_memD(2) [OF m] assms(6)] up_memD(1,4) [OF m]
  show ?thesis by (auto simp: up_mem_def)
qed

lemma up_mem_del:
  assumes m: "up_mem w" and u: "uplinks w a = Some u" and w': "uplinks w' = (uplinks w)(a := None)"
    and "pblocks_live w' = pblocks_live w - own_blocks u" and "next_addr w \<le> next_addr w'"
  shows "up_mem w'"
proof -
  have "(\<Sum>b \<in> dom (uplinks w'). own_blocks (the (uplinks w' b))) = rest_blocks w a"
    unfolding rest_blocks_def by (rule sum.cong) (auto simp: w' split: if_splits)
  with assms up_mem_split [OF m u] fresh_above_mono [OF up_memD(2) [OF m] assms(5)] up_memD(1,4) [OF m]
  show ?thesis by (auto simp: up_mem_def fresh_above_def split: if_splits)
qed

lemma up_mem_frame:
  "up_mem w \<Longrightarrow> uplinks w' = uplinks w \<Longrightarrow> pblocks_live w' = pblocks_live w \<Longrightarrow> next_addr w \<le> next_addr w' \<Longrightarrow> up_mem w'"
  by (auto simp: up_mem_def intro: fresh_above_mono)

subsection \<open>The operations that cannot end the uplink\<close>

lemma submit_mem:
  assumes "up_mem w" and "submit_block p w = Inr w'"
  shows "up_mem w'"
proof -
  from assms(2) obtain a u b where "p = Some a" "uplinks w a = Some u" "wblock u = Some b"
    "w' = put_uplink a (u\<lparr>up_queue := up_queue u @ [b], wblock := None\<rparr>) w"
    by (auto simp: submit_block_def bnd_simps split: option.splits)
  with assms(1) up_memD(4) [OF assms(1)] show ?thesis
    by (intro up_mem_put [OF assms(1), of a u w' "u\<lparr>up_queue := up_queue u @ [b], wblock := None\<rparr>"])
      (auto simp: own_blocks_def up_wf_def)
qed

lemma open_mem:
  assumes m: "up_mem w" and "uplink_open E dl arg w = (p, w')"
  shows "up_mem w'"
proof -
  have new: "up_mem x"
    if "uplinks x = (uplinks w)(next_addr w \<mapsto> new_uplink s arg)" "pblocks_live x = Suc (pblocks_live w)" "next_addr x = Suc (Suc (next_addr w))" for s x
  proof -
    have "next_addr w \<notin> dom (uplinks w)" using up_memD(2) [OF m] by auto
    moreover from this have "(\<Sum>b \<in> dom (uplinks w). own_blocks (the (((uplinks w)(next_addr w \<mapsto> new_uplink s arg)) b)))
        = pblocks_live w"
      unfolding up_memD(3) [OF m] by (intro sum.cong) auto
    moreover have "own_blocks (new_uplink s arg) = 1" "up_wf (new_uplink s arg)"
      by (simp_all add: own_blocks_def up_wf_def new_uplink_def)
    moreover have "fresh_above ((uplinks w)(next_addr w \<mapsto> new_uplink s arg)) (Suc (Suc (next_addr w)))"
      using fresh_above_Suc [OF up_memD(2) [OF m]] by (rule fresh_above_mono) simp
    ultimately show ?thesis using that up_memD(1,4) [OF m] by (simp add: up_mem_def)
  qed
  have "uplinks w' = uplinks w \<and> pblocks_live w' = pblocks_live w \<and> next_addr w \<le> next_addr w'
    \<or> (\<exists>s. uplinks w' = (uplinks w)(next_addr w \<mapsto> new_uplink s arg)
        \<and> pblocks_live w' = Suc (pblocks_live w) \<and> next_addr w' = Suc (Suc (next_addr w)))"
    using assms(2)
    by (auto simp: uplink_open_def pouch_block_alloc_def malloc_def ext_call_def Let_def split: if_splits)
  then show ?thesis using new up_mem_frame [OF m] by blast
qed

lemma write_loop_mem:
  assumes "up_mem w" and "write_loop E p payload w = Inr (ok, w')"
  shows "up_mem w'"
  using assms
proof (induction "length payload" arbitrary: payload w rule: less_induct)
  case less
  show ?case
  proof (cases "payload = []")
    case True
    with less.prems show ?thesis by (simp add: write_loop.simps [of E p "[]"])
  next
    case False
    from less.prems(2) False obtain a u w1 u1 where a: "p = Some a" "uplinks w a = Some u"
      "(case wblock u of None \<Rightarrow> Inr w | Some b \<Rightarrow> if length b = max_block_size E then submit_block p w else Inr w) = Inr w1"
      "uplinks w1 a = Some u1"
      by (auto simp: write_loop.simps [of E p payload w] bnd_simps)
    then have m1: "up_mem w1" using submit_mem less.prems(1) by (auto split: option.splits if_splits)
    define r where "r = (case wblock u1 of None \<Rightarrow> pouch_block_alloc E w1 | Some b \<Rightarrow> (Some b, w1))"
    have run: "(case r of (None, w) \<Rightarrow> Inr (False, w) | (Some b, w) \<Rightarrow>
        if max_block_size E < length b then Inl Buffer_overflow
        else let n = min (length payload) (max_block_size E - length b) in
          if n = 0 then Inl No_progress
          else write_loop E p (drop n payload) (put_uplink a (u1\<lparr>wblock := Some (b @ take n payload)\<rparr>) w))
        = Inr (ok, w')"
      using less.prems(2) [unfolded a(1)] False a(2,4) a(3) [unfolded a(1)]
      unfolding a(1) r_def by (simp add: write_loop.simps [of E "Some a" payload w])
    have r: "uplinks (snd r) = uplinks w1" "next_addr w1 \<le> next_addr (snd r)"
      "pblocks_live (snd r) = pblocks_live w1 + (if wblock u1 = None \<and> fst r \<noteq> None then 1 else 0)"
      by (cases E w1 rule: pouch_block_alloc_cases; auto simp: r_def split: option.splits)+
    show ?thesis
    proof (cases "fst r")
      case None
      with run have "w' = snd r" by (cases r) auto
      with up_mem_frame [OF m1 r(1) _ r(2)] r(3) None show ?thesis by simp
    next
      case (Some b)
      define n where "n = min (length payload) (max_block_size E - length b)"
      define u2 where "u2 = u1\<lparr>wblock := Some (b @ take n payload)\<rparr>"
      from run Some have "n \<noteq> 0" and rec: "write_loop E p (drop n payload) (put_uplink a u2 (snd r)) = Inr (ok, w')"
        by (cases r; auto simp: n_def u2_def Let_def split: if_splits)+
      have "up_mem (put_uplink a u2 (snd r))"
        using r Some up_memD(4) [OF m1 a(4)]
        by (intro up_mem_put [OF m1 a(4), of _ u2]) (auto simp: u2_def own_blocks_def up_wf_def r_def)
      with less.hyps [OF _ _ rec] \<open>n \<noteq> 0\<close> False show ?thesis by simp
    qed
  qed
qed

subsection \<open>What the owner of the end callback promises\<close>

text \<open>
  The callback may change its own records and call out, but the uplinks, their blocks and the
  addresses in use are none of its business.
\<close>

locale uplink_owner =
  fixes E :: "'e env_scheme" and ecb :: "'a end_cb"
  assumes ecb_uplinks: "ecb r c w = Inr w' \<Longrightarrow> uplinks w' = uplinks w"
    and ecb_blocks: "ecb r c w = Inr w' \<Longrightarrow> pblocks_live w' = pblocks_live w"
    and ecb_fresh: "ecb r c w = Inr w' \<Longrightarrow> next_addr w \<le> next_addr w'"
begin

text \<open>The end of an uplink: the callback, then the cleanup of everything the uplink owns.\<close>

lemma ending:
  assumes m: "up_mem w0" and u0: "uplinks w0 a = Some u0" and "uplinks w = (uplinks w0)(a \<mapsto> u)"
    and "pblocks_live w + own_blocks u0 = pblocks_live w0 + own_blocks u" and "next_addr w0 \<le> next_addr w"
    and run: "bnd (ecb r c w) (cleanup_uplink E (Some a)) = Inr w'"
  shows "up_mem w'" and "uplinks w' = (uplinks w0)(a := None)"
proof -
  from run obtain w1 where w1: "ecb r c w = Inr w1" "cleanup_uplink E (Some a) w1 = Inr w'"
    by (auto simp: bnd_simps)
  note cb = ecb_uplinks [OF w1(1)] ecb_blocks [OF w1(1)] ecb_fresh [OF w1(1)]
  from w1(2) cb assms(3) have w': "uplinks w' = (uplinks w0)(a := None)"
    "pblocks_live w' = pblocks_live w1 - own_blocks u" "next_addr w' = next_addr w1"
    by (auto simp: cleanup_uplink_def Let_def split: if_splits)
  moreover have "pblocks_live w' = pblocks_live w0 - own_blocks u0"
    using w'(2) cb(2) assms(4) up_mem_split [OF m u0] by simp
  ultimately show "up_mem w'" "uplinks w' = (uplinks w0)(a := None)"
    using up_mem_del [OF m u0, of w'] cb(3) assms(5) by auto
qed

lemma process_mem:
  assumes m: "up_mem w" and run: "process_uplink E ecb p w = Inr w'"
  shows "up_mem w'"
proof -
  from run obtain a u where p: "p = Some a" "uplinks w a = Some u"
    unfolding process_uplink_def by (rule deref_InrE)
  show ?thesis
  proof (cases "up_sending u")
    case True
    with run p m show ?thesis by (simp add: process_uplink_def)
  next
    case idle: False
    with up_memD(4) [OF m p(2)] have r: "rblock u = None" by (simp add: up_wf_def)
    show ?thesis
    proof (cases "up_queue u")
      case Nil
      show ?thesis
      proof (cases "up_closed u")
        case True
        let ?u = "u\<lparr>up_sending := True\<rparr>"
        have "bnd (ecb UPLINK_SUCCESS (end_cb_arg u) (put_uplink a ?u w)) (cleanup_uplink E (Some a)) = Inr w'"
          using run [unfolded p(1) process_end [OF p(2) idle Nil True]] .
        then show ?thesis
          by (rule ending(1) [OF m p(2), of "put_uplink a ?u w" ?u, rotated 3]) (simp_all add: own_blocks_def)
      next
        case False
        have "w' = put_uplink a u w"
          using run [unfolded p(1) process_rest [OF p(2) idle Nil False]] by simp
        then show ?thesis
          using up_memD(4) [OF m p(2)] by (intro up_mem_put [OF m p(2), of _ u]) simp_all
      qed
    next
      case (Cons b q)
      define u1 where "u1 = u\<lparr>up_sending := True, up_queue := q, rblock := Some b\<rparr>"
      define u2 where "u2 = u1\<lparr>block_idx := block_idx u + 1\<rparr>"
      define c where "c = Uplink_block (session u) (block_idx u) b (q = [] \<and> up_closed u)"
      define w2 where "w2 = put_uplink a u2 (w\<lparr>trace := trace w @ [c]\<rparr>)"
      have own: "own_blocks u1 = own_blocks u" "own_blocks u2 = own_blocks u" "up_wf u1" "up_wf u2"
        using r Cons by (simp_all add: u1_def u2_def own_blocks_def up_wf_def)
      have "process_uplink E ecb p w = (if \<not> cloud E then Inr (put_uplink a u1 w)
          else if b = [] then Inr ((put_uplink a (u1\<lparr>rblock := None, up_sending := False\<rparr>) w)
            \<lparr>pblocks_live := pblocks_live w - 1\<rparr>)
          else if ret E (trace w) c = 0 then Inr w2
          else bnd (ecb UPLINK_ERROR_LOCAL (end_cb_arg u) w2) (cleanup_uplink E (Some a)))"
        using p idle Cons by (simp add: process_uplink_def u1_def u2_def w2_def c_def ext_call_def Let_def)
      with run consider "w' = put_uplink a u1 w"
        | "w' = (put_uplink a (u1\<lparr>rblock := None, up_sending := False\<rparr>) w)\<lparr>pblocks_live := pblocks_live w - 1\<rparr>"
        | "w' = w2" | "bnd (ecb UPLINK_ERROR_LOCAL (end_cb_arg u) w2) (cleanup_uplink E (Some a)) = Inr w'"
        by (cases "cloud E"; cases "b = []"; cases "ret E (trace w) c = 0") simp_all
      then show ?thesis
      proof cases
        case 1
        with own show ?thesis by (intro up_mem_put [OF m p(2), of _ u1]) auto
      next
        case 2
        have "own_blocks (u1\<lparr>rblock := None, up_sending := False\<rparr>) = own_blocks u - 1" "0 < own_blocks u"
          using r Cons by (simp_all add: u1_def own_blocks_def)
        with 2 own up_mem_split [OF m p(2)] show ?thesis
          by (intro up_mem_put [OF m p(2), of _ "u1\<lparr>rblock := None, up_sending := False\<rparr>"])
            (auto simp: up_wf_def)
      next
        case 3
        with own show ?thesis by (intro up_mem_put [OF m p(2), of _ u2]) (auto simp: w2_def)
      next
        case 4
        with own show ?thesis by (intro ending(1) [OF m p(2), of w2 u2]) (auto simp: w2_def)
      qed
    qed
  qed
qed

lemma ack_mem:
  assumes m: "up_mem w" and run: "block_upload_callback E ecb status p w = Inr w'"
  shows "up_mem w'"
proof -
  from run obtain a u where p: "p = Some a" "uplinks w a = Some u"
    unfolding block_upload_callback_def by (rule deref_InrE)
  let ?u = "u\<lparr>up_sending := False, rblock := None\<rparr>"
  let ?w = "(put_uplink a ?u w)\<lparr>pblocks_live := pblocks_live w - (if rblock u = None then 0 else 1)\<rparr>"
  have live: "pblocks_live ?w + own_blocks u = pblocks_live w + own_blocks ?u"
    using up_mem_split [OF m p(2)] by (auto simp: own_blocks_def)
  have m1: "up_mem ?w" using live by (intro up_mem_put [OF m p(2), of _ ?u]) (auto simp: up_wf_def)
  have "block_upload_callback E ecb status p w = (if \<not> up_sending u then Inr w
      else if status \<noteq> GOLIOTH_OK then bnd (ecb UPLINK_ERROR_CLOUD (end_cb_arg u) ?w) (cleanup_uplink E (Some a))
      else process_uplink E ecb (Some a) ?w)"
    using p by (simp add: block_upload_callback_def Let_def)
  with run consider "w' = w" | "bnd (ecb UPLINK_ERROR_CLOUD (end_cb_arg u) ?w) (cleanup_uplink E (Some a)) = Inr w'"
    | "process_uplink E ecb (Some a) ?w = Inr w'"
    by (cases "up_sending u"; cases "status = GOLIOTH_OK") simp_all
  then show ?thesis
  proof cases
    case 1
    with m show ?thesis by simp
  next
    case 2
    then show ?thesis by (rule ending(1) [OF m p(2), of ?w ?u, rotated 3]) (use live in simp_all)
  next
    case 3
    with process_mem [OF m1] show ?thesis .
  qed
qed

lemma close_mem:
  assumes m: "up_mem w" and run: "uplink_close E ecb p w = Inr w'"
  shows "up_mem w'"
proof -
  from run obtain a u where p: "p = Some a" "uplinks w a = Some u"
    unfolding uplink_close_def by (rule deref_InrE)
  let ?w = "put_uplink a (u\<lparr>up_closed := True\<rparr>) w"
  have m1: "up_mem ?w"
    using up_memD(4) [OF m p(2)]
    by (intro up_mem_put [OF m p(2), of _ "u\<lparr>up_closed := True\<rparr>"]) (auto simp: own_blocks_def up_wf_def)
  have "uplink_close E ecb p w = bnd (if \<not> up_closed u \<and> wblock u \<noteq> None then submit_block p ?w else Inr ?w)
      (process_uplink E ecb p)"
    using p by (simp add: uplink_close_def Let_def)
  with run obtain w1 where w1: "(if \<not> up_closed u \<and> wblock u \<noteq> None then submit_block p ?w else Inr ?w) = Inr w1"
    "process_uplink E ecb p w1 = Inr w'" by (auto simp: bnd_eq_Inr)
  from w1(1) have "up_mem w1" using m1 submit_mem [OF m1] by (cases "\<not> up_closed u \<and> wblock u \<noteq> None") auto
  from process_mem [OF this w1(2)] show ?thesis .
qed

lemma write_mem:
  assumes m: "up_mem w" and run: "uplink_write E ecb p payload lst w = Inr (rc, w')"
  shows "up_mem w'"
proof -
  from run obtain ok w1 where w1: "write_loop E p payload w = Inr (ok, w1)"
    unfolding uplink_write_def by (auto elim!: bnd_InrE)
  note m1 = write_loop_mem [OF m w1]
  from run w1 have "w' = w1 \<or> uplink_close E ecb p w1 = Inr w' \<or> process_uplink E ecb p w1 = Inr w'"
    by (cases ok; cases lst) (auto simp: uplink_write_def elim!: bnd_InrE)
  with m1 close_mem [OF m1] process_mem [OF m1] show ?thesis by metis
qed

end

end
