(* ===== verification/Bt_Uplink.thy ===== *)
theory Bt_Uplink
  imports Bt_Downlink_Props Uplink_Props Uplink_Mem
begin

text \<open>
  \<open>lib/bt/uplink.c\<close>: receiving the uplink from the node, by notifications or by repeated
  reads, and what happens when the uplink ends.  Where a callback keeps the result of a call in
  the \<open>uint8_t\<close> of its error argument, the model tests the result itself: results are 0 or negative
  error numbers above -256 (\<open>uint8_error\<close>).
\<close>

subsection \<open>Operations\<close>

datatype iter = ITER_STOP | ITER_CONTINUE

text \<open>The owner's end callback.  The parameters handed to the host are the union's current content.\<close>

definition uplink_end_cb :: "'e env_scheme \<Rightarrow> uplink_result \<Rightarrow> conn \<Rightarrow> 'a gw_world_scheme
    \<Rightarrow> fault + 'a gw_world_scheme" where
  "uplink_end_cb E res c w =
     (let w = set_node c (node_uplink_update (\<lambda>_. NULL)) w;
          w = snd (ext_call E (Gatt_unsubscribe c (params (nodes w c))) w) in
      Inr (if res \<noteq> UPLINK_SUCCESS then bt_finished E c w else w))"

definition handle_uplink_payload :: "'e env_scheme \<Rightarrow> conn \<Rightarrow> bytes \<Rightarrow> 'a gw_world_scheme
    \<Rightarrow> fault + (iter \<times> 'a gw_world_scheme)" where
  "handle_uplink_payload E c packet w = (case pk_decode E packet of
     Inl _ \<Rightarrow> Inr (ITER_STOP, bt_finished E c w)
   | Inr (payload, lst) \<Rightarrow>
       bnd (uplink_write E (uplink_end_cb E) (node_uplink (nodes w c)) payload lst w) (\<lambda>(rc, w).
       if rc \<noteq> 0 then Inr (ITER_STOP, bt_finished E c w)
       else if lst then
         bnd (uplink_close E (uplink_end_cb E) (node_uplink (nodes w c)) w) (\<lambda>w.
           Inr (ITER_STOP, set_node c (node_uplink_update (\<lambda>_. NULL)) w))
       else Inr (ITER_CONTINUE, w)))"

definition uplink_read_cb :: "'e env_scheme \<Rightarrow> conn \<Rightarrow> byte \<Rightarrow> bytes \<Rightarrow> 'a gw_world_scheme
    \<Rightarrow> fault + (iter \<times> 'a gw_world_scheme)" where
  "uplink_read_cb E c err packet w =
     (if err \<noteq> 0 then Inr (ITER_STOP, w)
      else bnd (handle_uplink_payload E c packet w) (\<lambda>(it, w).
        if it = ITER_STOP then Inr (it, w)
        else Inr (ITER_STOP, snd (ext_call E (Gatt_read c (params (nodes w c))) w))))"

definition uplink_indicate_cb :: "'e env_scheme \<Rightarrow> conn \<Rightarrow> bytes option \<Rightarrow> 'a gw_world_scheme
    \<Rightarrow> fault + (iter \<times> 'a gw_world_scheme)" where
  "uplink_indicate_cb E c packet w = (case packet of
     None \<Rightarrow>
       if node_uplink (nodes w c) \<noteq> NULL then
         bnd (uplink_close E (uplink_end_cb E) (node_uplink (nodes w c)) w) (\<lambda>w.
           Inr (ITER_STOP, bt_finished E c (set_node c (node_uplink_update (\<lambda>_. NULL)) w)))
       else Inr (ITER_STOP, w)
   | Some packet \<Rightarrow> handle_uplink_payload E c packet w)"

definition uplink_start :: "'e env_scheme \<Rightarrow> conn \<Rightarrow> 'a gw_world_scheme \<Rightarrow> 'a gw_world_scheme" where
  "uplink_start E c w =
     (let (downlink, w) = downlink_start E c w;
          (up, w) = uplink_open E downlink c w;
          w = set_node c (node_uplink_update (\<lambda>_. up)) w in
      if up = NULL then bt_finished E c w
      else let h = attr_handles (nodes w c) ATTR_UPLINK in
        if attr_ccc h \<noteq> 0 then
          let prm = Subscribe_params Cb_uplink_indicate (attr_value h) (attr_ccc h);
              w = set_node c (params_update (\<lambda>_. prm)) w;
              (err, w) = ext_call E (Gatt_subscribe c prm) w in
          if err \<noteq> 0 then bt_finished E c w else w
        else
          let prm = Read_params Cb_uplink_read (attr_value h);
              w = set_node c (params_update (\<lambda>_. prm)) w;
              (err, w) = ext_call E (Gatt_read c prm) w in
          if err \<noteq> 0 then bt_finished E c w else w)"

definition uplink_cleanup :: "'e env_scheme \<Rightarrow> conn \<Rightarrow> 'a gw_world_scheme \<Rightarrow> fault + 'a gw_world_scheme" where
  "uplink_cleanup E c w = (if node_uplink (nodes w c) \<noteq> NULL then
       bnd (uplink_close E (uplink_end_cb E) (node_uplink (nodes w c)) w) (\<lambda>w.
         Inr (set_node c (node_uplink_update (\<lambda>_. NULL)) w))
     else Inr w)"

subsection \<open>The owner of the uplinks\<close>

interpretation bt_owner: uplink_owner E "uplink_end_cb E" for E :: "'e env_scheme"
  by unfold_locales (auto simp: uplink_end_cb_def bt_finished_def Let_def)

text \<open>Every way the glue and the cloud client work on uplinks.\<close>

inductive bt_up_step :: "'e env_scheme \<Rightarrow> 'a gw_world_scheme \<Rightarrow> 'a gw_world_scheme \<Rightarrow> bool" for E where
  "uplink_start E c w = w' \<Longrightarrow> bt_up_step E w w'"
| "uplink_read_cb E c err packet w = Inr (it, w') \<Longrightarrow> bt_up_step E w w'"
| "uplink_indicate_cb E c pkt w = Inr (it, w') \<Longrightarrow> bt_up_step E w w'"
| "uplink_cleanup E c w = Inr w' \<Longrightarrow> bt_up_step E w w'"
| "block_upload_callback E (uplink_end_cb E) status p w = Inr w' \<Longrightarrow> bt_up_step E w w'"

lemma bt_finished_mem [simp]: "up_mem (bt_finished E c w) = up_mem w"
  by (simp add: bt_finished_def up_mem_def)

lemma set_node_mem [simp]: "up_mem (set_node c f w) = up_mem w"
  by (simp add: up_mem_def)

lemma trace_mem [simp]: "up_mem (trace_update f w) = up_mem w"
  by (simp add: up_mem_def)

lemma handle_mem:
  assumes "up_mem w" and "handle_uplink_payload E c packet w = Inr (it, w')"
  shows "up_mem w'"
proof (cases "pk_decode E packet")
  case (Inl e)
  with assms show ?thesis by (auto simp: handle_uplink_payload_def)
next
  case (Inr r)
  obtain payload lst where r: "r = (payload, lst)" by (cases r)
  from assms(2) Inr r obtain rc w1 where w1:
    "uplink_write E (uplink_end_cb E) (node_uplink (nodes w c)) payload lst w = Inr (rc, w1)"
    by (auto simp: handle_uplink_payload_def elim!: bnd_InrE)
  note m1 = bt_owner.write_mem [OF assms(1) w1]
  show ?thesis
  proof (cases "rc = 0 \<and> lst")
    case True
    with assms(2) Inr r w1 obtain w2 where
      "uplink_close E (uplink_end_cb E) (node_uplink (nodes w1 c)) w1 = Inr w2"
      "w' = set_node c (node_uplink_update (\<lambda>_. NULL)) w2"
      by (auto simp: handle_uplink_payload_def elim!: bnd_InrE)
    with bt_owner.close_mem [OF m1] show ?thesis by simp
  next
    case False
    with assms(2) Inr r w1 m1 show ?thesis by (auto simp: handle_uplink_payload_def split: if_splits)
  qed
qed

lemma downlink_start_mem:
  assumes "up_mem w" and "downlink_start E c w = (p, w')"
  shows "up_mem w'"
proof -
  have "uplinks w' = uplinks w \<and> pblocks_live w' = pblocks_live w \<and> next_addr w \<le> next_addr w'"
    using assms(2)
    by (auto simp: downlink_start_def gatt_mtu_malloc_def malloc_def ext_call_def downlink_open_def
        packetizer_start_def put_downlink_def bt_finished_def Let_def split: if_splits)
  with assms(1) show ?thesis using up_mem_frame by blast
qed

lemma uplink_start_mem:
  assumes "up_mem w"
  shows "up_mem (uplink_start E c w)"
proof -
  obtain p w1 where w1: "downlink_start E c w = (p, w1)" by (cases "downlink_start E c w")
  obtain q w2 where w2: "uplink_open E p c w1 = (q, w2)" by (cases "uplink_open E p c w1")
  from open_mem [OF downlink_start_mem [OF assms w1] w2] show ?thesis
    by (simp add: uplink_start_def w1 w2 Let_def ext_call_def)
qed

lemma bt_up_step_mem: "bt_up_step E w w' \<Longrightarrow> up_mem w \<Longrightarrow> up_mem w'"
proof (induction rule: bt_up_step.induct)
  case (1 c w w')
  then show ?case using uplink_start_mem by blast
next
  case (2 c err packet w it w')
  show ?case
  proof (cases "err = 0")
    case True
    with 2(1) obtain it1 w1 where w1: "handle_uplink_payload E c packet w = Inr (it1, w1)"
      "up_mem w' = up_mem w1"
      by (auto simp: uplink_read_cb_def elim!: bnd_InrE split: if_splits)
    from handle_mem [OF 2(2) w1(1)] w1(2) show ?thesis by simp
  next
    case False
    with 2 show ?thesis by (simp add: uplink_read_cb_def)
  qed
next
  case (3 c pkt w it w')
  show ?case
  proof (cases pkt)
    case None
    with 3(1) have "w' = w \<or> (\<exists>w1. uplink_close E (uplink_end_cb E) (node_uplink (nodes w c)) w = Inr w1
        \<and> w' = bt_finished E c (set_node c (node_uplink_update (\<lambda>_. NULL)) w1))"
      by (auto simp: uplink_indicate_cb_def elim!: bnd_InrE split: if_splits)
    with 3(2) bt_owner.close_mem [OF 3(2)] show ?thesis by auto
  next
    case (Some packet)
    with 3 handle_mem show ?thesis by (simp add: uplink_indicate_cb_def)
  qed
next
  case (4 c w w')
  then have "w' = w \<or> (\<exists>w1. uplink_close E (uplink_end_cb E) (node_uplink (nodes w c)) w = Inr w1
      \<and> w' = set_node c (node_uplink_update (\<lambda>_. NULL)) w1)"
    by (auto simp: uplink_cleanup_def elim!: bnd_InrE split: if_splits)
  with 4(2) bt_owner.close_mem [OF 4(2)] show ?case by auto
next
  case (5 status p w w')
  then show ?case using bt_owner.ack_mem by blast
qed

end

