(* ===== verification/Bt_Uplink_Props.thy ===== *)
theory Bt_Uplink_Props
  imports Bt_Uplink
begin

text \<open>
  The uplink glue: its memory is accounted for in every history, it asks the node for data in
  the way the node supports; and the places where the end of an uplink meets code that
  still believes in it.
\<close>

subsection \<open>A small connection with an uplink\<close>

definition gw_up :: gw_world where
  "gw_up = gw_boot\<lparr>trace := [Malloc, Malloc, Uplink_start NULL], next_addr := 2,
     uplinks := [0 \<mapsto> new_uplink 1 0], pblocks_live := 1,
     nodes := (nodes gw_boot)(0 := (nodes gw_boot 0)\<lparr>node_uplink := Some 0\<rparr>)\<rparr>"

lemma gw_up_simps [simp]:
  "node_uplink (nodes gw_up 0) = Some 0" "uplinks gw_up = [0 \<mapsto> new_uplink 1 0]"
  "trace gw_up = [Malloc, Malloc, Uplink_start NULL]" "pblocks_live gw_up = 1" "next_addr gw_up = 2"
  by (simp_all add: gw_up_def)

lemma gw_up_mem: "up_mem gw_up"
  by (simp add: up_mem_def fresh_above_def own_blocks_def new_uplink_def up_wf_def)

text \<open>The same platform, but the cloud client accepts no block.\<close>

definition refusing_env :: env where
  "refusing_env = small_env\<lparr>ret := (\<lambda>_ c. case c of Malloc \<Rightarrow> 1 | Uplink_block _ _ _ _ \<Rightarrow> 5 | _ \<Rightarrow> 0)\<rparr>"

lemma refusing_env_simps [simp]:
  "max_block_size refusing_env = 4" "cloud refusing_env" "wf_env refusing_env"
  "ret refusing_env t (Uplink_block s i b l) = 5" "pk_decode refusing_env (1 # bs) = Inr (bs, True)"
  by (simp_all add: refusing_env_def small_env_def wf_env_def)

text \<open>The request that starts the transfer from the node.\<close>

definition uplink_request :: "conn \<Rightarrow> attr_handle \<Rightarrow> ext_call" where
  "uplink_request c h = (if attr_ccc h \<noteq> 0
     then Gatt_subscribe c (Subscribe_params Cb_uplink_indicate (attr_value h) (attr_ccc h))
     else Gatt_read c (Read_params Cb_uplink_read (attr_value h)))"

subsection \<open>The properties\<close>

text \<open>
  No history of the uplink glue leaks a block or counts one twice.  After any sequence of
  starts, received packets, terminations, disconnects and upload callbacks, of any number of
  connections, the blocks allocated are those of the uplinks that are alive; once no uplink is
  left, none is allocated.
\<close>

theorem uplink_memory_accounted:
  assumes "(bt_up_step E)\<^sup>*\<^sup>* w w'" and "up_mem w"
  shows "up_mem w' \<and> (dom (uplinks w') = {} \<longrightarrow> pblocks_live w' = 0)"
proof -
  from assms have "up_mem w'" by (induction rule: rtranclp_induct) (auto intro: bt_up_step_mem)
  then show ?thesis by (simp add: up_mem_def)
qed

theorem uplink_memory_accounted_witness:
  "\<exists>w'. (bt_up_step small_env)\<^sup>*\<^sup>* gw_up w' \<and> dom (uplinks w') \<noteq> {} \<and> up_mem w'"
proof -
  have "uplink_read_cb small_env 0 1 [] gw_up = Inr (ITER_STOP, gw_up)" by (simp add: uplink_read_cb_def)
  then have run: "(bt_up_step small_env)\<^sup>*\<^sup>* gw_up gw_up" by (intro r_into_rtranclp bt_up_step.intros(2))
  from uplink_memory_accounted [OF this gw_up_mem] run show ?thesis by (intro exI [of _ gw_up]) simp
qed

text \<open>
  C37: closing twice dereferences NULL, shown for an uplink of one packet that fits into one block.
  When the packet, which carries the end mark, makes the uplink fail at once, because the cloud client refuses the block, the end callback clears the
  node's pointer and the uplink is freed inside the write; the handler, told that the write
  succeeded, then closes the uplink through the NULL it now finds in the node record.
\<close>

theorem refused_last_packet_faults:
  assumes node: "node_uplink (nodes w c) = Some a" and u: "uplinks w a = Some (new_uplink s c)"
    and "cloud E" and "wf_env E" and dec: "pk_decode E packet = Inr (p, True)" and "p \<noteq> []"
    and "length p \<le> max_block_size E" and refused: "ret E (trace w) (Uplink_block s 0 p True) \<noteq> 0"
  shows "handle_uplink_payload E c packet w = Inl Null_deref"
proof -
  define u1 where "u1 = (new_uplink s c)\<lparr>wblock := Some p\<rparr>"
  define w1 where "w1 = put_uplink a u1 w"
  define u2 where "u2 = u1\<lparr>up_closed := True, up_queue := up_queue u1 @ [p], wblock := None\<rparr>"
  define w2 where "w2 = put_uplink a u2 w1"
  define w3 where "w3 = launched a u2 p [] w2"
  have new: "wblock (new_uplink s c) = Some []" "0 < max_block_size E"
    using assms(4) by (simp_all add: new_uplink_def)
  have loop: "write_loop E (Some a) p w = Inr (True, w1)"
    using write_round_fill [OF u new(1), of E p] assms(6,7) new(2)
    by (simp add: write_loop.simps [of E "Some a" "[]"] w1_def u1_def)
  have close: "uplink_close E ecb (Some a) w1 = process_uplink E ecb (Some a) w2" for ecb
    using close_open [of w1 a u1 p E ecb] by (simp add: w1_def w2_def u1_def u2_def new_uplink_def)
  have u2: "uplinks w2 a = Some u2" "\<not> up_sending u2" "up_queue u2 = [p]" "session u2 = s" "block_idx u2 = 0"
    "up_closed u2" "end_cb_arg u2 = c" "trace w2 = trace w"
    by (simp_all add: w2_def w1_def u2_def u1_def new_uplink_def)
  have "process_uplink E (uplink_end_cb E) (Some a) w2
      = bnd (uplink_end_cb E UPLINK_ERROR_LOCAL c w3) (cleanup_uplink E (Some a))"
    using process_send [OF u2(1-3) assms(6,3), of "uplink_end_cb E"] refused u2(4-8) by (simp add: w3_def)
  moreover have "uplinks w3 a \<noteq> None" by (simp add: w3_def launched_def)
  ultimately obtain w4 where w4: "process_uplink E (uplink_end_cb E) (Some a) w2 = Inr w4"
    "node_uplink (nodes w4 c) = NULL"
    by (auto simp: uplink_end_cb_def cleanup_uplink_def bt_finished_def Let_def)
  then have "uplink_write E (uplink_end_cb E) (Some a) p True w = Inr (0, w4)"
    by (simp add: uplink_write_def loop close)
  then show ?thesis
    by (simp add: handle_uplink_payload_def dec node w4(2) uplink_close_def)
qed

theorem refused_last_packet_faults_witness:
  "handle_uplink_payload refusing_env 0 [1, 7, 8] gw_up = Inl Null_deref"
  by (rule refused_last_packet_faults [where a = 0 and s = 1 and p = "[7, 8]"]) simp_all

text \<open>
  An uplink that outlives its connection ends the next one's.  The callback only knows the
  connection object, whose slot may have been taken over by another node: when an upload of
  the old uplink fails, the new connection loses the pointer to its uplink, which stays
  allocated and open, its parameters are unsubscribed, and it is disconnected.
\<close>

theorem late_end_hits_next_connection:
  assumes u: "uplinks w a = Some u" and "up_sending u" and "end_cb_arg u = c" and "status \<noteq> GOLIOTH_OK"
    and node: "node_uplink (nodes w c) = Some b" and "b \<noteq> a" and new: "uplinks w b = Some ub"
  shows "\<exists>w'. block_upload_callback E (uplink_end_cb E) status (Some a) w = Inr w'
    \<and> node_uplink (nodes w' c) = NULL \<and> uplinks w' b = Some ub \<and> uplinks w' a = None
    \<and> (\<exists>tr. trace w' = trace w @ [Gatt_unsubscribe c (params (nodes w c)), Conn_disconnect c] @ tr)"
  using assms
  by (simp add: block_upload_callback_def uplink_end_cb_def cleanup_uplink_def bt_finished_def Let_def ext_call_def)

theorem late_end_hits_next_connection_witness:
  "\<exists>w'. block_upload_callback small_env (uplink_end_cb small_env) GOLIOTH_ERR_OTHER (Some 1)
       (put_uplink 1 ((new_uplink 2 0)\<lparr>up_sending := True, rblock := Some [1]\<rparr>) gw_up) = Inr w'
     \<and> node_uplink (nodes w' 0) = NULL \<and> uplinks w' 0 = Some (new_uplink 1 0)"
proof -
  let ?u = "(new_uplink 2 0)\<lparr>up_sending := True, rblock := Some [1]\<rparr>"
  have n: "nodes (put_uplink 1 ?u gw_up) = nodes gw_up" by (simp add: put_uplink_def)
  from late_end_hits_next_connection [of "put_uplink 1 ?u gw_up" 1 ?u 0 GOLIOTH_ERR_OTHER 0 "new_uplink 1 0" small_env] n
  show ?thesis by (auto simp: new_uplink_def)
qed

text \<open>
  The parameters of the uplink's subscription are overwritten while it is active.  They
  share their memory with the parameters of a write; a downlink write before the end of the
  uplink replaces them, and the end callback then unsubscribes with the write's parameters.
\<close>

theorem downlink_write_clobbers_subscription:
  assumes "dl_ready E a w" and "wired c a p m w" and "good_link E c m" and "faithful E"
    and "params (nodes w c) = Subscribe_params cb vh ch"
  shows "\<exists>w1 w2 out. write_downlink_characteristic E c w = Inr (0, w1)
    \<and> uplink_end_cb E UPLINK_SUCCESS c w1 = Inr w2
    \<and> trace w2 = trace w1 @ [Gatt_unsubscribe c
        (Write_params Cb_downlink_write_response (value_handle w c ATTR_DOWNLINK) out)]"
proof -
  from write_ready [OF assms(1-4)] obtain w1 out where
    "write_downlink_characteristic E c w = Inr (0, w1)"
    "params (nodes w1 c) = Write_params Cb_downlink_write_response (value_handle w c ATTR_DOWNLINK) out" by blast
  then show ?thesis by (simp add: uplink_end_cb_def Let_def ext_call_def)
qed

theorem downlink_write_clobbers_subscription_witness:
  "\<exists>(w :: gw_world) w1 w2 out. params (nodes w 0) = Subscribe_params Cb_uplink_indicate 5 6
     \<and> write_downlink_characteristic small_env 0 w = Inr (0, w1) \<and> uplink_end_cb small_env UPLINK_SUCCESS 0 w1 = Inr w2
     \<and> last (trace w2) = Gatt_unsubscribe 0 (Write_params Cb_downlink_write_response (value_handle w 0 ATTR_DOWNLINK) out)"
proof -
  from gw_block [of "[1, 2]" True] obtain w :: gw_world and d where
    w: "downlinks w = [1 \<mapsto> d]" "segs w d = [([1, 2], True)]" "\<not> complete d" "\<not> aborted d" "dl_inv small_env w"
      "wired 0 1 2 23 w" by auto
  let ?w = "set_node 0 (params_update (\<lambda>_. Subscribe_params Cb_uplink_indicate 5 6)) w"
  have ready: "dl_ready small_env 1 w" using w by (simp add: dl_ready_def)
  have "dl_ready small_env 1 ?w" by (rule dl_ready_frame(1) [OF _ _ _ _ ready]) simp_all
  moreover have "wired 0 1 2 23 ?w" using w(6) by (simp add: wired_def)
  moreover have "params (nodes ?w 0) = Subscribe_params Cb_uplink_indicate 5 6" by simp
  ultimately show ?thesis
    using downlink_write_clobbers_subscription [OF _ _ small_env_link, of 1 ?w 0 2] by fastforce
qed

text \<open>
  Starting the uplink.  When the downlink and the uplink could be opened, exactly one GATT request goes
  out: a subscription if the uplink characteristic has a CCC descriptor, otherwise a read, each
  with the handles of the uplink characteristic; if the request is refused, the connection is
  dropped.  If the uplink cannot be opened, no request goes out and the connection is dropped -
  but the downlink context and the packetizer just created stay allocated.
\<close>

theorem uplink_start_outcome:
  assumes "downlink_start E c w = (dl, w1)" and "uplink_open E dl c w1 = (up, w2)"
    and "req = uplink_request c (attr_handles (nodes w2 c) ATTR_UPLINK)"
  shows "trace (uplink_start E c w) = trace w2 @ (if up = NULL then [Conn_disconnect c]
      else if ret E (trace w2) req \<noteq> 0 then [req, Conn_disconnect c] else [req])
    \<and> node_uplink (nodes (uplink_start E c w) c) = up
    \<and> downlinks (uplink_start E c w) = downlinks w1 \<and> packetizers (uplink_start E c w) = packetizers w1"
proof -
  have "downlinks w2 = downlinks w1 \<and> packetizers w2 = packetizers w1"
    using assms(2)
    by (auto simp: uplink_open_def malloc_def pouch_block_alloc_def ext_call_def Let_def put_uplink_def split: if_splits)
  with assms show ?thesis
    by (simp add: uplink_start_def Let_def ext_call_def bt_finished_def uplink_request_def)
qed

theorem uplink_start_outcome_witness:
  "last (trace (uplink_start small_env 0 gw_boot)) = Gatt_read 0 (Read_params Cb_uplink_read 5)"
proof -
  obtain up w2 where w2: "uplink_open small_env (Some 1) 0 gw_wired = (up, w2)" by (cases "uplink_open small_env (Some 1) 0 gw_wired")
  then have "nodes w2 = nodes gw_wired \<and> up \<noteq> NULL"
    by (auto simp: uplink_open_def malloc_def pouch_block_alloc_def ext_call_def Let_def)
  moreover have "attr_handles (nodes gw_wired 0) ATTR_UPLINK = \<lparr>attr_value = 5, attr_ccc = 0\<rparr>"
    by (simp add: gw_wired_def gw_boot_def)
  ultimately show ?thesis
    using uplink_start_outcome [OF gw_wired_run w2 refl] by (simp add: uplink_request_def)
qed

end
