(* ===== verification/Bt_Cert.thy ===== *)
theory Bt_Cert
  imports Bt_Uplink_Props Cert_Props
begin

text \<open>
  \<open>lib/bt/cert.c\<close>: the certificate exchange that precedes the uplink.  The node's idea of the
  server certificate's serial number is read; if it differs, the certificate is written
  to the node, again if it was refreshed meanwhile; then the device certificate is read and the
  uplink starts.  The read callbacks always stop the iteration, so they return the world only.
  Where a callback keeps the result of a request in the \<open>uint8_t\<close> of its error argument, the model
  tests the result itself: results are 0 or negative error numbers above -256 (\<open>uint8_error\<close>).
\<close>

subsection \<open>Operations\<close>

definition server_cert_cleanup :: "'e env_scheme \<Rightarrow> conn \<Rightarrow> 'a gw_world_scheme \<Rightarrow> fault + 'a gw_world_scheme" where
  "server_cert_cleanup E c w =
     bnd (if server_cert_scratch (nodes w c) \<noteq> NULL then
            bnd (free_scratch (server_cert_scratch (nodes w c)) w) (\<lambda>w.
              Inr (set_node c (server_cert_scratch_update (\<lambda>_. NULL)) w))
          else Inr w) (\<lambda>w.
     bnd (if server_cert_ctx (nodes w c) \<noteq> NULL then
            bnd (server_cert_abort (server_cert_ctx (nodes w c)) w) (\<lambda>w.
              Inr (set_node c (server_cert_ctx_update (\<lambda>_. NULL)) w))
          else Inr w) (\<lambda>w.
     if packetizer (nodes w c) \<noteq> NULL then
       bnd (packetizer_finish E (packetizer (nodes w c)) w) (\<lambda>w.
         Inr (set_node c (packetizer_update (\<lambda>_. NULL)) w))
     else Inr w))"

text \<open>Cleaning up and dropping the connection.\<close>

definition server_cert_fail :: "'e env_scheme \<Rightarrow> conn \<Rightarrow> 'a gw_world_scheme \<Rightarrow> fault + 'a gw_world_scheme" where
  "server_cert_fail E c w = bnd (server_cert_cleanup E c w) (\<lambda>w. Inr (bt_finished E c w))"

definition device_cert_cleanup :: "conn \<Rightarrow> 'a gw_world_scheme \<Rightarrow> fault + 'a gw_world_scheme" where
  "device_cert_cleanup c w = (if device_cert_ctx (nodes w c) \<noteq> NULL then
       bnd (device_cert_abort (device_cert_ctx (nodes w c)) w) (\<lambda>w.
         Inr (set_node c (device_cert_ctx_update (\<lambda>_. NULL)) w))
     else Inr w)"

definition device_cert_fail :: "'e env_scheme \<Rightarrow> conn \<Rightarrow> 'a gw_world_scheme \<Rightarrow> fault + 'a gw_world_scheme" where
  "device_cert_fail E c w = bnd (device_cert_cleanup c w) (\<lambda>w. Inr (bt_finished E c w))"

definition write_server_cert_characteristic :: "'e env_scheme \<Rightarrow> conn \<Rightarrow> 'a gw_world_scheme
    \<Rightarrow> fault + (int \<times> 'a gw_world_scheme)" where
  "write_server_cert_characteristic E c w =
     (let h = value_handle w c ATTR_SERVER_CERT; m = mtu E (trace w) c in
      if m < BT_ATT_OVERHEAD then Inr (- EIO, w)
      else bnd (packetizer_get E (packetizer (nodes w c)) (server_cert_scratch (nodes w c)) (m - BT_ATT_OVERHEAD) w)
        (\<lambda>(res, out, w).
          if res = PK_ERROR then Inr (ext_call E (Packetizer_error (packetizer (nodes w c))) w)
          else let prm = Write_params Cb_server_cert_write_response h out;
                   w = set_node c (params_update (\<lambda>_. prm)) w;
                   (res, w) = ext_call E (Gatt_write c prm) w in
            bnd (if res < 0 then server_cert_fail E c w else Inr w) (\<lambda>w. Inr (0, w))))"

definition device_cert_read_start :: "'e env_scheme \<Rightarrow> conn \<Rightarrow> 'a gw_world_scheme \<Rightarrow> fault + 'a gw_world_scheme" where
  "device_cert_read_start E c w =
     bnd (device_cert_start E (set_node c (params_update (\<lambda>_. No_params)) w)) (\<lambda>(ctx, w).
     let w = set_node c (device_cert_ctx_update (\<lambda>_. ctx)) w;
         prm = Read_params Cb_device_cert_read (value_handle w c ATTR_DEVICE_CERT);
         w = set_node c (params_update (\<lambda>_. prm)) w;
         (err, w) = ext_call E (Gatt_read c prm) w in
     if err \<noteq> 0 then device_cert_fail E c w else Inr w)"

text \<open>The result of the first write is ignored.\<close>

definition server_cert_write_start :: "'e env_scheme \<Rightarrow> conn \<Rightarrow> 'a gw_world_scheme \<Rightarrow> fault + 'a gw_world_scheme" where
  "server_cert_write_start E c w =
     (if value_handle w c ATTR_SERVER_CERT = 0 then server_cert_fail E c w
      else let (buf, w) = gatt_mtu_malloc E c w;
               w = set_node c (server_cert_scratch_update (\<lambda>_. buf)) w in
        if buf = NULL then server_cert_fail E c w
        else bnd (server_cert_start E w) (\<lambda>(ctx, w).
          let w = set_node c (server_cert_ctx_update (\<lambda>_. ctx)) w;
              (pk, w) = packetizer_start E Fill_server_cert ctx w;
              w = set_node c (packetizer_update (\<lambda>_. pk)) w in
          bnd (write_server_cert_characteristic E c w) (\<lambda>(_, w). Inr w)))"

definition server_cert_write_response_cb :: "'e env_scheme \<Rightarrow> conn \<Rightarrow> byte \<Rightarrow> 'a gw_world_scheme
    \<Rightarrow> fault + 'a gw_world_scheme" where
  "server_cert_write_response_cb E c err w =
     bnd (server_cert_is_complete (server_cert_ctx (nodes w c)) w) (\<lambda>fin.
     if fin then
       bnd (server_cert_is_newest (server_cert_ctx (nodes w c)) w) (\<lambda>newest.
       bnd (server_cert_cleanup E c w) (\<lambda>w.
         if newest then device_cert_read_start E c w else server_cert_write_start E c w))
     else bnd (write_server_cert_characteristic E c w) (\<lambda>(rc, w).
       if rc \<noteq> 0 then server_cert_fail E c w else Inr w))"

definition server_cert_read_cb :: "'e env_scheme \<Rightarrow> conn \<Rightarrow> byte \<Rightarrow> bytes \<Rightarrow> 'a gw_world_scheme
    \<Rightarrow> fault + 'a gw_world_scheme" where
  "server_cert_read_cb E c err packet w =
     (if err \<noteq> 0 then Inr w
      else if packet = [] then server_cert_write_start E c w
      else case pk_decode E packet of
        Inl _ \<Rightarrow> server_cert_fail E c w
      | Inr (payload, lst) \<Rightarrow>
          if lst then
            bnd (server_cert_get_serial (replicate CERT_SERIAL_MAXLEN 0) CERT_SERIAL_MAXLEN w) (\<lambda>(serial, n).
              if payload \<noteq> [] \<and> length payload = n \<and> take n serial = payload
              then device_cert_read_start E c w else server_cert_write_start E c w)
          else Inr (snd (ext_call E (Gatt_read c (params (nodes w c))) w)))"

text \<open>The result of the push is ignored.\<close>

definition device_cert_read_cb :: "'e env_scheme \<Rightarrow> conn \<Rightarrow> byte \<Rightarrow> bytes \<Rightarrow> 'a gw_world_scheme
    \<Rightarrow> fault + 'a gw_world_scheme" where
  "device_cert_read_cb E c err packet w =
     (if err \<noteq> 0 then Inr w
      else if packet = [] then device_cert_fail E c w
      else case pk_decode E packet of
        Inl _ \<Rightarrow> device_cert_fail E c w
      | Inr (payload, lst) \<Rightarrow>
          bnd (device_cert_push E (device_cert_ctx (nodes w c)) payload w) (\<lambda>(_, w).
          if lst then
            bnd (device_cert_finish E (device_cert_ctx (nodes w c)) w) (\<lambda>(err, w).
              if err \<noteq> 0 then device_cert_fail E c w else Inr (uplink_start E c w))
          else let (err, w) = ext_call E (Gatt_read c (params (nodes w c))) w in
            if err \<noteq> 0 then device_cert_fail E c w else Inr w))"

definition server_cert_serial_read_start :: "'e env_scheme \<Rightarrow> conn \<Rightarrow> 'a gw_world_scheme \<Rightarrow> fault + 'a gw_world_scheme" where
  "server_cert_serial_read_start E c w =
     (let prm = Read_params Cb_server_cert_read (value_handle w c ATTR_SERVER_CERT);
          w = set_node c (params_update (\<lambda>_. prm)) w;
          (err, w) = ext_call E (Gatt_read c prm) w in
      if err \<noteq> 0 then server_cert_fail E c w else Inr w)"

definition cert_exchange_start :: "'e env_scheme \<Rightarrow> conn \<Rightarrow> 'a gw_world_scheme \<Rightarrow> fault + 'a gw_world_scheme" where
  "cert_exchange_start E c w = server_cert_serial_read_start E c w"

end

