(* ===== verification/Bt_Cert_Props.thy ===== *)
theory Bt_Cert_Props
  imports Bt_Cert
begin

text \<open>
  The certificate exchange seen from the node: which way the serial number sends it, the
  certificate arriving whole, and the errors that are lost on the way.
\<close>

subsection \<open>Writing the server certificate\<close>

definition wired_cert :: "conn \<Rightarrow> addr \<Rightarrow> addr \<Rightarrow> nat \<Rightarrow> 'a gw_world_scheme \<Rightarrow> bool" where
  "wired_cert c a p m w \<longleftrightarrow> server_cert_ctx (nodes w c) = Some a \<and> packetizer (nodes w c) = Some p
     \<and> packetizers w p = Some (Fill_server_cert, Some a)
     \<and> (\<exists>b size. server_cert_scratch (nodes w c) = Some b \<and> scratches w b = Some size \<and> m - BT_ATT_OVERHEAD \<le> size)"

lemma cert_frame [simp]:
  "cert_left a (set_node c f w) = cert_left a w" "cert_left a (w\<lparr>trace := t\<rparr>) = cert_left a w"
  "cert_ready a (set_node c f w) = cert_ready a w" "cert_ready a (w\<lparr>trace := t\<rparr>) = cert_ready a w"
  by (simp_all add: cert_left_def cert_ready_def crt_def cong: option.case_cong)

lemma cert_fill_ready:
  assumes "cert_ready a w" and "dst \<noteq> []" and x: "server_ctxs w a = Some x"
  shows "\<exists>bs l y. server_cert_fill_cb E dst (Some a) w = Inr (if l then PK_NO_MORE_DATA else PK_MORE_DATA, bs,
        w\<lparr>server_ctxs := (server_ctxs w)(a \<mapsto> y)\<rparr>)
    \<and> sc_id y = sc_id x \<and> bs \<noteq> []
    \<and> bs @ cert_left a (w\<lparr>server_ctxs := (server_ctxs w)(a \<mapsto> y)\<rparr>) = cert_left a w
    \<and> (if l then cert_left a (w\<lparr>server_ctxs := (server_ctxs w)(a \<mapsto> y)\<rparr>) = [] \<and> sc_offset y = server_crt_len w
       else cert_ready a (w\<lparr>server_ctxs := (server_ctxs w)(a \<mapsto> y)\<rparr>))"
proof -
  from assms have c: "server_crt_len w \<le> length (server_crt_buf w)" "sc_offset x < server_crt_len w"
    by (simp_all add: cert_ready_def)
  define k where "k = min (length dst) (server_crt_len w - sc_offset x)"
  define y where "y = x\<lparr>sc_offset := sc_offset x + k\<rparr>"
  define bs where "bs = take k (drop (sc_offset x) (crt w))"
  define l where "l = (sc_offset x + k = server_crt_len w)"
  let ?w = "w\<lparr>server_ctxs := (server_ctxs w)(a \<mapsto> y)\<rparr>"
  have len: "length (crt w) = server_crt_len w" using c(1) by (simp add: crt_def)
  have k: "0 < k" "sc_offset x + k \<le> server_crt_len w" using assms(2) c(2) by (auto simp: k_def)
  have lbs: "length bs = k" using len k by (simp add: bs_def)
  have get: "server_cert_get_data (Some a) dst (length dst) w = Inr (0, bs @ drop k dst, k, l, ?w)"
    using get_data_run [OF x c, of "length dst" dst] by (simp add: k_def y_def bs_def l_def)
  have left: "cert_left a ?w = drop k (drop (sc_offset x) (crt w))"
    by (simp add: cert_left_def y_def crt_def add.commute)
  then have "bs @ cert_left a ?w = cert_left a w"
    using append_take_drop_id [of k "drop (sc_offset x) (crt w)"] x by (simp only: cert_left_def option.case bs_def)
  moreover have "cert_left a ?w = []" if l using that len left by (simp add: l_def)
  moreover have "cert_ready a ?w" if "\<not> l" using that k(2) c(1) by (simp add: cert_ready_def y_def l_def)
  moreover have "bs \<noteq> []" using lbs k(1) by auto
  moreover have "server_cert_fill_cb E dst (Some a) w = Inr (if l then PK_NO_MORE_DATA else PK_MORE_DATA, bs, ?w)"
    using get lbs by (simp add: server_cert_fill_cb_def)
  ultimately show ?thesis
    by (intro exI [of _ bs] exI [of _ l] exI [of _ y]) (simp add: y_def l_def)
qed

text \<open>What a write of the certificate from the context \<open>a\<close> leaves alone.\<close>

definition beside_cert :: "conn \<Rightarrow> addr \<Rightarrow> 'a gw_world_scheme \<Rightarrow> 'a gw_world_scheme \<Rightarrow> bool" where
  "beside_cert c a w w' \<longleftrightarrow> streams w' = streams w \<and> packetizers w' = packetizers w \<and> scratches w' = scratches w
     \<and> device_ctxs w' = device_ctxs w \<and> (server_ctxs w')(a := None) = (server_ctxs w)(a := None) \<and> next_addr w' = next_addr w
     \<and> (\<exists>q. nodes w' = (nodes w)(c := (nodes w c)\<lparr>params := q\<rparr>))"

lemma write_cert_ready:
  assumes "cert_ready a w" and "wired_cert c a p m w" and "good_link E c m" and "faithful E"
    and x: "server_ctxs w a = Some x"
  shows "\<exists>w' bs l y. write_server_cert_characteristic E c w = Inr (0, w') \<and> wired_cert c a p m w'
    \<and> written_to E c (trace w') = written_to E c (trace w) @ bs \<and> bs @ cert_left a w' = cert_left a w
    \<and> bs \<noteq> [] \<and> server_ctxs w' a = Some y \<and> sc_id y = sc_id x \<and> server_crt_id w' = server_crt_id w
    \<and> server_crt_len w' = server_crt_len w \<and> attr_handles (nodes w' c) = attr_handles (nodes w c)
    \<and> (if l then cert_left a w' = [] \<and> sc_offset y = server_crt_len w else cert_ready a w')
    \<and> (\<exists>g. trace w' = trace w @ [Gatt_write c g]) \<and> beside_cert c a w w'"
proof -
  from assms(2) obtain b size where b: "server_cert_scratch (nodes w c) = Some b" "scratches w b = Some size"
    "m - BT_ATT_OVERHEAD \<le> size" "packetizer (nodes w c) = Some p"
    "packetizers w p = Some (Fill_server_cert, Some a)" "server_cert_ctx (nodes w c) = Some a"
    by (auto simp: wired_cert_def)
  let ?dst = "map (garbage E b) [0..<pk_room E (m - BT_ATT_OVERHEAD)]"
  have "?dst \<noteq> []" using assms(3) by (simp add: good_link_def)
  from cert_fill_ready [OF assms(1) this x, of E] obtain bs l y w1 where
    w1: "w1 = w\<lparr>server_ctxs := (server_ctxs w)(a \<mapsto> y)\<rparr>" and
    f: "server_cert_fill_cb E ?dst (Some a) w = Inr (if l then PK_NO_MORE_DATA else PK_MORE_DATA, bs, w1)"
      "sc_id y = sc_id x" "bs \<noteq> []" "bs @ cert_left a w1 = cert_left a w"
      "if l then cert_left a w1 = [] \<and> sc_offset y = server_crt_len w else cert_ready a w1" by blast
  define r where "r = (if l then PK_NO_MORE_DATA else PK_MORE_DATA)"
  from assms(4) f(3) obtain out where out: "pk_encode E r bs = (r, out)" "pk_decode E out = Inr (bs, l)"
    by (cases l) (auto simp: faithful_def r_def)
  define prm where "prm = Write_params Cb_server_cert_write_response (value_handle w c ATTR_SERVER_CERT) out"
  define w2 where "w2 = set_node c (params_update (\<lambda>_. prm)) w1"
  define w3 where "w3 = w2\<lparr>trace := trace w2 @ [Gatt_write c prm]\<rparr>"
  have get: "packetizer_get E (Some p) (Some b) (m - BT_ATT_OVERHEAD) w = Inr (r, out, w1)"
    using b f(1) out(1) by (simp add: packetizer_get_def fill_cb_def r_def)
  have "r \<noteq> PK_ERROR" by (simp add: r_def)
  then have "write_server_cert_characteristic E c w = Inr (0, w3)"
    using get b assms(3)
    by (simp add: write_server_cert_characteristic_def good_link_def Let_def ext_call_def prm_def w2_def w3_def)
  moreover have "wired_cert c a p m w3" using b by (auto simp: wired_cert_def w3_def w2_def w1)
  moreover have "trace w3 = trace w @ [Gatt_write c prm]" by (simp add: w3_def w2_def w1)
  moreover have "written_to E c (trace w3) = written_to E c (trace w) @ bs"
    using out(2) by (simp add: w3_def w2_def w1 written_to_def prm_def)
  moreover have "server_ctxs w3 a = Some y" "server_crt_id w3 = server_crt_id w" "server_crt_len w3 = server_crt_len w"
    "attr_handles (nodes w3 c) = attr_handles (nodes w c)" "cert_left a w3 = cert_left a w1"
    "cert_ready a w3 = cert_ready a w1"
    by (simp_all add: w3_def w2_def w1)
  moreover have "beside_cert c a w w3" by (auto simp: beside_cert_def streams_def w3_def w2_def w1 set_node_def)
  ultimately show ?thesis using f(2-5)
    by (intro exI [of _ w3] exI [of _ bs] exI [of _ l] exI [of _ y]) simp
qed

text \<open>The responses, each with its error code, until the packetizer is released.\<close>

primrec cert_pump :: "'e env_scheme \<Rightarrow> conn \<Rightarrow> addr \<Rightarrow> byte list \<Rightarrow> 'a gw_world_scheme \<Rightarrow> fault + 'a gw_world_scheme" where
  "cert_pump E c p [] w = Inr w"
| "cert_pump E c p (err # errs) w = (if packetizers w p = None then Inr w
     else bnd (server_cert_write_response_cb E c err w) (cert_pump E c p errs))"

lemma cert_pump_done: "packetizers w p = None \<Longrightarrow> cert_pump E c p errs w = Inr w"
  by (cases errs) auto

text \<open>The exchange goes on with the device certificate.\<close>

definition reads_accepted :: "'e env_scheme \<Rightarrow> conn \<Rightarrow> bool" where
  "reads_accepted E c \<longleftrightarrow> (\<forall>t. ret E t Malloc \<noteq> 0) \<and> (\<forall>t g. ret E t (Gatt_read c g) = 0)"

definition device_reading :: "'e env_scheme \<Rightarrow> conn \<Rightarrow> 'a gw_world_scheme \<Rightarrow> bool" where
  "device_reading E c w \<longleftrightarrow> packetizer (nodes w c) = NULL \<and> (\<exists>a. device_cert_ctx (nodes w c) = Some a \<and> collected E a [] w)"

text \<open>The device certificate has been asked for, with a new context for it, and nothing else has changed.\<close>

definition device_begun :: "conn \<Rightarrow> 'a gw_world_scheme \<Rightarrow> 'a gw_world_scheme \<Rightarrow> bool" where
  "device_begun c w w' \<longleftrightarrow> streams w' = streams w \<and> server_ctxs w' = server_ctxs w \<and> packetizers w' = packetizers w
     \<and> scratches w' = scratches w \<and> next_addr w' = Suc (next_addr w) \<and> device_cert_ctx (nodes w' c) = Some (next_addr w)
     \<and> (device_ctxs w')(next_addr w := None) = (device_ctxs w)(next_addr w := None)"

lemma device_read_start_run:
  assumes "reads_accepted E c" and "packetizer (nodes w c) = NULL"
  shows "\<exists>w'. device_cert_read_start E c w = Inr w' \<and> device_begun c w w'
    \<and> attr_handles (nodes w' c) = attr_handles (nodes w c) \<and> device_reading E c w'
    \<and> trace w' = trace w @ [Malloc, Gatt_read c (Read_params Cb_device_cert_read (value_handle w c ATTR_DEVICE_CERT))]"
  using assms
  by (simp add: device_cert_read_start_def device_cert_start_def malloc_def ext_call_def reads_accepted_def
      value_handle_def device_reading_def device_begun_def streams_def collected_def Let_def)

lemma cert_response_last:
  assumes "wired_cert c a p m w" and x: "server_ctxs w a = Some x" and "sc_id x = server_crt_id w"
    and "server_crt_len w \<le> sc_offset x" and "reads_accepted E c"
  shows "\<exists>w'. server_cert_write_response_cb E c err w = Inr w' \<and> server_ctxs w' a = None \<and> packetizers w' p = None
    \<and> attr_handles (nodes w' c) = attr_handles (nodes w c) \<and> device_reading E c w'
    \<and> trace w' = trace w @ [Packetizer_finish (Some p), Malloc,
        Gatt_read c (Read_params Cb_device_cert_read (value_handle w c ATTR_DEVICE_CERT))]
    \<and> (\<exists>b. server_cert_scratch (nodes w c) = Some b
        \<and> device_begun c (w\<lparr>server_ctxs := (server_ctxs w)(a := None), packetizers := (packetizers w)(p := None),
            scratches := (scratches w)(b := None)\<rparr>) w')"
proof -
  from assms(1) obtain b size where b: "server_cert_scratch (nodes w c) = Some b" "scratches w b = Some size"
    "packetizer (nodes w c) = Some p" "packetizers w p = Some (Fill_server_cert, Some a)"
    "server_cert_ctx (nodes w c) = Some a"
    by (auto simp: wired_cert_def)
  obtain w1 where w1: "server_cert_cleanup E c w = Inr w1" "server_ctxs w1 = (server_ctxs w)(a := None)"
    "packetizers w1 = (packetizers w)(p := None)"
    "trace w1 = trace w @ [Packetizer_finish (Some p)]" "attr_handles (nodes w1 c) = attr_handles (nodes w c)"
    "packetizer (nodes w1 c) = NULL" "server_crt_id w1 = server_crt_id w"
    "scratches w1 = (scratches w)(b := None)" "streams w1 = streams w" "device_ctxs w1 = device_ctxs w" "next_addr w1 = next_addr w"
    using b x by (simp add: server_cert_cleanup_def free_scratch_def server_cert_abort_def packetizer_finish_def
        streams_def Let_def ext_call_def)
  from device_read_start_run [OF assms(5) w1(6)] obtain w2 where w2: "device_cert_read_start E c w1 = Inr w2"
    "device_begun c w1 w2" "attr_handles (nodes w2 c) = attr_handles (nodes w1 c)" "device_reading E c w2"
    "trace w2 = trace w1 @ [Malloc, Gatt_read c (Read_params Cb_device_cert_read (value_handle w1 c ATTR_DEVICE_CERT))]" by blast
  have "server_cert_write_response_cb E c err w = Inr w2"
    using b x assms(3,4) w1(1) w2(1)
    by (simp add: server_cert_write_response_cb_def server_cert_is_complete_def server_cert_is_newest_def)
  moreover have "device_begun c (w\<lparr>server_ctxs := (server_ctxs w)(a := None), packetizers := (packetizers w)(p := None),
      scratches := (scratches w)(b := None)\<rparr>) w2"
    using w2(2) w1 by (simp add: device_begun_def streams_def)
  moreover have "server_ctxs w2 a = None" "packetizers w2 p = None" using w2(2) w1 by (simp_all add: device_begun_def)
  ultimately show ?thesis using w2(3-5) w1(4,5) b(1)
    by (auto simp: value_handle_def)
qed

lemma cert_response_next:
  assumes "cert_ready a w" and "wired_cert c a p m w"
  shows "server_cert_write_response_cb E c err w = bnd (write_server_cert_characteristic E c w) (\<lambda>(rc, w).
      if rc \<noteq> 0 then server_cert_fail E c w else Inr w)"
  using assms
  by (auto simp: server_cert_write_response_cb_def server_cert_is_complete_def cert_ready_def wired_cert_def
      split: option.splits)

lemma cert_pump_all:
  assumes "good_link E c m" and "faithful E" and "reads_accepted E c"
  shows "cert_ready a w \<Longrightarrow> wired_cert c a p m w \<Longrightarrow> server_ctxs w a = Some x \<Longrightarrow> sc_id x = server_crt_id w \<Longrightarrow>
    length (cert_left a w) < length errs \<Longrightarrow>
    \<exists>w' tr. cert_pump E c p errs w = Inr w' \<and> server_ctxs w' a = None \<and> packetizers w' p = None
      \<and> written_to E c (trace w') = written_to E c (trace w) @ cert_left a w
      \<and> trace w' = tr @ [Packetizer_finish (Some p), Malloc,
          Gatt_read c (Read_params Cb_device_cert_read (value_handle w c ATTR_DEVICE_CERT))]"
proof (induction errs arbitrary: w x)
  case (Cons err errs)
  note pre = Cons.prems
  from write_cert_ready [OF pre(1,2) assms(1,2) pre(3)] obtain w1 bs l y where
    s: "write_server_cert_characteristic E c w = Inr (0, w1)" "wired_cert c a p m w1"
      "written_to E c (trace w1) = written_to E c (trace w) @ bs" "bs @ cert_left a w1 = cert_left a w" "bs \<noteq> []"
      "server_ctxs w1 a = Some y" "sc_id y = sc_id x" "server_crt_id w1 = server_crt_id w"
      "server_crt_len w1 = server_crt_len w" "attr_handles (nodes w1 c) = attr_handles (nodes w c)"
      "if l then cert_left a w1 = [] \<and> sc_offset y = server_crt_len w else cert_ready a w1" by blast
  have live: "packetizers w p \<noteq> None" "packetizers w1 p \<noteq> None"
    using pre(2) s(2) by (auto simp: wired_cert_def)
  have run: "cert_pump E c p (err # errs) w = cert_pump E c p errs w1"
    unfolding cert_pump.simps if_not_P [OF live(1)] using cert_response_next [OF pre(1,2), of E err] s(1) by simp
  have h: "value_handle w1 c i = value_handle w c i" for i by (simp add: value_handle_def s(10))
  have short: "length (cert_left a w1) < length errs"
    using pre(5) s(5) arg_cong [OF s(4), of length] by (cases bs) auto
  show ?case
  proof (cases l)
    case True
    obtain err' errs' where e: "errs = err' # errs'" using short by (cases errs) auto
    from cert_response_last [OF s(2,6) _ _ assms(3), of err'] True s pre(4) h obtain w2 where
      w2: "server_cert_write_response_cb E c err' w1 = Inr w2" "server_ctxs w2 a = None" "packetizers w2 p = None"
        "trace w2 = trace w1 @ [Packetizer_finish (Some p), Malloc,
          Gatt_read c (Read_params Cb_device_cert_read (value_handle w c ATTR_DEVICE_CERT))]" by auto
    have "cert_pump E c p errs w1 = Inr w2"
      unfolding e cert_pump.simps if_not_P [OF live(2)] by (simp add: w2(1,3) cert_pump_done)
    moreover have "written_to E c [Packetizer_finish (Some p), Malloc, Gatt_read c g] = []" for g
      by (simp add: written_to_def)
    ultimately show ?thesis using run w2 s(3,4,11) True by auto
  next
    case False
    with s(11) have r: "cert_ready a w1" by simp
    from Cons.IH [OF r s(2,6) _ short] s(3,4,7,8) pre(4) run h show ?thesis by auto
  qed
qed simp

subsection \<open>A small exchange\<close>

definition gw_cert :: gw_world where
  "gw_cert = gw_boot\<lparr>next_addr := 3, server_crt_buf := [1, 2, 3, 4, 5, 0, 0, 0], server_crt_len := 5,
     server_crt_serial := [1, 2] @ replicate 18 0, server_crt_serial_len := 2, server_crt_id := 1,
     scratches := [0 \<mapsto> 20], server_ctxs := [1 \<mapsto> \<lparr>sc_id = 1, sc_offset = 0\<rparr>], packetizers := [2 \<mapsto> (Fill_server_cert, Some 1)],
     nodes := (nodes gw_boot)(0 := (nodes gw_boot 0)\<lparr>server_cert_scratch := Some 0, server_cert_ctx := Some 1,
       packetizer := Some 2\<rparr>)\<rparr>"

lemma gw_cert_simps [simp]:
  "server_ctxs gw_cert = [1 \<mapsto> \<lparr>sc_id = 1, sc_offset = 0\<rparr>]" "server_crt_id gw_cert = 1" "trace gw_cert = []"
  "cert_ready 1 gw_cert" "wired_cert 0 1 2 23 gw_cert" "cert_left 1 gw_cert = [1, 2, 3, 4, 5]"
  by (simp_all add: gw_cert_def gw_boot_def cert_ready_def wired_cert_def cert_left_def crt_def)

lemma small_env_reads: "reads_accepted small_env c"
  by (simp add: reads_accepted_def)

subsection \<open>The properties\<close>

text \<open>
  C17: the node gets the whole server certificate - and errors on the way do not matter.  Over a
  link whose writes are accepted, an up-to-date context and a faithful packetizer, the payloads
  written are exactly the rest of the certificate, the context and the packetizer are released,
  and the exchange goes on by reading the device certificate.  This holds whatever error codes
  the responses carry: a write the node has rejected is neither repeated nor given up.
\<close>

theorem server_cert_reaches_node:
  assumes "cert_ready a w" and "wired_cert c a p m w" and "server_ctxs w a = Some x" and "sc_id x = server_crt_id w"
    and "good_link E c m" and "faithful E" and "reads_accepted E c" and "length (cert_left a w) < length errs"
  shows "\<exists>w' tr. cert_pump E c p errs w = Inr w' \<and> server_ctxs w' a = None \<and> packetizers w' p = None
      \<and> written_to E c (trace w') = written_to E c (trace w) @ cert_left a w
      \<and> trace w' = tr @ [Packetizer_finish (Some p), Malloc,
          Gatt_read c (Read_params Cb_device_cert_read (value_handle w c ATTR_DEVICE_CERT))]"
  by (rule cert_pump_all [OF assms(5-7,1-4,8)])

theorem server_cert_reaches_node_witness:
  "\<exists>w'. cert_pump small_env 0 2 [0, 14, 0, 0, 0, 0] gw_cert = Inr w' \<and> written_to small_env 0 (trace w') = [1, 2, 3, 4, 5]"
proof -
  have "\<exists>w' tr. cert_pump small_env 0 2 [0, 14, 0, 0, 0, 0] gw_cert = Inr w' \<and> server_ctxs w' 1 = None \<and> packetizers w' 2 = None
      \<and> written_to small_env 0 (trace w') = written_to small_env 0 (trace gw_cert) @ cert_left 1 gw_cert
      \<and> trace w' = tr @ [Packetizer_finish (Some 2), Malloc,
          Gatt_read 0 (Read_params Cb_device_cert_read (value_handle gw_cert 0 ATTR_DEVICE_CERT))]"
    by (rule server_cert_reaches_node [where x = "\<lparr>sc_id = 1, sc_offset = 0\<rparr>", OF _ gw_cert_simps(5)])
      (simp_all add: small_env_link small_env_reads del: One_nat_def)
  then obtain w' where "cert_pump small_env 0 2 [0, 14, 0, 0, 0, 0] gw_cert = Inr w'"
    "written_to small_env 0 (trace w') = written_to small_env 0 (trace gw_cert) @ cert_left 1 gw_cert" by blast
  moreover have "written_to small_env 0 (trace gw_cert) = []" by (simp add: written_to_def)
  ultimately show ?thesis unfolding gw_cert_simps(6) by auto
qed

text \<open>
  The serial number decides.  When the node's serial number has arrived, the device
  certificate is read if it is non-empty and equals the gateway's, byte for byte and in length;
  otherwise the server certificate is written first.
\<close>

theorem serial_decides:
  assumes "pk_decode E packet = Inr (serial, True)" and "packet \<noteq> []"
    and "length (server_crt_serial w) = CERT_SERIAL_MAXLEN" and "server_crt_serial_len w \<le> CERT_SERIAL_MAXLEN"
  shows "server_cert_read_cb E c 0 packet w =
    (if serial \<noteq> [] \<and> serial = take (server_crt_serial_len w) (server_crt_serial w)
     then device_cert_read_start E c w else server_cert_write_start E c w)"
proof -
  have "(if CERT_SERIAL_MAXLEN > server_crt_serial_len w then server_crt_serial_len w else CERT_SERIAL_MAXLEN)
      = server_crt_serial_len w" using assms(4) by simp
  then have "server_cert_get_serial (replicate CERT_SERIAL_MAXLEN 0) CERT_SERIAL_MAXLEN w
      = Inr (take (server_crt_serial_len w) (server_crt_serial w) @ drop (server_crt_serial_len w) (replicate CERT_SERIAL_MAXLEN 0),
             server_crt_serial_len w)"
    using assms(3,4) by (simp add: server_cert_get_serial_def peek_def poke_def Let_def)
  with assms show ?thesis by (auto simp: server_cert_read_cb_def min_def)
qed

theorem serial_decides_witness:
  "server_cert_read_cb small_env 0 0 [1, 1, 2] gw_cert = device_cert_read_start small_env 0 gw_cert"
proof -
  have "pk_decode small_env [1, 1, 2] = Inr ([1, 2], True)" by (simp add: small_env_def)
  from serial_decides [OF this, of gw_cert 0] show ?thesis by (simp add: gw_cert_def)
qed

text \<open>
  A device certificate that is too long is cut and passed on.  The push of the last chunk is
  refused, but its result is ignored: the chunks before are finished as if they were the
  whole certificate, and if the cloud takes them, the uplink starts.
\<close>

theorem oversized_device_cert_cut:
  assumes "collected E a bs w" and "device_cert_ctx (nodes w c) = Some a"
    and "pk_decode E packet = Inr (payload, True)" and "packet \<noteq> []"
    and "device_cert_max E < length bs + length payload" and "length bs + length payload < 2 ^ 32"
    and "length bs \<le> device_cert_max E" and "cloud E" and "ret E (trace w) (Device_cert_set bs) = 0"
  shows "\<exists>w1. device_cert_read_cb E c 0 packet w = Inr (uplink_start E c w1)
    \<and> trace w1 = trace w @ [Device_cert_set bs] \<and> device_ctxs w1 a = None
    \<and> device_cert_ctx (nodes w1 c) = Some a"
proof -
  from push_run [OF assms(1,6)] assms(5) have push: "device_cert_push E (Some a) payload w = Inr (- ENOSPC, w)" by simp
  from assms(1) obtain x where x: "device_ctxs w a = Some x" "length (dc_buf x) = device_cert_max E"
    "dc_len x = length bs" "take (dc_len x) (dc_buf x) = bs" by (auto simp: collected_def)
  then have "peek (dc_buf x) 0 (dc_len x) = Inr bs" using assms(7) by (simp add: peek_def)
  with x(1) assms(8,9) have "device_cert_finish E (Some a) w = Inr (0,
      w\<lparr>trace := trace w @ [Device_cert_set bs], device_ctxs := (device_ctxs w)(a := None)\<rparr>)"
    by (simp add: device_cert_finish_def device_cert_abort_def ext_call_def Let_def)
  with push assms(2-4) show ?thesis by (auto simp: device_cert_read_cb_def)
qed

definition gw_device :: gw_world where
  "gw_device = gw_boot\<lparr>next_addr := 1, device_ctxs := [0 \<mapsto> \<lparr>dc_len = 6, dc_buf = [1, 2, 3, 4, 5, 6, 0, 0]\<rparr>],
     nodes := (nodes gw_boot)(0 := (nodes gw_boot 0)\<lparr>device_cert_ctx := Some 0\<rparr>)\<rparr>"

theorem oversized_device_cert_cut_witness:
  "\<exists>w1. device_cert_read_cb small_env 0 0 [1, 7, 8, 9] gw_device = Inr (uplink_start small_env 0 w1)
     \<and> trace w1 = [Device_cert_set [1, 2, 3, 4, 5, 6]]"
proof -
  have c: "collected small_env 0 [1, 2, 3, 4, 5, 6] gw_device" by (simp add: collected_def gw_device_def)
  have d: "device_cert_ctx (nodes gw_device 0) = Some 0" by (simp add: gw_device_def)
  have p: "pk_decode small_env [1, 7, 8, 9] = Inr ([7, 8, 9], True)" by (simp add: small_env_def)
  from oversized_device_cert_cut [OF c d p] show ?thesis by (auto simp: gw_device_def gw_boot_def)
qed

text \<open>
  Without a server certificate the exchange hangs.  As long as none has been
  downloaded, the first read of the certificate fails; the error is ignored by the start of
  the transfer, so that no request is sent, nothing is cleaned up, and the connection is
  neither used nor dropped.
\<close>

theorem missing_server_cert_stalls:
  assumes "server_crt_len w = 0" and "value_handle w c ATTR_SERVER_CERT \<noteq> 0"
    and "\<forall>t. mtu E t c = m" and "BT_ATT_OVERHEAD \<le> m" and "\<forall>t. ret E t Malloc \<noteq> 0"
    and "\<forall>t q. ret E t (Packetizer_start q) \<noteq> 0" and "fst (pk_encode E PK_ERROR []) = PK_ERROR"
  shows "\<exists>w' q q'. server_cert_write_start E c w = Inr w'
    \<and> trace w' = trace w @ [Malloc, Malloc, Packetizer_start q, Packetizer_error q']
    \<and> server_cert_scratch (nodes w' c) \<noteq> NULL \<and> server_cert_ctx (nodes w' c) \<noteq> NULL"
  using assms
  by (simp add: server_cert_write_start_def gatt_mtu_malloc_def malloc_def ext_call_def server_cert_start_def
      packetizer_start_def write_server_cert_characteristic_def packetizer_get_def fill_cb_def server_cert_fill_cb_def
      server_cert_get_data_def Let_def case_prod_unfold)

theorem missing_server_cert_stalls_witness:
  "\<exists>w' q q'. server_cert_write_start small_env 0 gw_boot = Inr w'
     \<and> trace w' = [Malloc, Malloc, Packetizer_start q, Packetizer_error q']"
proof -
  have "value_handle gw_boot 0 ATTR_SERVER_CERT \<noteq> 0" "server_crt_len gw_boot = 0"
    by (simp_all add: value_handle_def gw_boot_def)
  moreover have "fst (pk_encode small_env PK_ERROR []) = PK_ERROR" by (simp add: small_env_def)
  ultimately have "\<exists>w' q q'. server_cert_write_start small_env 0 gw_boot = Inr w'
    \<and> trace w' = trace gw_boot @ [Malloc, Malloc, Packetizer_start q, Packetizer_error q']
    \<and> server_cert_scratch (nodes w' 0) \<noteq> NULL \<and> server_cert_ctx (nodes w' 0) \<noteq> NULL"
    by (intro missing_server_cert_stalls [where m = 23]) simp_all
  then show ?thesis by (auto simp: gw_boot_def)
qed

end
