(* ===== verification/Scan.thy ===== *)
theory Scan
  imports Platform
begin

text \<open>
  \<open>lib/bt/scan.c\<close> and its variant \<open>samples/custom_connect/src/scan.c\<close>: which advertisements
  make the gateway connect.  The host splits an advertisement into its AD structures and calls
  \<open>data_cb\<close> for one after the other until it returns false; the model starts from the list of
  structures (type and data).  The constants of the Pouch transport (UUIDs, version field, flags)
  come from a module outside the repository and are the record \<open>adv\<close>; its \<open>struct
  pouch_gatt_adv_data\<close> consists of the two bytes \<open>version\<close> and \<open>flags\<close>.
\<close>

unbundle bit_operations_syntax

subsection \<open>Advertisements\<close>

record adv =
  svc_uuid_128 :: bytes
  svc_uuid_16 :: bytes \<comment> \<open>as it lies in memory\<close>
  self_mask :: byte \<comment> \<open>\<open>POUCH_GATT_ADV_VERSION_SELF_MASK\<close>\<close>
  self_shift :: nat \<comment> \<open>\<open>POUCH_GATT_ADV_VERSION_SELF_SHIFT\<close>\<close>
  gatt_version :: byte \<comment> \<open>\<open>POUCH_GATT_VERSION\<close>\<close>
  sync_flag :: byte \<comment> \<open>\<open>POUCH_GATT_ADV_FLAG_SYNC_REQUEST\<close>\<close>

record adv_data =
  version :: byte
  flags :: byte

type_synonym ad = "byte \<times> bytes"

abbreviation BT_DATA_NAME_COMPLETE :: byte where "BT_DATA_NAME_COMPLETE \<equiv> 0x09"
abbreviation BT_DATA_SVC_DATA16 :: byte where "BT_DATA_SVC_DATA16 \<equiv> 0x16"
abbreviation BT_DATA_SVC_DATA128 :: byte where "BT_DATA_SVC_DATA128 \<equiv> 0x21"

definition connectable :: "byte \<Rightarrow> bool" where
  "connectable t \<longleftrightarrow> t = 0 \<or> t = 1 \<or> t = 4" \<comment> \<open>\<open>ADV_IND\<close>, \<open>ADV_DIRECT_IND\<close>, \<open>SCAN_RSP\<close>\<close>

text \<open>In C, \<open>>>\<close> binds tighter than \<open>&\<close>.\<close>

definition version_is_compatible :: "adv \<Rightarrow> adv_data \<Rightarrow> bool" where
  "version_is_compatible A d \<longleftrightarrow>
     (let self_ver = version d AND drop_bit (self_shift A) (self_mask A) in gatt_version A = self_ver)"

definition sync_requested :: "adv \<Rightarrow> adv_data \<Rightarrow> bool" where
  "sync_requested A d \<longleftrightarrow> flags d AND sync_flag A \<noteq> 0"

subsection \<open>Parsing\<close>

record tf_data =
  is_tf :: bool
  tf_adv :: adv_data

definition no_tf :: tf_data where
  "no_tf = \<lparr>is_tf = False, tf_adv = \<lparr>version = 0, flags = 0\<rparr>\<rparr>"

text \<open>A service data structure: the UUID, then the two bytes; anything may follow.\<close>

definition svc_data :: "bytes \<Rightarrow> bytes \<Rightarrow> adv_data option" where
  "svc_data uuid bs =
     (if length uuid + 2 \<le> length bs \<and> take (length uuid) bs = uuid
      then Some \<lparr>version = bs ! length uuid, flags = bs ! (length uuid + 1)\<rparr> else None)"

text \<open>Returns whether to go on, and the result so far.\<close>

definition data_cb :: "adv \<Rightarrow> ad \<Rightarrow> tf_data \<Rightarrow> bool \<times> tf_data" where
  "data_cb A e tf = (case e of (t, bs) \<Rightarrow>
     if t = BT_DATA_SVC_DATA128 then
       (case svc_data (svc_uuid_128 A) bs of
          Some d \<Rightarrow> (False, \<lparr>is_tf = True, tf_adv = d\<rparr>) | None \<Rightarrow> (True, tf))
     else if t = BT_DATA_SVC_DATA16 then
       (case svc_data (svc_uuid_16 A) bs of
          Some d \<Rightarrow> (False, \<lparr>is_tf = True, tf_adv = d\<rparr>) | None \<Rightarrow> (True, tf))
     else (True, tf))"

fun bt_data_parse :: "('e \<Rightarrow> 't \<Rightarrow> bool \<times> 't) \<Rightarrow> 'e list \<Rightarrow> 't \<Rightarrow> 't" where
  "bt_data_parse cb [] tf = tf"
| "bt_data_parse cb (e # es) tf = (case cb e tf of (go_on, tf) \<Rightarrow>
     if go_on then bt_data_parse cb es tf else tf)"

subsection \<open>Scanning and connecting\<close>

definition scan_start :: "'e env_scheme \<Rightarrow> 'a ext_world_scheme \<Rightarrow> 'a ext_world_scheme" where
  "scan_start E w = snd (ext_call E Scan_start w)"

text \<open>What both variants do once they have decided to connect.\<close>

definition stop_and_connect :: "'e env_scheme \<Rightarrow> bytes \<Rightarrow> 'a ext_world_scheme \<Rightarrow> 'a ext_world_scheme" where
  "stop_and_connect E peer w =
     (let (err, w) = ext_call E Scan_stop w in
      if err \<noteq> 0 then w
      else let (err, w) = ext_call E (Conn_create peer) w in
        if err \<noteq> 0 then scan_start E w else w)"

definition device_found :: "'e env_scheme \<Rightarrow> adv \<Rightarrow> bytes \<Rightarrow> byte \<Rightarrow> ad list
    \<Rightarrow> 'a ext_world_scheme \<Rightarrow> 'a ext_world_scheme" where
  "device_found E A peer t ads w =
     (if \<not> connectable t then w
      else let tf = bt_data_parse (data_cb A) ads no_tf in
        if is_tf tf \<and> version_is_compatible A (tf_adv tf) \<and> sync_requested A (tf_adv tf)
        then stop_and_connect E peer w else w)"

subsection \<open>The variant of the sample\<close>

text \<open>
  \<open>strncmp\<close> compares at most \<open>n\<close> characters and stops behind a common NUL; it is called with
  a literal, which ends with one.
\<close>

fun strncmp_eq :: "nat \<Rightarrow> bytes \<Rightarrow> bytes \<Rightarrow> bool" where
  "strncmp_eq (Suc n) (a # as) (b # bs) = (a = b \<and> (a = 0 \<or> strncmp_eq n as bs))"
| "strncmp_eq _ _ _ = True"

definition golioth_name :: bytes where \<comment> \<open>\<open>"Golioth"\<close> with its NUL\<close>
  "golioth_name = [0x47, 0x6F, 0x6C, 0x69, 0x6F, 0x74, 0x68, 0]"

record custom_tf = tf_data +
  name_is_golioth :: bool

definition custom_data_cb :: "adv \<Rightarrow> ad \<Rightarrow> custom_tf \<Rightarrow> bool \<times> custom_tf" where
  "custom_data_cb A e tf = (case e of (t, bs) \<Rightarrow>
     if t = BT_DATA_NAME_COMPLETE then
       (True, if strncmp_eq (length bs) bs golioth_name then tf\<lparr>name_is_golioth := True\<rparr> else tf)
     else if t = BT_DATA_SVC_DATA16 then
       (True, case svc_data (svc_uuid_16 A) bs of
          Some d \<Rightarrow> tf\<lparr>is_tf := True, tf_adv := d\<rparr> | None \<Rightarrow> tf)
     else (True, tf))"

definition custom_no_tf :: custom_tf where
  "custom_no_tf = \<lparr>is_tf = False, tf_adv = \<lparr>version = 0, flags = 0\<rparr>, name_is_golioth = False\<rparr>"

definition custom_scan_start :: "'e env_scheme \<Rightarrow> 'a ext_world_scheme \<Rightarrow> 'a ext_world_scheme" where
  "custom_scan_start E w = snd (ext_call E Scan_start w)"

lemma custom_scan_start_eq [simp]: "custom_scan_start E w = scan_start E w"
  by (simp add: custom_scan_start_def scan_start_def)

definition custom_version_is_compatible :: "adv \<Rightarrow> adv_data \<Rightarrow> bool" where
  "custom_version_is_compatible A d \<longleftrightarrow>
     (let self_ver = version d AND drop_bit (self_shift A) (self_mask A) in gatt_version A = self_ver)"

definition custom_sync_requested :: "adv \<Rightarrow> adv_data \<Rightarrow> bool" where
  "custom_sync_requested A d \<longleftrightarrow> flags d AND sync_flag A \<noteq> 0"

definition custom_device_found :: "'e env_scheme \<Rightarrow> adv \<Rightarrow> bytes \<Rightarrow> int \<Rightarrow> byte \<Rightarrow> ad list
    \<Rightarrow> 'a ext_world_scheme \<Rightarrow> 'a ext_world_scheme" where
  "custom_device_found E A peer rssi t ads w =
     (if \<not> connectable t then w
      else let tf = bt_data_parse (custom_data_cb A) ads custom_no_tf in
        if is_tf tf \<and> name_is_golioth tf \<and> -70 < rssi
           \<and> custom_version_is_compatible A (tf_adv tf) \<and> custom_sync_requested A (tf_adv tf)
        then stop_and_connect E peer w else w)"

subsection \<open>The first matching service data\<close>

text \<open>The specification of the parser: the first structure that carries the service.\<close>

definition carries :: "adv \<Rightarrow> ad \<Rightarrow> adv_data option" where
  "carries A e = (if fst e = BT_DATA_SVC_DATA128 then svc_data (svc_uuid_128 A) (snd e)
     else if fst e = BT_DATA_SVC_DATA16 then svc_data (svc_uuid_16 A) (snd e) else None)"

fun first_carried :: "adv \<Rightarrow> ad list \<Rightarrow> adv_data option" where
  "first_carried A [] = None"
| "first_carried A (e # es) = (case carries A e of Some d \<Rightarrow> Some d | None \<Rightarrow> first_carried A es)"

lemma data_cb_carries:
  "data_cb A e tf = (case carries A e of Some d \<Rightarrow> (False, \<lparr>is_tf = True, tf_adv = d\<rparr>) | None \<Rightarrow> (True, tf))"
  by (cases e) (simp add: data_cb_def carries_def)

lemma parse_first:
  "bt_data_parse (data_cb A) ads tf =
     (case first_carried A ads of Some d \<Rightarrow> \<lparr>is_tf = True, tf_adv = d\<rparr> | None \<Rightarrow> tf)"
  by (induction ads) (simp_all add: data_cb_carries split: option.splits)

text \<open>
  The advertisements the gateway connects to, bit by bit.  A service data structure of type 0x21 or
  0x16 begins with the UUID of the service and goes on with the byte of the version and that of the
  flags; the first such structure counts.  Bit \<open>i\<close> of the version supported is compared with bit
  \<open>i\<close> of the version byte where bit \<open>i\<close> of the field, moved down to position 0, is set, and
  must be zero elsewhere.
\<close>

definition pouch_service :: "adv \<Rightarrow> ad \<Rightarrow> byte \<Rightarrow> byte \<Rightarrow> bool" where
  "pouch_service A e v f \<longleftrightarrow>
     (\<exists>rest. e = (0x21, svc_uuid_128 A @ v # f # rest) \<or> e = (0x16, svc_uuid_16 A @ v # f # rest))"

definition advertises :: "adv \<Rightarrow> ad list \<Rightarrow> byte \<Rightarrow> byte \<Rightarrow> bool" where
  "advertises A ads v f \<longleftrightarrow> (\<exists>before e rest. ads = before @ e # rest \<and> pouch_service A e v f
     \<and> (\<forall>x \<in> set before. \<forall>v f. \<not> pouch_service A x v f))"

definition wanted :: "adv \<Rightarrow> byte \<Rightarrow> ad list \<Rightarrow> bool" where
  "wanted A t ads \<longleftrightarrow> t \<in> {0, 1, 4} \<and> (\<exists>v f. advertises A ads v f
     \<and> (\<forall>i < 8. bit (gatt_version A) i \<longleftrightarrow> bit v i \<and> bit (self_mask A) (self_shift A + i))
     \<and> (\<exists>i < 8. bit f i \<and> bit (sync_flag A) i))"

lemma svc_data_iff: "svc_data u bs = Some d \<longleftrightarrow> (\<exists>rest. bs = u @ version d # flags d # rest)"
proof
  assume d: "svc_data u bs = Some d"
  then have *: "length u + 2 \<le> length bs" "take (length u) bs = u" "d = \<lparr>version = bs ! length u, flags = bs ! (length u + 1)\<rparr>"
    by (simp_all add: svc_data_def split: if_splits)
  then have "drop (length u) bs = bs ! length u # bs ! (length u + 1) # drop (length u + 2) bs"
    by (simp add: Cons_nth_drop_Suc)
  with *(2,3) show "\<exists>rest. bs = u @ version d # flags d # rest"
    by (metis adv_data.select_convs(1,2) append_take_drop_id)
qed (auto simp: svc_data_def nth_append)

lemma carries_iff: "carries A e = Some d \<longleftrightarrow> pouch_service A e (version d) (flags d)"
  by (cases e) (auto simp: carries_def pouch_service_def svc_data_iff)

lemma carries_None: "carries A e = None \<longleftrightarrow> (\<forall>v f. \<not> pouch_service A e v f)"
proof
  assume "carries A e = None"
  then show "\<forall>v f. \<not> pouch_service A e v f"
    using carries_iff [of A e "\<lparr>version = v, flags = f\<rparr>" for v f] by simp
qed (metis carries_iff not_Some_eq)

lemma advertises_Cons: "advertises A (e # es) v f \<longleftrightarrow>
    pouch_service A e v f \<or> (\<forall>v f. \<not> pouch_service A e v f) \<and> advertises A es v f"
proof
  assume "advertises A (e # es) v f"
  then obtain before x rest where split: "e # es = before @ x # rest" "pouch_service A x v f"
    "\<forall>x \<in> set before. \<forall>v f. \<not> pouch_service A x v f" unfolding advertises_def by blast
  show "pouch_service A e v f \<or> (\<forall>v f. \<not> pouch_service A e v f) \<and> advertises A es v f"
  proof (cases before)
    case (Cons y ys)
    with split have ys: "es = ys @ x # rest" "y = e" by simp_all
    with split Cons have "advertises A es v f"
      unfolding advertises_def by (intro exI [of _ ys] exI [of _ x] exI [of _ rest]) simp
    with split(3) Cons ys(2) show ?thesis by simp
  qed (use split in simp)
next
  assume "pouch_service A e v f \<or> (\<forall>v f. \<not> pouch_service A e v f) \<and> advertises A es v f"
  then show "advertises A (e # es) v f"
  proof
    assume "pouch_service A e v f"
    then show ?thesis unfolding advertises_def by (intro exI [of _ "[]"]) auto
  next
    assume later: "(\<forall>v f. \<not> pouch_service A e v f) \<and> advertises A es v f"
    then obtain before x rest where "es = before @ x # rest" "pouch_service A x v f"
      "\<forall>x \<in> set before. \<forall>v f. \<not> pouch_service A x v f" unfolding advertises_def by blast
    with later show ?thesis
      unfolding advertises_def by (intro exI [of _ "e # before"] exI [of _ x] exI [of _ rest]) simp
  qed
qed

lemma first_carried_iff: "first_carried A ads = Some d \<longleftrightarrow> advertises A ads (version d) (flags d)"
proof (induction ads)
  case Nil
  show ?case by (simp add: advertises_def)
next
  case (Cons e es)
  show ?case
  proof (cases "carries A e")
    case None
    with Cons show ?thesis using carries_None [of A e] by (simp add: advertises_Cons)
  next
    case (Some c)
    then have "pouch_service A e (version c) (flags c)" by (simp add: carries_iff)
    then have "advertises A (e # es) v f \<longleftrightarrow> pouch_service A e v f" for v f
      unfolding advertises_Cons by blast
    with Some show ?thesis using carries_iff [of A e d] by simp
  qed
qed

lemma version_bits: "version_is_compatible A d \<longleftrightarrow>
    (\<forall>i < 8. bit (gatt_version A) i \<longleftrightarrow> bit (version d) i \<and> bit (self_mask A) (self_shift A + i))"
  by (auto simp: version_is_compatible_def Let_def bit_eq_iff bit_and_iff bit_drop_bit_eq)

lemma sync_bits: "sync_requested A d \<longleftrightarrow> (\<exists>i < 8. bit (flags d) i \<and> bit (sync_flag A) i)"
  by (auto simp: sync_requested_def bit_eq_iff bit_and_iff)

lemma device_found_wanted:
  "device_found E A peer t ads w = (if wanted A t ads then stop_and_connect E peer w else w)"
proof -
  have "wanted A t ads \<longleftrightarrow> connectable t \<and> (case first_carried A ads of None \<Rightarrow> False
      | Some d \<Rightarrow> version_is_compatible A d \<and> sync_requested A d)"
  proof (cases "first_carried A ads")
    case None
    then have "\<not> advertises A ads v f" for v f
      using first_carried_iff [of A ads "\<lparr>version = v, flags = f\<rparr>"] by simp
    with None show ?thesis by (simp add: wanted_def)
  next
    case (Some d)
    have "advertises A ads v f \<longleftrightarrow> v = version d \<and> f = flags d" for v f
      using first_carried_iff [of A ads "\<lparr>version = v, flags = f\<rparr>"] Some by auto
    with Some show ?thesis by (auto simp: wanted_def connectable_def version_bits sync_bits)
  qed
  then show ?thesis by (simp add: device_found_def parse_first no_tf_def split: option.splits)
qed

lemma strncmp_prefix: "length bs \<le> length s \<Longrightarrow> bs = take (length bs) s \<Longrightarrow> strncmp_eq (length bs) bs s"
proof (induction bs arbitrary: s)
  case (Cons b bs)
  then obtain c s' where "s = c # s'" by (cases s) auto
  with Cons show ?case by simp
qed simp

subsection \<open>The properties\<close>

text \<open>
  C24: the gateway connects to a device exactly when the advertisement is connectable and the first
  service data structure in it that names the Pouch service has a version byte that passes the
  version test and shares a bit with the sync flag; it then stops scanning and opens a connection.
  \<open>wanted\<close> spells this out on bits and bytes.  What the version test compares are the lowest bits
  of the byte, as many as the version field has, whatever its position: this is what the code
  does, not what it means to do unless the field is at position 0 (\<open>version_test_reads_low_bits\<close>).
  If the host refuses to stop scanning, scanning goes on; if it refuses the connection, scanning is
  started again.
\<close>

theorem scan_decision:
  "trace (device_found E A peer t ads w) = trace w @
     (if \<not> wanted A t ads then []
      else if ret E (trace w) Scan_stop \<noteq> 0 then [Scan_stop]
      else if ret E (trace w @ [Scan_stop]) (Conn_create peer) \<noteq> 0 then [Scan_stop, Conn_create peer, Scan_start]
      else [Scan_stop, Conn_create peer])"
  by (simp add: device_found_wanted stop_and_connect_def scan_start_def ext_call_def)

text \<open>
  The version test reads the wrong bits.  Where the version field has \<open>n\<close> bits and begins at
  position \<open>s\<close>, the expression compares the lowest bits of the byte instead of the field, because
  the shift is applied to the mask; the two agree on every byte only if the field is at position 0.
\<close>

theorem version_test_reads_low_bits:
  assumes "self_mask A = push_bit (self_shift A) (mask n)" and "self_shift A + n \<le> 8" and "0 < n"
  shows "(version_is_compatible A d \<longleftrightarrow> gatt_version A = version d AND mask n)
    \<and> ((\<forall>v :: byte. v AND mask n = drop_bit (self_shift A) (v AND self_mask A)) \<longleftrightarrow> self_shift A = 0)"
proof -
  have m: "drop_bit (self_shift A) (self_mask A) = mask n"
    unfolding assms(1) using assms(2) by (auto intro!: bit_eqI simp: bit_simps)
  have one: "(1 :: byte) AND mask n = 1" using assms(3) by (auto intro!: bit_eqI simp: bit_simps)
  have field: "drop_bit (self_shift A) ((1 :: byte) AND self_mask A) = 0" if "self_shift A \<noteq> 0"
    using that by (auto intro!: bit_eqI simp: bit_simps assms(1))
  have "self_shift A = 0" if "\<forall>v :: byte. v AND mask n = drop_bit (self_shift A) (v AND self_mask A)"
    using that [rule_format, of 1] unfolding one using field by (metis zero_neq_one)
  moreover have "\<forall>v :: byte. v AND mask n = drop_bit (self_shift A) (v AND self_mask A)" if "self_shift A = 0"
    using that assms(1) by simp
  ultimately show ?thesis unfolding version_is_compatible_def Let_def m by blast
qed

text \<open>The constants of a four-bit field in the upper half of the byte.\<close>

definition upper_adv :: adv where
  "upper_adv = \<lparr>svc_uuid_128 = replicate 16 7, svc_uuid_16 = [0x49, 0xFC], self_mask = 0xF0, self_shift = 4,
     gatt_version = 1, sync_flag = 1\<rparr>"

theorem version_test_reads_low_bits_witness:
  "version_is_compatible upper_adv \<lparr>version = 0x21, flags = 1\<rparr>
     \<and> \<not> version_is_compatible upper_adv \<lparr>version = 0x12, flags = 1\<rparr>"
proof -
  have "self_mask upper_adv = push_bit (self_shift upper_adv) (mask 4)" by (simp add: upper_adv_def mask_eq_exp_minus_1)
  from version_test_reads_low_bits [OF this] show ?thesis
    by (simp add: upper_adv_def mask_eq_exp_minus_1)
qed

text \<open>The names the sample accepts, and what its parser finds: the last 16-bit service data.\<close>

definition named :: "ad list \<Rightarrow> bool" where
  "named ads \<longleftrightarrow> (\<exists>(t, bs) \<in> set ads. t = BT_DATA_NAME_COMPLETE \<and> strncmp_eq (length bs) bs golioth_name)"

definition svc16_reversed :: "ad list \<Rightarrow> ad list" where
  "svc16_reversed ads = rev (filter (\<lambda>e. fst e = BT_DATA_SVC_DATA16) ads)"

lemma first_carried_append: "first_carried A (xs @ ys) = (case first_carried A xs of Some d \<Rightarrow> Some d | None \<Rightarrow> first_carried A ys)"
  by (induction xs) (simp_all split: option.split)

lemma custom_parse:
  "bt_data_parse (custom_data_cb A) ads tf = (let tf = tf\<lparr>name_is_golioth := (name_is_golioth tf \<or> named ads)\<rparr> in
     case first_carried A (svc16_reversed ads) of Some d \<Rightarrow> tf\<lparr>is_tf := True, tf_adv := d\<rparr> | None \<Rightarrow> tf)"
proof (induction ads arbitrary: tf)
  case (Cons e es)
  have name: "named (e # es) \<longleftrightarrow> (fst e = BT_DATA_NAME_COMPLETE \<and> strncmp_eq (length (snd e)) (snd e) golioth_name) \<or> named es"
    by (cases e) (auto simp: named_def)
  show ?case
    unfolding bt_data_parse.simps name
    by (cases e) (auto simp: custom_data_cb_def svc16_reversed_def first_carried_append carries_def Cons.IH Let_def
        split: option.split)
qed (simp add: named_def svc16_reversed_def)

text \<open>
  C25: the filter of the sample, expressed by that of the library.  It connects to the devices that
  the library would connect to if the advertisement held only the 16-bit service data structures,
  in the reverse order (its parser does not stop at the first match), provided that a complete name
  was accepted and the signal is stronger than -70 dBm; whatever it does then is the same.
\<close>

theorem sample_filter_equivalence:
  "custom_device_found E A peer rssi t ads w =
     (if -70 < rssi \<and> named ads then device_found E A peer t (svc16_reversed ads) w else w)"
  by (cases "first_carried A (svc16_reversed ads)")
    (auto simp: custom_device_found_def device_found_def parse_first custom_parse custom_no_tf_def no_tf_def Let_def
      custom_version_is_compatible_def version_is_compatible_def custom_sync_requested_def sync_requested_def)

text \<open>
  The sample's name test accepts too much.  Any prefix of the name, the empty name
  included, counts as the name of a Golioth device, since only as many characters as were
  advertised are compared.
\<close>

theorem name_prefix_accepted:
  assumes "k \<le> 7"
  shows "name_is_golioth (snd (custom_data_cb A (BT_DATA_NAME_COMPLETE, take k golioth_name) tf))"
  using assms strncmp_prefix [of "take k golioth_name" golioth_name]
  by (simp add: custom_data_cb_def golioth_name_def)

theorem name_prefix_accepted_witness:
  "name_is_golioth (snd (custom_data_cb upper_adv (BT_DATA_NAME_COMPLETE, []) custom_no_tf))"
  using name_prefix_accepted [of 0 upper_adv custom_no_tf] by simp

end
