(* ===== verification/Connect.thy ===== *)
theory Connect
  imports Bt_Cert_Props Scan
begin

text \<open>
  \<open>lib/bt/connect.c\<close>: discovering the Pouch service of a node that has connected, and the
  connection callbacks of \<open>gateway/src/main.c\<close>.  The UUIDs come from the Pouch module and are
  the record \<open>uuids\<close>; the source compares pointers to its two service UUIDs, which are distinct
  objects with distinct values.
\<close>

subsection \<open>Discovery\<close>

record uuids =
  svc16 :: uuid
  svc128 :: uuid
  char_uuid :: "gatt_attr \<Rightarrow> uuid"
  ccc_uuid :: uuid

text \<open>The discovery parameters of the node, for as long as the union holds them.\<close>

definition discover_params :: "'a gw_world_scheme \<Rightarrow> conn \<Rightarrow> fault + (handle \<times> handle \<times> uuid option)" where
  "discover_params w c = (case params (nodes w c) of
     Discover_params cb ty s e u \<Rightarrow> Inr (s, e, u) | _ \<Rightarrow> Inl Union_mismatch)"

text \<open>Storing the parameters and starting the request; a refusal drops the connection.\<close>

definition discover :: "'e env_scheme \<Rightarrow> conn \<Rightarrow> gatt_params \<Rightarrow> 'a gw_world_scheme \<Rightarrow> 'a gw_world_scheme" where
  "discover E c prm w =
     (let w = set_node c (params_update (\<lambda>_. prm)) w;
          (err, w) = ext_call E (Gatt_discover c prm) w in
      if err \<noteq> 0 then bt_finished E c w else w)"

definition closest_step :: "(gatt_attr \<Rightarrow> attr_handle) \<Rightarrow> handle \<Rightarrow> gatt_attr option \<Rightarrow> gatt_attr \<Rightarrow> gatt_attr option" where
  "closest_step hs h idx i =
     (if attr_value (hs i) < h then
        (case idx of None \<Rightarrow> Some i
         | Some j \<Rightarrow> if attr_value (hs i) > attr_value (hs j) then Some i else idx)
      else idx)"

definition closest :: "(gatt_attr \<Rightarrow> attr_handle) \<Rightarrow> handle \<Rightarrow> gatt_attr option" where
  "closest hs h = foldl (closest_step hs h) None gatt_attrs"

definition set_ccc :: "gatt_attr \<Rightarrow> handle \<Rightarrow> node_info \<Rightarrow> node_info" where
  "set_ccc i h = attr_handles_update (\<lambda>hs. hs(i := (hs i)\<lparr>attr_ccc := h\<rparr>))"

definition set_value :: "gatt_attr \<Rightarrow> handle \<Rightarrow> node_info \<Rightarrow> node_info" where
  "set_value i h = attr_handles_update (\<lambda>hs. hs(i := (hs i)\<lparr>attr_value := h\<rparr>))"

definition discover_descriptors :: "'e env_scheme \<Rightarrow> conn \<Rightarrow> handle option \<Rightarrow> 'a gw_world_scheme
    \<Rightarrow> fault + (iter \<times> 'a gw_world_scheme)" where
  "discover_descriptors E c attr w = (case attr of
     Some h \<Rightarrow> Inr (ITER_CONTINUE, case closest (attr_handles (nodes w c)) h of
         None \<Rightarrow> w | Some i \<Rightarrow> set_node c (set_ccc i h) w)
   | None \<Rightarrow>
       if value_handle w c ATTR_SERVER_CERT \<noteq> 0 \<and> value_handle w c ATTR_DEVICE_CERT \<noteq> 0
       then bnd (cert_exchange_start E c w) (\<lambda>w. Inr (ITER_STOP, w))
       else Inr (ITER_STOP, uplink_start E c w))"

definition lowest :: "(gatt_attr \<Rightarrow> attr_handle) \<Rightarrow> handle \<Rightarrow> handle" where
  "lowest hs e = foldl (\<lambda>s i. if attr_value (hs i) < s then attr_value (hs i) else s) e gatt_attrs"

definition discover_characteristics :: "'e env_scheme \<Rightarrow> uuids \<Rightarrow> conn \<Rightarrow> (uuid \<times> handle) option
    \<Rightarrow> 'a gw_world_scheme \<Rightarrow> fault + (iter \<times> 'a gw_world_scheme)" where
  "discover_characteristics E U c attr w = (case attr of
     Some (u, h) \<Rightarrow> Inr (ITER_CONTINUE, case find (\<lambda>i. u = char_uuid U i) gatt_attrs of
         Some i \<Rightarrow> set_node c (set_value i h) w | None \<Rightarrow> w)
   | None \<Rightarrow>
       if value_handle w c ATTR_UPLINK = 0 \<or> value_handle w c ATTR_DOWNLINK = 0
       then Inr (ITER_STOP, bt_finished E c w)
       else bnd (discover_params w c) (\<lambda>(_, e, _).
         Inr (ITER_STOP, discover E c (Discover_params Cb_discover_descriptors Discover_descriptor
           (lowest (attr_handles (nodes w c)) e + 2) e (Some (ccc_uuid U))) w)))"

text \<open>A service is given by the handle of its declaration, its UUID and its last handle.\<close>

definition discover_services :: "'e env_scheme \<Rightarrow> uuids \<Rightarrow> conn \<Rightarrow> (handle \<times> uuid \<times> handle) option
    \<Rightarrow> 'a gw_world_scheme \<Rightarrow> fault + (iter \<times> 'a gw_world_scheme)" where
  "discover_services E U c attr w = (case attr of
     None \<Rightarrow> bnd (discover_params w c) (\<lambda>(s, e, u).
       if u = Some (svc16 U) then
         Inr (ITER_STOP, discover E c
           (Discover_params Cb_discover_services Discover_primary s e (Some (svc128 U))) w)
       else Inr (ITER_STOP, bt_finished E c w))
   | Some (h, u, e) \<Rightarrow>
       if svc16 U = u \<or> svc128 U = u then
         Inr (ITER_STOP, discover E c
           (Discover_params Cb_discover_characteristics Discover_characteristic (h + 1) e None) w)
       else Inr (ITER_CONTINUE, w))"

definition bt_start :: "'e env_scheme \<Rightarrow> uuids \<Rightarrow> conn \<Rightarrow> 'a gw_world_scheme \<Rightarrow> 'a gw_world_scheme" where
  "bt_start E U c w =
     (let w = set_node c (\<lambda>_. zero_node) w in
      discover E c (Discover_params Cb_discover_services Discover_primary 1 0xFFFF (Some (svc16 U))) w)"

definition bt_stop :: "'e env_scheme \<Rightarrow> conn \<Rightarrow> 'a gw_world_scheme \<Rightarrow> fault + 'a gw_world_scheme" where
  "bt_stop E c w = bnd (uplink_cleanup E c w) (downlink_cleanup c)"

subsection \<open>The callbacks of the gateway application\<close>

definition bt_connected :: "'e env_scheme \<Rightarrow> uuids \<Rightarrow> conn \<Rightarrow> byte \<Rightarrow> 'a gw_world_scheme \<Rightarrow> 'a gw_world_scheme" where
  "bt_connected E U c err w =
     (if err \<noteq> 0 then scan_start E (snd (ext_call E (Conn_unref c) w)) else bt_start E U c w)"

definition bt_disconnected :: "'e env_scheme \<Rightarrow> conn \<Rightarrow> 'a gw_world_scheme \<Rightarrow> fault + 'a gw_world_scheme" where
  "bt_disconnected E c w = bnd (bt_stop E c w) (\<lambda>w.
     Inr (scan_start E (snd (ext_call E (Conn_unref c) w))))"

end
