(* ===== verification/Connect_Props.thy ===== *)
theory Connect_Props
  imports Connect
begin

text \<open>
  Discovery: which handles it assigns, that it never ends without a request, a disconnect or
  the start of the exchange; and the life of a connection around it - what a disconnect
  releases, what it leaves, and that the gateway goes back to scanning.
\<close>

subsection \<open>Loops over the attributes\<close>

text \<open>The attributes below \<open>h\<close> and the highest among those seen so far.\<close>

definition best :: "(gatt_attr \<Rightarrow> attr_handle) \<Rightarrow> handle \<Rightarrow> gatt_attr set \<Rightarrow> gatt_attr option \<Rightarrow> bool" where
  "best hs h seen idx \<longleftrightarrow> (case idx of
     None \<Rightarrow> \<forall>i \<in> seen. \<not> attr_value (hs i) < h
   | Some i \<Rightarrow> i \<in> seen \<and> attr_value (hs i) < h
       \<and> (\<forall>j \<in> seen. attr_value (hs j) < h \<longrightarrow> attr_value (hs j) \<le> attr_value (hs i)))"

lemma best_step: "best hs h seen idx \<Longrightarrow> best hs h (insert i seen) (closest_step hs h idx i)"
  by (auto simp: best_def closest_step_def split: option.splits intro: order.trans)

lemma best_foldl: "best hs h seen idx \<Longrightarrow> best hs h (seen \<union> set xs) (foldl (closest_step hs h) idx xs)"
proof (induction xs arbitrary: seen idx)
  case (Cons i xs)
  from Cons.IH [OF best_step [OF Cons.prems]] show ?case by simp
qed simp

lemma closest_best: "best hs h UNIV (closest hs h)"
proof -
  have "best hs h {} None" by (simp add: best_def)
  from best_foldl [OF this, of gatt_attrs] have "best hs h (set gatt_attrs) (closest hs h)"
    by (simp add: closest_def)
  moreover have "set gatt_attrs = UNIV" by (simp add: UNIV_enum enum_gatt_attr_def)
  ultimately show ?thesis by simp
qed

lemma lowest_foldl:
  fixes e :: handle
  shows "foldl (\<lambda>s i. if attr_value (hs i) < s then attr_value (hs i) else s) e xs \<le> e
    \<and> (\<forall>i \<in> set xs. foldl (\<lambda>s i. if attr_value (hs i) < s then attr_value (hs i) else s) e xs \<le> attr_value (hs i))"
proof (induction xs arbitrary: e)
  case (Cons x xs)
  let ?f = "foldl (\<lambda>s i. if attr_value (hs i) < s then attr_value (hs i) else s)"
  show ?case
  proof (cases "attr_value (hs x) < e")
    case True
    with Cons [of "attr_value (hs x)"] show ?thesis by auto
  next
    case False
    with Cons [of e] show ?thesis by (auto simp: not_less intro: order.trans)
  qed
qed simp

lemma lowest_le: "lowest hs e \<le> attr_value (hs i)"
  using lowest_foldl [of hs e gatt_attrs] by (simp add: lowest_def)

subsection \<open>The properties\<close>

text \<open>UUIDs to try the code on.\<close>

definition small_uuids :: uuids where
  "small_uuids = \<lparr>svc16 = 1, svc128 = 2, char_uuid = (\<lambda>i. case i of ATTR_INFO \<Rightarrow> 3 | ATTR_DOWNLINK \<Rightarrow> 4
     | ATTR_UPLINK \<Rightarrow> 5 | ATTR_SERVER_CERT \<Rightarrow> 6 | ATTR_DEVICE_CERT \<Rightarrow> 7), ccc_uuid = 0x2902\<rparr>"

lemma small_uuids_simps [simp]: "svc16 small_uuids = 1" "svc128 small_uuids = 2" "ccc_uuid small_uuids = 0x2902"
  by (simp_all add: small_uuids_def)

text \<open>A node on which the uplink and the downlink characteristic have been found.\<close>

definition gw_found :: gw_world where
  "gw_found = gw_boot\<lparr>nodes := (\<lambda>_. zero_node\<lparr>attr_handles := (\<lambda>i. if i = ATTR_UPLINK then \<lparr>attr_value = 20, attr_ccc = 0\<rparr>
      else if i = ATTR_DOWNLINK then \<lparr>attr_value = 23, attr_ccc = 0\<rparr> else \<lparr>attr_value = 0, attr_ccc = 0\<rparr>),
    params := Discover_params Cb_discover_characteristics Discover_characteristic 18 30 None\<rparr>)\<rparr>"

text \<open>
  A CCC descriptor goes to the characteristic it belongs to: among the attributes whose
  value handle lies below the descriptor, to one with the highest; to none if there is no such attribute.
  Nothing else changes, and the discovery goes on.
\<close>

theorem ccc_goes_to_closest:
  "\<exists>w'. discover_descriptors E c (Some h) w = Inr (ITER_CONTINUE, w')
    \<and> (if \<exists>i. value_handle w c i < h
       then \<exists>i. value_handle w c i < h \<and> (\<forall>j. value_handle w c j < h \<longrightarrow> value_handle w c j \<le> value_handle w c i)
         \<and> w' = set_node c (set_ccc i h) w
       else w' = w)"
proof (cases "closest (attr_handles (nodes w c)) h")
  case None
  with closest_best [of "attr_handles (nodes w c)" h] have "\<not> (\<exists>i. value_handle w c i < h)"
    by (simp add: best_def value_handle_def)
  with None show ?thesis by (simp add: discover_descriptors_def)
next
  case (Some i)
  with closest_best [of "attr_handles (nodes w c)" h] have i: "value_handle w c i < h"
    "\<forall>j. value_handle w c j < h \<longrightarrow> value_handle w c j \<le> value_handle w c i"
    by (simp_all add: best_def value_handle_def)
  have "discover_descriptors E c (Some h) w = Inr (ITER_CONTINUE, set_node c (set_ccc i h) w)"
    using Some by (simp add: discover_descriptors_def)
  with i show ?thesis by metis
qed

theorem ccc_goes_to_closest_witness:
  "\<exists>w' i. discover_descriptors small_env 0 (Some 21) gw_found = Inr (ITER_CONTINUE, w')
    \<and> value_handle gw_found 0 i \<ge> 20 \<and> w' = set_node 0 (set_ccc i 21) gw_found"
proof -
  have v: "value_handle gw_found 0 ATTR_UPLINK = 20"
    by (simp add: value_handle_def gw_found_def)
  have less: "value_handle gw_found 0 ATTR_UPLINK < 21" by (simp add: v)
  then have "\<exists>i. value_handle gw_found 0 i < 21" by (rule exI)
  from ccc_goes_to_closest [of small_env 0 21 gw_found, unfolded if_P [OF this]] obtain w' i where
    "discover_descriptors small_env 0 (Some 21) gw_found = Inr (ITER_CONTINUE, w')"
    "\<forall>j. value_handle gw_found 0 j < 21 \<longrightarrow> value_handle gw_found 0 j \<le> value_handle gw_found 0 i"
    "w' = set_node 0 (set_ccc i 21) gw_found" by blast
  then show ?thesis using less unfolding v [symmetric] by blast
qed

text \<open>
  The search for descriptors starts too early as soon as one characteristic is missing.
  The handle of an undiscovered characteristic is 0, which counts as the lowest one, so the
  search starts at handle 2 instead of behind the first Pouch value handle.
\<close>

theorem missing_characteristic_widens_search:
  assumes "value_handle w c ATTR_UPLINK \<noteq> 0" and "value_handle w c ATTR_DOWNLINK \<noteq> 0"
    and "value_handle w c i = 0" and "params (nodes w c) = Discover_params cb ty s e u"
  shows "\<exists>w'. discover_characteristics E U c None w = Inr (ITER_STOP, w')
    \<and> take (Suc (length (trace w))) (trace w') = trace w @ [Gatt_discover c
        (Discover_params Cb_discover_descriptors Discover_descriptor 2 e (Some (ccc_uuid U)))]"
proof -
  have "lowest (attr_handles (nodes w c)) e = 0"
    using lowest_le [of "attr_handles (nodes w c)" e i] assms(3) by (simp add: value_handle_def)
  with assms show ?thesis
    by (simp add: discover_characteristics_def discover_params_def discover_def ext_call_def bt_finished_def Let_def)
qed

theorem missing_characteristic_widens_search_witness:
  "\<exists>w'. discover_characteristics small_env small_uuids 0 None gw_found = Inr (ITER_STOP, w')
     \<and> take 1 (trace w') = [Gatt_discover 0 (Discover_params Cb_discover_descriptors Discover_descriptor 2 30 (Some 0x2902))]"
proof -
  have "value_handle gw_found 0 ATTR_UPLINK \<noteq> 0" "value_handle gw_found 0 ATTR_DOWNLINK \<noteq> 0"
    "value_handle gw_found 0 ATTR_INFO = 0"
    "params (nodes gw_found 0) = Discover_params Cb_discover_characteristics Discover_characteristic 18 30 None"
    by (simp_all add: value_handle_def gw_found_def)
  from missing_characteristic_widens_search [OF this, of small_env small_uuids] show ?thesis
    by (simp add: gw_found_def gw_boot_def)
qed

text \<open>The calls of a step that sends a request, if it has one, or drops the connection.\<close>

definition request_or_drop :: "'e env_scheme \<Rightarrow> conn \<Rightarrow> ext_call list \<Rightarrow> gatt_params option \<Rightarrow> ext_call list" where
  "request_or_drop E c tr prm = (case prm of
     None \<Rightarrow> [Conn_disconnect c]
   | Some g \<Rightarrow> Gatt_discover c g # (if ret E tr (Gatt_discover c g) = 0 then [] else [Conn_disconnect c]))"

text \<open>
  Discovery never runs dry.  When the search for the service or for the characteristics is over, the
  connection is either dropped or exactly one further request goes out, dropped after all if
  the host refuses it; it is dropped at once exactly when the second service search has failed,
  resp. when the uplink or the downlink characteristic is missing.
\<close>

theorem discovery_never_runs_dry:
  assumes "params (nodes w c) = Discover_params cb ty s e u"
  shows "\<exists>w1 w2 g. discover_services E U c None w = Inr (ITER_STOP, w1)
    \<and> trace w1 = trace w @ request_or_drop E c (trace w) (if u = Some (svc16 U)
        then Some (Discover_params Cb_discover_services Discover_primary s e (Some (svc128 U))) else None)
    \<and> discover_characteristics E U c None w = Inr (ITER_STOP, w2)
    \<and> trace w2 = trace w @ request_or_drop E c (trace w)
        (if value_handle w c ATTR_UPLINK = 0 \<or> value_handle w c ATTR_DOWNLINK = 0 then None else Some g)"
  using assms
  by (auto simp: discover_services_def discover_characteristics_def discover_params_def discover_def ext_call_def
      bt_finished_def request_or_drop_def Let_def)

theorem discovery_never_runs_dry_witness:
  "\<exists>w1. discover_services small_env small_uuids 0 None gw_found
     = Inr (ITER_STOP, w1) \<and> trace w1 = [Conn_disconnect 0]"
proof -
  have "params (nodes gw_found 0) = Discover_params Cb_discover_characteristics Discover_characteristic 18 30 None"
    by (simp add: gw_found_def)
  from discovery_never_runs_dry [OF this, of small_env "small_uuids"]
  show ?thesis by (auto simp: request_or_drop_def gw_found_def gw_boot_def)
qed

text \<open>
  The gateway keeps looking for devices.  A connection that could not be established and
  one that ended both give their reference back and start scanning again.
\<close>

theorem gateway_scans_again:
  "(err \<noteq> 0 \<longrightarrow> trace (bt_connected E U c err w) = trace w @ [Conn_unref c, Scan_start])
   \<and> (\<forall>w'. bt_disconnected E c w = Inr w' \<longrightarrow> (\<exists>tr. trace w' = tr @ [Conn_unref c, Scan_start]))"
  by (auto simp: bt_connected_def bt_disconnected_def scan_start_def ext_call_def elim!: bnd_InrE)

theorem gateway_scans_again_witness:
  "trace (bt_connected small_env small_uuids 0 1 gw_boot) = [Conn_unref 0, Scan_start]"
  using gateway_scans_again [of 1 small_env small_uuids 0 gw_boot] by (simp add: gw_boot_def)

text \<open>
  C36: a disconnect while the node waits for the cloud leaves a trap.  The disconnect frees the
  scratch buffer but neither the downlink context nor the packetizer, and the reader still
  counts as waiting; the next block from the cloud starts a write into the buffer that is no
  longer there.
\<close>

theorem block_after_disconnect_faults:
  assumes inv: "dl_inv E w" and wired: "wired c a p m w" and d: "downlinks w a = Some d" "cb_arg d = c"
    and "\<not> aborted d" and "current_block d = NULL" and "client_waiting d" and "node_uplink (nodes w c) = NULL"
    and "slab_used w < num_blocks E" and "length src \<le> max_block_size E" and "\<And>t. BT_ATT_OVERHEAD \<le> mtu E t c"
  shows "\<exists>w1. bt_stop E c w = Inr w1
    \<and> downlink_block_cb E (downlink_data_available E) src lst (Some a) w1 = Inl Null_deref"
proof -
  from wired obtain b n where b: "downlink_scratch (nodes w c) = Some b" "scratches w b = Some n"
    "packetizer (nodes w c) = Some p" "packetizers w p = Some (Fill_downlink, Some a)"
    by (auto simp: wired_def)
  define w1 where "w1 = set_node c (downlink_scratch_update (\<lambda>_. NULL)) (w\<lparr>scratches := (scratches w)(b := None)\<rparr>)"
  have stop: "bt_stop E c w = Inr w1"
    using b assms(8) by (simp add: bt_stop_def uplink_cleanup_def downlink_cleanup_def free_scratch_def w1_def)
  have inv1: "dl_inv E w1" by (rule dl_inv_frame [OF inv]) (simp_all add: w1_def)
  have d1: "downlinks w1 a = Some d" "slab_used w1 < num_blocks E" using d(1) assms(9) by (simp_all add: w1_def)
  from block_cb_push [OF inv1 d1(1) assms(5) d1(2) assms(10), of "downlink_data_available E" lst] d(2) assms(6,7)
  obtain w2 where w2: "downlink_block_cb E (downlink_data_available E) src lst (Some a) w1
      = bnd (downlink_data_available E c w2) (\<lambda>w. Inr (GOLIOTH_OK, w))"
    "downlink_world.more w2 = downlink_world.more w1" by auto
  have "nodes w2 = nodes w1" "packetizers w2 = packetizers w1" using more_gw [OF w2(2)] by auto
  then have "downlink_data_available E c w2 = Inl Null_deref"
    using b assms(11) [of "trace w2"]
    by (simp add: downlink_data_available_def write_downlink_characteristic_def packetizer_get_def w1_def Let_def)
  with stop w2(1) show ?thesis by (intro exI [of _ w1]) simp
qed

theorem block_after_disconnect_faults_witness:
  "\<exists>w1. bt_stop small_env 0 gw_wired = Inr w1
     \<and> downlink_block_cb small_env (downlink_data_available small_env) [1] True (Some 1) w1 = Inl Null_deref"
proof (rule block_after_disconnect_faults [where d = "new_downlink 0", OF gw_wired_simps(3,4)])
  show "node_uplink (nodes gw_wired 0) = NULL" by (simp add: gw_wired_def gw_boot_def zero_node_def)
qed (simp_all add: new_downlink_simps)

text \<open>
  A disconnect releases the uplink and the scratch buffer of the connection, and nothing
  else: the contexts of a certificate exchange or a download under way stay allocated, and the
  next connection in the same slot clears the only pointers to them.
\<close>

theorem disconnect_keeps_contexts:
  assumes "bt_stop E c w = Inr w1" and "node_uplink (nodes w c) = NULL"
  shows "downlink_scratch (nodes w1 c) = NULL \<and> device_ctxs w1 = device_ctxs w \<and> server_ctxs w1 = server_ctxs w
    \<and> downlinks w1 = downlinks w \<and> packetizers w1 = packetizers w
    \<and> (let w2 = bt_start E U c w1 in device_ctxs w2 = device_ctxs w \<and> server_ctxs w2 = server_ctxs w
        \<and> downlinks w2 = downlinks w \<and> packetizers w2 = packetizers w \<and> downlink_ctx (nodes w2 c) = NULL
        \<and> device_cert_ctx (nodes w2 c) = NULL \<and> server_cert_ctx (nodes w2 c) = NULL \<and> packetizer (nodes w2 c) = NULL)"
  using assms
  by (auto simp: bt_stop_def uplink_cleanup_def downlink_cleanup_def free_scratch_def bnd_simps bt_start_def
      discover_def ext_call_def bt_finished_def zero_node_def Let_def split: if_splits)

theorem disconnect_keeps_contexts_witness:
  "\<exists>w1. bt_stop small_env 0 gw_wired = Inr w1 \<and> downlinks w1 = [1 \<mapsto> new_downlink 0] \<and> packetizers w1 2 \<noteq> None"
proof -
  have n: "node_uplink (nodes gw_wired 0) = NULL" by (simp add: gw_wired_def gw_boot_def zero_node_def)
  obtain w1 where w1: "bt_stop small_env 0 gw_wired = Inr w1"
    by (simp add: bt_stop_def uplink_cleanup_def downlink_cleanup_def free_scratch_def gw_wired_def gw_boot_def zero_node_def)
  from disconnect_keeps_contexts [OF w1 n] w1 show ?thesis by auto
qed

end
