(* ===== verification/Discovery.thy ===== *)
theory Discovery
  imports Connect_Props
begin

text \<open>
  Discovery from end to end: the handles a whole discovery finds on a peer, given by the
  characteristics of its Pouch service with their value handles and CCC descriptors.
\<close>

subsection \<open>The peer\<close>

text \<open>A characteristic of the service: UUID, value handle, handle of its CCC descriptor, if any.\<close>

type_synonym chrc = "uuid \<times> handle \<times> handle option"

text \<open>
  Attributes come in the order of their handles: the value handle (above 1, since the
  declaration precedes it), the descriptor behind it, then the next characteristic.
\<close>

definition in_order :: "chrc \<Rightarrow> chrc \<Rightarrow> bool" where
  "in_order x y \<longleftrightarrow> (case x of (_, v, d) \<Rightarrow> case y of (_, v', _) \<Rightarrow> v < v' \<and> (\<forall>h \<in> set_option d. h < v'))"

definition well_ordered :: "chrc list \<Rightarrow> handle \<Rightarrow> bool" where
  "well_ordered cs e \<longleftrightarrow> sorted_wrt in_order cs
     \<and> (\<forall>(_, v, d) \<in> set cs. 1 < v \<and> v \<le> e \<and> (\<forall>h \<in> set_option d. v < h \<and> h \<le> e))"

definition chrc_value :: "chrc list \<Rightarrow> uuid \<Rightarrow> handle" where
  "chrc_value cs u = (case map_of cs u of Some (v, _) \<Rightarrow> v | None \<Rightarrow> 0)"

definition chrc_ccc :: "chrc list \<Rightarrow> uuid \<Rightarrow> handle option" where
  "chrc_ccc cs u = (case map_of cs u of Some (_, d) \<Rightarrow> d | None \<Rightarrow> None)"

subsection \<open>The host's part\<close>

text \<open>The host calls the callback for one attribute after the other, until it says stop.\<close>

primrec report_each :: "('x option \<Rightarrow> 'w \<Rightarrow> fault + (iter \<times> 'w)) \<Rightarrow> 'x list \<Rightarrow> 'w \<Rightarrow> fault + 'w" where
  "report_each cb [] w = Inr w"
| "report_each cb (x # xs) w =
     bnd (cb (Some x) w) (\<lambda>(r, w). if r = ITER_STOP then Inr w else report_each cb xs w)"

definition cccs :: "chrc list \<Rightarrow> handle list" where
  "cccs cs = concat (map (\<lambda>(_, _, d). case d of None \<Rightarrow> [] | Some h \<Rightarrow> [h]) cs)"

definition in_range :: "gatt_params \<Rightarrow> handle \<Rightarrow> bool" where
  "in_range p h = (case p of Discover_params _ _ s e _ \<Rightarrow> s \<le> h \<and> h \<le> e | _ \<Rightarrow> False)"

text \<open>
  A discovery on a peer whose Pouch service begins at \<open>h\<close> and ends at \<open>e\<close>: the start, the
  service, its characteristics, the end of the list, and the CCC descriptors in the range the
  gateway has asked for.
\<close>

definition discovery :: "'e env_scheme \<Rightarrow> uuids \<Rightarrow> conn \<Rightarrow> handle \<Rightarrow> handle \<Rightarrow> chrc list
    \<Rightarrow> 'a gw_world_scheme \<Rightarrow> fault + 'a gw_world_scheme" where
  "discovery E U c h e cs w =
     bnd (discover_services E U c (Some (h, svc16 U, e)) (bt_start E U c w)) (\<lambda>(_, w).
     bnd (report_each (discover_characteristics E U c) (map (\<lambda>(u, v, _). (u, v)) cs) w) (\<lambda>w.
     bnd (discover_characteristics E U c None w) (\<lambda>(_, w).
     report_each (discover_descriptors E c) (filter (in_range (params (nodes w c))) (cccs cs)) w)))"

subsection \<open>What the callbacks store\<close>

lemma set_node_comp: "set_node c f (set_node c g w) = set_node c (f \<circ> g) w"
  by (simp add: set_node_def)

lemma set_node_cong:
  "f (attr_handles (nodes w c)) = g (attr_handles (nodes w c)) \<Longrightarrow>
    set_node c (attr_handles_update f) w = set_node c (attr_handles_update g) w"
  by (cases "nodes w c") (simp add: set_node_def)

lemma set_node_same:
  "f (attr_handles (nodes w c)) = attr_handles (nodes w c) \<Longrightarrow> set_node c (attr_handles_update f) w = w"
  by (cases "nodes w c") (simp add: set_node_def fun_upd_idem)

lemma attr_handles_comp: "attr_handles_update f \<circ> attr_handles_update g = attr_handles_update (f \<circ> g)"
  by (rule ext) simp

lemma nodes_set_node [simp]: "nodes (set_node c f w) c = f (nodes w c)"
  by (simp add: set_node_def)

definition assign :: "uuids \<Rightarrow> uuid \<times> handle \<Rightarrow> (gatt_attr \<Rightarrow> attr_handle) \<Rightarrow> gatt_attr \<Rightarrow> attr_handle" where
  "assign U x hs = (case x of (u, h) \<Rightarrow> case find (\<lambda>i. u = char_uuid U i) gatt_attrs of
     Some i \<Rightarrow> hs(i := (hs i)\<lparr>attr_value := h\<rparr>) | None \<Rightarrow> hs)"

definition own :: "handle \<Rightarrow> (gatt_attr \<Rightarrow> attr_handle) \<Rightarrow> gatt_attr \<Rightarrow> attr_handle" where
  "own d hs = (case closest hs d of Some i \<Rightarrow> hs(i := (hs i)\<lparr>attr_ccc := d\<rparr>) | None \<Rightarrow> hs)"

lemma discover_characteristic:
  "discover_characteristics E U c (Some x) w = Inr (ITER_CONTINUE, set_node c (attr_handles_update (assign U x)) w)"
  by (cases x) (auto simp: discover_characteristics_def assign_def set_value_def
      intro!: set_node_cong set_node_same [symmetric] split: option.split)

lemma discover_descriptor:
  "discover_descriptors E c (Some d) w = Inr (ITER_CONTINUE, set_node c (attr_handles_update (own d)) w)"
  by (auto simp: discover_descriptors_def own_def set_ccc_def
      intro!: set_node_cong set_node_same [symmetric] split: option.split)

lemma report_stores:
  assumes "\<And>x w. cb (Some x) w = Inr (ITER_CONTINUE, set_node c (attr_handles_update (f x)) w)"
  shows "report_each cb xs w = Inr (set_node c (attr_handles_update (fold f xs)) w)"
proof (induction xs arbitrary: w)
  case (Cons x xs)
  then show ?case by (simp add: assms set_node_comp attr_handles_comp del: comp_apply)
qed (simp add: set_node_same)

lemma find_uuid: "inj (char_uuid U) \<Longrightarrow> find (\<lambda>i. u = char_uuid U i) gatt_attrs = Some i \<longleftrightarrow> u = char_uuid U i"
  by (cases i) (auto simp: gatt_attrs_def dest: injD)

lemma assign_at:
  assumes "inj (char_uuid U)"
  shows "assign U (u, h) hs i = (if u = char_uuid U i then (hs i)\<lparr>attr_value := h\<rparr> else hs i)"
proof (cases "find (\<lambda>i. u = char_uuid U i) gatt_attrs")
  case None
  with find_uuid [OF assms, of u i] show ?thesis by (auto simp: assign_def)
next
  case (Some k)
  with find_uuid [OF assms, of u k] assms show ?thesis by (auto simp: assign_def dest: injD)
qed

lemma fold_assign:
  assumes "inj (char_uuid U)" and "distinct (map fst xs)"
  shows "fold (assign U) xs hs i = (case map_of xs (char_uuid U i) of
     Some h \<Rightarrow> (hs i)\<lparr>attr_value := h\<rparr> | None \<Rightarrow> hs i)"
  using assms(2)
proof (induction xs arbitrary: hs)
  case (Cons x xs)
  obtain u h where x: "x = (u, h)" by (cases x)
  from Cons.prems have IH: "fold (assign U) xs hs' i = (case map_of xs (char_uuid U i) of
      Some h \<Rightarrow> (hs' i)\<lparr>attr_value := h\<rparr> | None \<Rightarrow> hs' i)" for hs'
    by (simp add: Cons.IH)
  show ?case
  proof (cases "u = char_uuid U i")
    case True
    with Cons.prems x have "map_of xs (char_uuid U i) = None" by (simp add: map_of_eq_None_iff)
    with True x show ?thesis by (simp add: IH assign_at [OF assms(1)])
  next
    case False
    with x show ?thesis by (simp add: IH assign_at [OF assms(1)] split: option.split)
  qed
qed simp

lemma closest_cong:
  assumes "\<And>i. attr_value (hs i) = attr_value (hs' i)"
  shows "closest hs d = closest hs' d"
proof -
  have "closest_step hs d = closest_step hs' d"
    by (intro ext) (simp add: closest_step_def assms split: option.split)
  then show ?thesis by (simp add: closest_def)
qed

lemma own_value [simp]: "attr_value (own d hs i) = attr_value (hs i)"
  by (simp add: own_def split: option.split)

lemma fold_own_value [simp]: "attr_value (fold own ds hs i) = attr_value (hs i)"
  by (induction ds arbitrary: hs) simp_all

lemma fold_own:
  assumes "\<And>d. d \<in> set ds \<Longrightarrow> closest hs d = Some i \<Longrightarrow> d = k"
  shows "attr_ccc (fold own ds hs i) = (if \<exists>d \<in> set ds. closest hs d = Some i then k else attr_ccc (hs i))"
  using assms
proof (induction ds arbitrary: hs)
  case (Cons d ds)
  have c: "closest (own d hs) d' = closest hs d'" for d' by (rule closest_cong) simp
  have "attr_ccc (own d hs i) = (if closest hs d = Some i then k else attr_ccc (hs i))"
    using Cons.prems [of d] by (auto simp: own_def split: option.split)
  with Cons.IH [of "own d hs"] Cons.prems show ?case by (auto simp: c)
qed simp

subsection \<open>Descriptors and their characteristics\<close>

lemma sorted_wrt_two: "sorted_wrt P xs \<Longrightarrow> x \<in> set xs \<Longrightarrow> y \<in> set xs \<Longrightarrow> x = y \<or> P x y \<or> P y x"
  by (induction xs) auto

lemma in_cccs: "d \<in> set (cccs cs) \<longleftrightarrow> (\<exists>u v. (u, v, Some d) \<in> set cs)"
  by (force simp: cccs_def split: option.splits)

lemma closest_owner:
  assumes "well_ordered cs e" and "inj (char_uuid U)" and "distinct (map fst cs)"
    and val: "\<And>i. attr_value (hs i) = chrc_value cs (char_uuid U i)"
    and x: "(char_uuid U j, v, Some d) \<in> set cs"
  shows "closest hs d = Some j"
proof -
  have v: "attr_value (hs j) = v" "1 < v" "v < d"
    using assms(1,3) x by (auto simp: val chrc_value_def well_ordered_def)
  from closest_best [of hs d] v obtain k where k: "closest hs d = Some k" "attr_value (hs k) < d" "v \<le> attr_value (hs k)"
    by (auto simp: best_def split: option.splits)
  with v(2) obtain vk dk where y: "map_of cs (char_uuid U k) = Some (vk, dk)" "attr_value (hs k) = vk"
    by (auto simp: val chrc_value_def split: option.splits)
  then have "(char_uuid U k, vk, dk) \<in> set cs" by (simp add: map_of_SomeD)
  from sorted_wrt_two [OF _ x this, of in_order] assms(1) k y v
  have "char_uuid U j = char_uuid U k"
    by (auto simp: well_ordered_def in_order_def)
  with assms(2) k(1) show ?thesis by (auto dest: injD)
qed

subsection \<open>The whole discovery\<close>

lemma map_of_values: "map_of (map (\<lambda>(u, v, _). (u, v)) cs) u = map_option fst (map_of cs u)"
  by (induction cs) auto

lemma report_values:
  assumes "inj (char_uuid U)" and "distinct (map fst cs)" and "attr_handles n = (\<lambda>_. \<lparr>attr_value = 0, attr_ccc = 0\<rparr>)"
  shows "fold (assign U) (map (\<lambda>(u, v, _). (u, v)) cs) (attr_handles n)
    = (\<lambda>i. \<lparr>attr_value = chrc_value cs (char_uuid U i), attr_ccc = 0\<rparr>)"
proof
  fix i
  have "distinct (map fst (map (\<lambda>(u, v, _). (u, v)) cs))"
    using assms(2) by (simp add: comp_def case_prod_unfold)
  from fold_assign [OF assms(1) this, of "attr_handles n" i] assms(3)
  show "fold (assign U) (map (\<lambda>(u, v, _). (u, v)) cs) (attr_handles n) i
    = \<lparr>attr_value = chrc_value cs (char_uuid U i), attr_ccc = 0\<rparr>"
    by (auto simp: map_of_values chrc_value_def split: option.split)
qed

lemma lowest_value:
  assumes "attr_value (hs k) \<le> e"
  obtains i where "lowest hs e = attr_value (hs i)" and "\<And>j. lowest hs e \<le> attr_value (hs j)"
proof -
  have "foldl (\<lambda>s i. if attr_value (hs i) < s then attr_value (hs i) else s) e xs = e
    \<or> (\<exists>i. foldl (\<lambda>s i. if attr_value (hs i) < s then attr_value (hs i) else s) e xs = attr_value (hs i))" for xs
    by (induction xs arbitrary: e) (simp, fastforce)
  then have "lowest hs e = e \<or> (\<exists>i. lowest hs e = attr_value (hs i))" by (simp add: lowest_def)
  with assms lowest_le [of hs e k] that lowest_le show thesis by (metis order.antisym)
qed

lemma behind_lowest:
  fixes d e :: handle
  assumes "low \<le> v" and "v < d" and "d \<le> e" and "e < 0xFFFF" and "low = f i" and "\<And>j. low \<le> f j" and "\<And>j. f j \<le> e"
  shows "low + 2 \<le> d \<longleftrightarrow> \<not> (\<forall>j. d \<le> f j + 1)"
proof -
  have b: "unat (e :: handle) < 65535" using assms(4) by (simp add: word_less_nat_alt)
  have lt: "unat low + 2 < 65536" using b assms(1-3) by (simp add: word_le_nat_alt word_less_nat_alt)
  have one: "unat (f j + 1) = unat (f j) + 1" for j
    using b assms(7) [of j] by (simp add: word_le_nat_alt unat_word_ariths)
  have two: "unat (low + 2) = unat low + 2" using lt by (simp add: unat_word_ariths)
  show ?thesis
  proof
    assume "low + 2 \<le> d"
    with one [of i] two have "\<not> d \<le> f i + 1" by (simp add: word_le_nat_alt assms(5))
    then show "\<not> (\<forall>j. d \<le> f j + 1)" by blast
  next
    assume "\<not> (\<forall>j. d \<le> f j + 1)"
    then obtain j where "\<not> d \<le> f j + 1" by blast
    with one [of j] two assms(6) [of j] show "low + 2 \<le> d" by (simp add: word_le_nat_alt)
  qed
qed

lemma discover_accepted:
  assumes "\<And>t g. ret E t (Gatt_discover c g) = 0"
  shows "nodes (discover E c prm w) c = (nodes w c)\<lparr>params := prm\<rparr>"
  by (simp add: discover_def ext_call_def assms set_node_def Let_def)

lemma chrc_value_le: "well_ordered cs e \<Longrightarrow> chrc_value cs u \<le> e"
  by (auto simp: chrc_value_def well_ordered_def dest!: map_of_SomeD split: option.split)

lemma found_ccc:
  assumes "well_ordered cs e" and "e < 0xFFFF" and "inj (char_uuid U)" and "distinct (map fst cs)"
    and "\<forall>(u, v, d) \<in> set cs. d \<noteq> None \<longrightarrow> u \<in> range (char_uuid U)"
    and hs: "\<And>i. attr_value (hs i) = chrc_value cs (char_uuid U i)" and z: "attr_ccc (hs i) = 0"
  shows "attr_ccc (fold own (filter (\<lambda>d. lowest hs e + 2 \<le> d \<and> d \<le> e) (cccs cs)) hs i)
    = (case chrc_ccc cs (char_uuid U i) of None \<Rightarrow> 0
       | Some d \<Rightarrow> if \<forall>j. d \<le> chrc_value cs (char_uuid U j) + 1 then 0 else d)"
proof -
  let ?ds = "filter (\<lambda>d. lowest hs e + 2 \<le> d \<and> d \<le> e) (cccs cs)"
  let ?k = "the (chrc_ccc cs (char_uuid U i))"
  have own: "chrc_ccc cs (char_uuid U i) = Some d \<longleftrightarrow> d \<in> set (cccs cs) \<and> closest hs d = Some i" for d
  proof
    assume "chrc_ccc cs (char_uuid U i) = Some d"
    then obtain v where "(char_uuid U i, v, Some d) \<in> set cs"
      by (auto simp: chrc_ccc_def dest: map_of_SomeD split: option.splits)
    with closest_owner [OF assms(1,3,4) hs] show "d \<in> set (cccs cs) \<and> closest hs d = Some i"
      by (auto simp: in_cccs)
  next
    assume d: "d \<in> set (cccs cs) \<and> closest hs d = Some i"
    then obtain u v where x: "(u, v, Some d) \<in> set cs" by (auto simp: in_cccs)
    with assms(5) obtain j where "u = char_uuid U j" by auto
    with x closest_owner [OF assms(1,3,4) hs, of j v d] d have "u = char_uuid U i" by simp
    with x assms(4) show "chrc_ccc cs (char_uuid U i) = Some d" by (simp add: chrc_ccc_def)
  qed
  have range: "lowest hs e + 2 \<le> d \<and> d \<le> e \<longleftrightarrow> \<not> (\<forall>j. d \<le> chrc_value cs (char_uuid U j) + 1)"
    if d: "chrc_ccc cs (char_uuid U i) = Some d" for d
  proof -
    from d have "chrc_value cs (char_uuid U i) < d" "d \<le> e"
      using assms(1) by (auto simp: chrc_ccc_def chrc_value_def well_ordered_def dest!: map_of_SomeD split: option.splits)
    moreover from chrc_value_le [OF assms(1)] obtain k where
      "lowest hs e = attr_value (hs k)" "\<And>j. lowest hs e \<le> attr_value (hs j)"
      using lowest_value [of hs i e] by (metis hs)
    ultimately show ?thesis
      using behind_lowest [of "lowest hs e" "chrc_value cs (char_uuid U i)" d e "\<lambda>j. chrc_value cs (char_uuid U j)" k]
        assms(2) chrc_value_le [OF assms(1)] by (simp add: hs)
  qed
  have "attr_ccc (fold own ?ds hs i) = (if \<exists>d \<in> set ?ds. closest hs d = Some i then ?k else 0)"
  proof -
    have "d = ?k" if "d \<in> set ?ds" and "closest hs d = Some i" for d
      using that own [of d] by simp
    from fold_own [of ?ds hs i ?k, OF this] show ?thesis unfolding z .
  qed
  moreover have "(\<exists>d \<in> set ?ds. closest hs d = Some i)
      \<longleftrightarrow> (\<exists>d. chrc_ccc cs (char_uuid U i) = Some d \<and> \<not> (\<forall>j. d \<le> chrc_value cs (char_uuid U j) + 1))"
    using own range by (simp only: set_filter mem_Collect_eq bex_simps) blast
  ultimately show ?thesis
    by (cases "chrc_ccc cs (char_uuid U i)")
      (auto simp only: option.case option.sel option.inject option.distinct simp_thms ex_simps split: if_split)
qed

lemma discovery_handles:
  assumes "well_ordered cs e" and "e < 0xFFFF" and "inj (char_uuid U)" and "distinct (map fst cs)"
    and "\<forall>(u, v, d) \<in> set cs. d \<noteq> None \<longrightarrow> u \<in> range (char_uuid U)"
    and found: "char_uuid U ATTR_UPLINK \<in> fst ` set cs" "char_uuid U ATTR_DOWNLINK \<in> fst ` set cs"
    and acc: "\<And>t g. ret E t (Gatt_discover c g) = 0"
  shows "\<exists>w'. discovery E U c h e cs w = Inr w' \<and> (\<forall>i. attr_handles (nodes w' c) i =
    \<lparr>attr_value = chrc_value cs (char_uuid U i), attr_ccc = (case chrc_ccc cs (char_uuid U i) of None \<Rightarrow> 0
       | Some d \<Rightarrow> if \<forall>j. d \<le> chrc_value cs (char_uuid U j) + 1 then 0 else d)\<rparr>)"
proof -
  let ?hs = "\<lambda>i. \<lparr>attr_value = chrc_value cs (char_uuid U i), attr_ccc = 0 :: handle\<rparr>"
  let ?ds = "filter (\<lambda>d. lowest ?hs e + 2 \<le> d \<and> d \<le> e) (cccs cs)"
  have pos: "chrc_value cs u \<noteq> 0" if "u \<in> fst ` set cs" for u
    using that assms(1,4) by (auto simp: chrc_value_def well_ordered_def)
  define w1 where "w1 = discover E c (Discover_params Cb_discover_characteristics Discover_characteristic (h + 1) e None)
    (bt_start E U c w)"
  have n1: "nodes w1 c = zero_node\<lparr>params := Discover_params Cb_discover_characteristics Discover_characteristic (h + 1) e None\<rparr>"
    by (simp add: w1_def discover_accepted acc bt_start_def Let_def)
  define w2 where "w2 = set_node c (attr_handles_update (fold (assign U) (map (\<lambda>(u, v, _). (u, v)) cs))) w1"
  have n2: "nodes w2 c = (nodes w1 c)\<lparr>attr_handles := ?hs\<rparr>"
    using report_values [OF assms(3,4), of "nodes w1 c"]
    by (cases "nodes w1 c") (simp add: w2_def n1 zero_node_def)
  define w3 where "w3 = discover E c (Discover_params Cb_discover_descriptors Discover_descriptor (lowest ?hs e + 2) e
    (Some (ccc_uuid U))) w2"
  have "discover_services E U c (Some (h, svc16 U, e)) (bt_start E U c w) = Inr (ITER_STOP, w1)"
    by (simp add: discover_services_def w1_def)
  moreover have "report_each (discover_characteristics E U c) (map (\<lambda>(u, v, _). (u, v)) cs) w1 = Inr w2"
    unfolding w2_def by (rule report_stores [of "discover_characteristics E U c" c "assign U", OF discover_characteristic])
  moreover have "discover_characteristics E U c None w2 = Inr (ITER_STOP, w3)"
    using pos found by (simp add: discover_characteristics_def value_handle_def n2 n1 discover_params_def w3_def)
  ultimately have "discovery E U c h e cs w
      = report_each (discover_descriptors E c) (filter (in_range (params (nodes w3 c))) (cccs cs)) w3"
    by (simp add: discovery_def)
  also have "filter (in_range (params (nodes w3 c))) (cccs cs) = ?ds"
    by (simp add: w3_def discover_accepted acc in_range_def [abs_def])
  also have "report_each (discover_descriptors E c) ?ds w3 = Inr (set_node c (attr_handles_update (fold own ?ds)) w3)"
    by (rule report_stores [of "discover_descriptors E c" c own, OF discover_descriptor])
  finally show ?thesis
    using found_ccc [OF assms(1-5), of ?hs] by (simp add: w3_def discover_accepted acc n2)
qed

text \<open>
  C12: discovery finds the handles.  On a peer with distinct characteristics in the order of their
  handles, whose CCC descriptors belong to Pouch characteristics, whose Pouch service ends below
  the handle 0xFFFF, and with a host that accepts the requests, a whole discovery ends with the value handle of every Pouch characteristic the
  peer has, 0 for the others, and with the CCC descriptor of each - but for one: the descriptor
  right behind the lowest value handle is missed when all five characteristics are there,
  because the search begins two handles behind that value instead of one.
\<close>

theorem discovery_finds_handles:
  assumes "well_ordered cs e" and "e < 0xFFFF" and "inj (char_uuid U)" and "distinct (map fst cs)"
    and "\<forall>(u, v, d) \<in> set cs. d \<noteq> None \<longrightarrow> u \<in> range (char_uuid U)"
    and found: "char_uuid U ATTR_UPLINK \<in> fst ` set cs" "char_uuid U ATTR_DOWNLINK \<in> fst ` set cs"
    and acc: "\<And>t g. ret E t (Gatt_discover c g) = 0"
  shows "\<exists>w'. discovery E U c h e cs w = Inr w' \<and> (\<forall>i. attr_handles (nodes w' c) i =
    \<lparr>attr_value = chrc_value cs (char_uuid U i), attr_ccc = (case chrc_ccc cs (char_uuid U i) of None \<Rightarrow> 0
       | Some d \<Rightarrow> if \<forall>j. d \<le> chrc_value cs (char_uuid U j) + 1 then 0 else d)\<rparr>)"
  by (rule discovery_handles [OF assms])

text \<open>A peer whose first characteristic is the uplink, with its descriptor right behind the value.\<close>

definition peer :: "chrc list" where
  "peer = [(5, 3, Some 4), (4, 6, None), (3, 8, None), (6, 10, Some 11), (7, 13, None)]"

theorem discovery_finds_handles_witness:
  "\<exists>w'. discovery small_env small_uuids 0 1 20 peer gw_boot = Inr w'
     \<and> attr_handles (nodes w' 0) ATTR_UPLINK = \<lparr>attr_value = 3, attr_ccc = 0\<rparr>
     \<and> attr_handles (nodes w' 0) ATTR_SERVER_CERT = \<lparr>attr_value = 10, attr_ccc = 11\<rparr>"
proof -
  have wo: "well_ordered peer 20" by (simp add: well_ordered_def in_order_def peer_def)
  have inj: "inj (char_uuid small_uuids)"
    by (rule injI) (simp add: small_uuids_def split: gatt_attr.splits)
  have uuids: "char_uuid small_uuids ATTR_UPLINK = 5" "char_uuid small_uuids ATTR_DOWNLINK = 4"
    "char_uuid small_uuids ATTR_SERVER_CERT = 6" "char_uuid small_uuids ATTR_INFO = 3" "char_uuid small_uuids ATTR_DEVICE_CERT = 7"
    by (simp_all add: small_uuids_def)
  have vals: "chrc_value peer 5 = 3" "chrc_ccc peer 5 = Some 4" "chrc_value peer 6 = 10" "chrc_ccc peer 6 = Some 11"
    "chrc_value peer 4 = 6" "chrc_value peer 3 = 8" "chrc_value peer 7 = 13"
    by (simp_all add: chrc_value_def chrc_ccc_def peer_def)
  have "distinct (map fst peer)" "char_uuid small_uuids ATTR_UPLINK \<in> fst ` set peer"
    "char_uuid small_uuids ATTR_DOWNLINK \<in> fst ` set peer"
    by (simp_all add: peer_def uuids)
  moreover have "\<forall>(u, v, d) \<in> set peer. d \<noteq> None \<longrightarrow> u \<in> range (char_uuid small_uuids)"
    using rangeI [of "char_uuid small_uuids"] by (auto simp: peer_def simp flip: uuids)
  ultimately obtain w' where w': "discovery small_env small_uuids 0 1 20 peer gw_boot = Inr w'" and
    at: "\<And>i. attr_handles (nodes w' 0) i = \<lparr>attr_value = chrc_value peer (char_uuid small_uuids i),
      attr_ccc = (case chrc_ccc peer (char_uuid small_uuids i) of None \<Rightarrow> 0
        | Some d \<Rightarrow> if \<forall>j. d \<le> chrc_value peer (char_uuid small_uuids j) + 1 then 0 else d)\<rparr>"
    using discovery_finds_handles [OF wo _ inj, of small_env 0 1 gw_boot] by auto
  have "(4 :: handle) \<le> chrc_value peer (char_uuid small_uuids j) + 1" for j
    by (cases j) (simp_all add: uuids vals)
  moreover have "\<not> (11 :: handle) \<le> chrc_value peer (char_uuid small_uuids ATTR_DOWNLINK) + 1"
    by (simp add: uuids vals)
  then have "\<not> (\<forall>j. (11 :: handle) \<le> chrc_value peer (char_uuid small_uuids j) + 1)" by blast
  ultimately show ?thesis using w' at [of ATTR_UPLINK] at [of ATTR_SERVER_CERT] by (simp add: uuids vals)
qed

end
