(* ===== verification/Uplink_Race.thy ===== *)
theory Uplink_Race
  imports Gateway_Prelude
begin

text \<open>
  The two threads of an uplink.  The Bluetooth thread writes, and at the end closes; the thread
  of the cloud client acknowledges blocks.  Both run \<open>process_uplink\<close> (\<open>lib/uplink.c\<close>), and share
  the flags CLOSED and SENDING, the queue and the pointer \<open>rblock\<close>.  In the sequential model of the
  uplink a handler runs to its end before the next one starts; here every access to shared state is a
  step of its own.  Blocks are numbers and not empty, the cloud client accepts and delivers them, and
  the operations of the system's list (\<open>sys_slist_get\<close>, \<open>sys_slist_append\<close>), which are not part of
  this repository and take no lock either, count as one step each.
\<close>

subsection \<open>The two threads\<close>

text \<open>
  Where a thread is in \<open>process_uplink\<close>, with its locals: the flag \<open>closed\<close>, and the block it has
  taken from the queue.  The last two are those of \<open>block_upload_callback\<close> behind its test of SENDING:
  about to free \<open>rblock\<close>, and about to clear it.
\<close>

datatype pc = P_idle | P_enter | P_closed | P_get bool | P_take bool nat | P_len bool nat | P_send bool nat | P_clear
  | A_free | A_null

text \<open>What the Bluetooth thread does around it.\<close>

datatype act = Submit nat | Set_closed | Process

record ur =
  u_closed :: bool
  u_sending :: bool
  u_queue :: "nat list"
  u_rblock :: "nat option" \<comment> \<open>\<open>NULL\<close> is \<open>None\<close>\<close>
  u_stale :: bool \<comment> \<open>the block \<open>rblock\<close> points to has been freed\<close>
  u_out :: "(nat \<times> bool) list" \<comment> \<open>blocks handed to the cloud client, with \<open>is_last\<close>\<close>
  u_flight :: bool \<comment> \<open>an acknowledgement is still to come\<close>
  u_ended :: bool \<comment> \<open>SUCCESS has been reported and the uplink freed\<close>
  u_fault :: "fault option"
  u_bt :: pc
  u_cl :: pc
  u_prog :: "act list"

text \<open>The block \<open>rblock\<close> points to is read; at a fault the thread stays where it is.\<close>

definition read_rblock :: "ur \<Rightarrow> fault + nat" where
  "read_rblock s = (case u_rblock s of None \<Rightarrow> Inl Null_deref
     | Some x \<Rightarrow> if u_stale s then Inl Use_after_free else Inr x)"

text \<open>One step inside \<open>process_uplink\<close> or the callback, of either thread.\<close>

fun proc :: "pc \<Rightarrow> ur \<Rightarrow> ur \<times> pc" where
  "proc P_idle s = (s, P_idle)"
| "proc P_enter s = (if u_sending s then (s, P_idle) else (s\<lparr>u_sending := True\<rparr>, P_closed))"
| "proc P_closed s = (s, P_get (u_closed s))"
| "proc (P_get cl) s = (case u_queue s of
     [] \<Rightarrow> if cl then (s\<lparr>u_ended := True\<rparr>, P_idle) else (s, P_clear)
   | b # q \<Rightarrow> (s\<lparr>u_queue := q\<rparr>, P_take cl b))"
| "proc (P_take cl b) s = (s\<lparr>u_rblock := Some b, u_stale := False\<rparr>, P_len cl b)"
| "proc (P_len cl b) s = (case read_rblock s of
     Inl f \<Rightarrow> (s\<lparr>u_fault := Some f\<rparr>, P_len cl b) | Inr x \<Rightarrow> (s, P_send cl b))"
| "proc (P_send cl b) s = (case read_rblock s of
     Inl f \<Rightarrow> (s\<lparr>u_fault := Some f\<rparr>, P_send cl b)
   | Inr x \<Rightarrow> (s\<lparr>u_out := u_out s @ [(x, u_queue s = [] \<and> cl)], u_flight := True\<rparr>, P_idle))"
| "proc P_clear s = (s\<lparr>u_sending := False\<rparr>, P_idle)"
| "proc A_free s = (if u_rblock s = None then (s, A_null)
     else if u_stale s then (s\<lparr>u_fault := Some Use_after_free\<rparr>, A_free) else (s\<lparr>u_stale := True\<rparr>, A_null))"
| "proc A_null s = (s\<lparr>u_rblock := None, u_stale := False\<rparr>, P_enter)"

text \<open>
  The next step of a thread, if it has one.  Once the uplink has been freed, a step of a thread
  would be a use after free (\<open>dangling\<close> below).
\<close>

definition bt_next :: "ur \<Rightarrow> ur option" where
  "bt_next s = (if u_ended s \<or> u_fault s \<noteq> None then None
     else if u_bt s \<noteq> P_idle then (case proc (u_bt s) s of (t, p) \<Rightarrow> Some (t\<lparr>u_bt := p\<rparr>))
     else (case u_prog s of
       [] \<Rightarrow> None
     | Submit b # r \<Rightarrow> Some (s\<lparr>u_queue := u_queue s @ [b], u_prog := r\<rparr>)
     | Set_closed # r \<Rightarrow> Some (s\<lparr>u_closed := True, u_prog := r\<rparr>)
     | Process # r \<Rightarrow> Some (s\<lparr>u_bt := P_enter, u_prog := r\<rparr>)))"

definition cl_next :: "ur \<Rightarrow> ur option" where
  "cl_next s = (if u_ended s \<or> u_fault s \<noteq> None then None
     else if u_cl s \<noteq> P_idle then (case proc (u_cl s) s of (t, p) \<Rightarrow> Some (t\<lparr>u_cl := p\<rparr>))
     else if u_flight s then
       (if u_sending s then Some (s\<lparr>u_flight := False, u_sending := False, u_cl := A_free\<rparr>)
        else Some (s\<lparr>u_flight := False\<rparr>))
     else None)"

text \<open>
  The blocks each write fills up, those of the write that carries the end mark, and the block
  the close submits.
\<close>

definition bt_program :: "nat list list \<Rightarrow> nat list \<Rightarrow> nat \<Rightarrow> act list" where
  "bt_program bss cs z = concat (map (\<lambda>bs. map Submit bs @ [Process]) bss)
     @ map Submit cs @ [Set_closed, Submit z, Process]"

definition ur_init :: "nat list list \<Rightarrow> nat list \<Rightarrow> nat \<Rightarrow> ur" where
  "ur_init bss cs z = \<lparr>u_closed = False, u_sending = False, u_queue = [], u_rblock = None, u_stale = False, u_out = [],
     u_flight = False, u_ended = False, u_fault = None, u_bt = P_idle, u_cl = P_idle, u_prog = bt_program bss cs z\<rparr>"

inductive ur_reach :: "ur \<Rightarrow> ur \<Rightarrow> bool" for s where
  ur_start: "ur_reach s s"
| ur_bt: "ur_reach s t \<Longrightarrow> bt_next t = Some t' \<Longrightarrow> ur_reach s t'"
| ur_cl: "ur_reach s t \<Longrightarrow> cl_next t = Some t' \<Longrightarrow> ur_reach s t'"

subsection \<open>What holds in every interleaving\<close>

primrec submits :: "act list \<Rightarrow> nat list" where
  "submits [] = []"
| "submits (a # as) = (case a of Submit b \<Rightarrow> b # submits as | _ \<Rightarrow> submits as)"

lemma submits_append [simp]: "submits (as @ bs) = submits as @ submits bs"
  by (induction as) (auto split: act.split)

lemma submits_map [simp]: "submits (map Submit bs) = bs"
  by (induction bs) simp_all

lemma submits_program: "submits (bt_program bss cs z) = concat bss @ cs @ [z]"
proof -
  have "submits (concat (map (\<lambda>bs. map Submit bs @ [Process]) bss)) = concat bss"
    by (induction bss) simp_all
  then show ?thesis by (simp add: bt_program_def)
qed

fun in_hand :: "pc \<Rightarrow> nat list" where
  "in_hand (P_take _ b) = [b]"
| "in_hand (P_len _ b) = [b]"
| "in_hand (P_send _ b) = [b]"
| "in_hand _ = []"

fun holds :: "pc \<Rightarrow> bool" where
  "holds P_idle = False"
| "holds P_enter = False"
| "holds A_free = False"
| "holds A_null = False"
| "holds _ = True"

text \<open>The block a thread is about to read through \<open>rblock\<close>.\<close>

fun reads :: "pc \<Rightarrow> nat option" where
  "reads (P_len _ b) = Some b"
| "reads (P_send _ b) = Some b"
| "reads _ = None"

text \<open>
  No block is doubled or overtaken; the SENDING flag belongs to exactly one of the two threads, the
  block in flight, or the end.  The cloud thread finds its block behind \<open>rblock\<close>; the Bluetooth
  thread may find it freed, or the pointer cleared, but never another block.
\<close>

definition ur_inv :: "nat list \<Rightarrow> ur \<Rightarrow> bool" where
  "ur_inv bs s \<longleftrightarrow>
     map fst (u_out s) @ in_hand (u_bt s) @ in_hand (u_cl s) @ u_queue s @ submits (u_prog s) = bs
     \<and> of_bool (holds (u_bt s)) + of_bool (holds (u_cl s)) + of_bool (u_flight s) + of_bool (u_ended s)
       = (of_bool (u_sending s) :: nat)
     \<and> u_bt s \<noteq> A_free \<and> u_bt s \<noteq> A_null
     \<and> (\<forall>b. reads (u_bt s) = Some b \<longrightarrow> u_rblock s = None \<or> u_rblock s = Some b)
     \<and> (\<forall>b. reads (u_cl s) = Some b \<longrightarrow> u_rblock s = Some b)
     \<and> (u_stale s \<longrightarrow> u_cl s = A_null)
     \<and> (u_fault s \<noteq> None \<longrightarrow> reads (u_bt s) \<noteq> None \<and> (u_rblock s = None \<or> u_stale s))"

lemma one_holder:
  "of_bool a + of_bool b + of_bool c + of_bool d = (of_bool e :: nat) \<longleftrightarrow>
    (e \<longleftrightarrow> a \<or> b \<or> c \<or> d) \<and> \<not> (a \<and> b) \<and> \<not> (a \<and> c) \<and> \<not> (a \<and> d) \<and> \<not> (b \<and> c) \<and> \<not> (b \<and> d) \<and> \<not> (c \<and> d)"
  by (cases a; cases b; cases c; cases d; cases e) simp_all

lemma no_hold_no_hand [simp]: "\<not> holds p \<Longrightarrow> in_hand p = []"
  by (cases p) simp_all

lemma reads_hand: "reads p = Some b \<Longrightarrow> in_hand p = [b] \<and> holds p"
  by (cases p) simp_all

lemma no_hold_no_read [simp]: "\<not> holds p \<Longrightarrow> reads p = None"
  by (cases p) simp_all

text \<open>What one step inside the code does to the blocks, the flag and the pointer.\<close>

lemma proc_blocks:
  assumes "proc p s = (t, p')" and "\<forall>b. reads p = Some b \<longrightarrow> u_rblock s = None \<or> u_rblock s = Some b"
  shows "map fst (u_out t) @ in_hand p' @ u_queue t = map fst (u_out s) @ in_hand p @ u_queue s"
    and "\<not> holds p \<Longrightarrow> in_hand p' = [] \<and> u_out t = u_out s \<and> u_queue t = u_queue s"
  using assms by (cases p; auto simp: read_rblock_def split: if_splits list.splits option.splits)+

lemma proc_flag:
  assumes "proc p s = (t, p')"
    and "of_bool (holds p) + of_bool q + of_bool (u_flight s) + of_bool (u_ended s) = (of_bool (u_sending s) :: nat)"
  shows "of_bool (holds p') + of_bool q + of_bool (u_flight t) + of_bool (u_ended t) = (of_bool (u_sending t) :: nat)"
  using assms unfolding one_holder by (cases p) (auto simp: read_rblock_def split: if_splits list.splits option.splits)

lemma proc_same: "proc p s = (t, p') \<Longrightarrow> u_prog t = u_prog s \<and> u_closed t = u_closed s \<and> u_bt t = u_bt s \<and> u_cl t = u_cl s"
  by (cases p) (auto simp: read_rblock_def split: if_splits list.splits option.splits)

lemma proc_pointer:
  assumes "proc p s = (t, p')"
  shows "p \<noteq> A_null \<Longrightarrow> \<not> holds p \<Longrightarrow> u_rblock t = u_rblock s"
    and "p \<noteq> A_free \<Longrightarrow> u_stale t \<Longrightarrow> u_stale s \<and> (holds p \<longrightarrow> u_rblock t = u_rblock s)"
    and "u_stale t \<Longrightarrow> p = A_free \<Longrightarrow> u_stale s \<or> p' = A_null"
    and "reads p' = Some b \<Longrightarrow> u_rblock t = Some b \<or> reads p = Some b \<and> u_rblock t = u_rblock s"
    and "u_fault t \<noteq> u_fault s \<Longrightarrow> p' = p \<and> u_rblock t = u_rblock s \<and> u_stale t = u_stale s
      \<and> (reads p \<noteq> None \<and> (u_rblock s = None \<or> u_stale s) \<or> p = A_free \<and> u_stale s)"
    and "p' \<in> {A_free, A_null} \<Longrightarrow> p \<in> {A_free, A_null}" and "p = A_null \<Longrightarrow> \<not> u_stale t"
  using assms by (cases p; auto simp: read_rblock_def split: if_splits list.splits option.splits)+

lemma bt_next_inv:
  assumes "ur_inv bs s" and "bt_next s = Some t"
  shows "ur_inv bs t"
proof (cases "u_bt s = P_idle")
  case True
  with assms show ?thesis
    unfolding ur_inv_def one_holder by (auto simp: bt_next_def split: if_splits list.splits act.splits)
next
  case False
  with assms(2) obtain t' p where run: "proc (u_bt s) s = (t', p)" "t = t'\<lparr>u_bt := p\<rparr>" and ok: "u_fault s = None"
    by (auto simp: bt_next_def split: if_splits prod.splits)
  from assms(1) have inv: "map fst (u_out s) @ in_hand (u_bt s) @ in_hand (u_cl s) @ u_queue s @ submits (u_prog s) = bs"
    "of_bool (holds (u_bt s)) + of_bool (holds (u_cl s)) + of_bool (u_flight s) + of_bool (u_ended s) = (of_bool (u_sending s) :: nat)"
    "u_bt s \<noteq> A_free" "u_bt s \<noteq> A_null" "\<forall>b. reads (u_bt s) = Some b \<longrightarrow> u_rblock s = None \<or> u_rblock s = Some b"
    "\<forall>b. reads (u_cl s) = Some b \<longrightarrow> u_rblock s = Some b" "u_stale s \<longrightarrow> u_cl s = A_null"
    by (auto simp: ur_inv_def)
  note same = proc_same [OF run(1)] and ptr = proc_pointer [OF run(1)]
  have hand: "in_hand (u_cl s) = []" "reads (u_cl s) = None" if "holds (u_bt s)"
    using inv(2) that unfolding one_holder by (auto dest: reads_hand)
  have "map fst (u_out t') @ in_hand p @ in_hand (u_cl s) @ u_queue t' @ submits (u_prog s) = bs"
    using proc_blocks [OF run(1) inv(5)] inv(1) hand(1) by (cases "holds (u_bt s)") auto
  moreover note proc_flag [OF run(1) inv(2)]
  moreover have "\<forall>b. reads p = Some b \<longrightarrow> u_rblock t' = None \<or> u_rblock t' = Some b" using ptr(4) inv(5) by metis
  moreover have "\<forall>b. reads (u_cl s) = Some b \<longrightarrow> u_rblock t' = Some b"
    using ptr(1) inv(4,6) hand(2) by (cases "holds (u_bt s)") auto
  moreover have "u_stale t' \<longrightarrow> u_cl s = A_null" using ptr(2) inv(3,7) by blast
  moreover have "u_fault t' \<noteq> None \<longrightarrow> reads p \<noteq> None \<and> (u_rblock t' = None \<or> u_stale t')"
    using ptr(5) ok inv(3) by auto
  moreover have "p \<noteq> A_free" "p \<noteq> A_null" using ptr(6) inv(3,4) by auto
  ultimately show ?thesis using same by (simp add: run(2) ur_inv_def)
qed

lemma cl_next_inv:
  assumes "ur_inv bs s" and "cl_next s = Some t"
  shows "ur_inv bs t"
proof (cases "u_cl s = P_idle")
  case True
  with assms show ?thesis
    unfolding ur_inv_def one_holder by (auto simp: cl_next_def split: if_splits)
next
  case False
  with assms(2) obtain t' p where run: "proc (u_cl s) s = (t', p)" "t = t'\<lparr>u_cl := p\<rparr>" and ok: "u_fault s = None"
    by (auto simp: cl_next_def split: if_splits prod.splits)
  from assms(1) have inv: "map fst (u_out s) @ in_hand (u_bt s) @ in_hand (u_cl s) @ u_queue s @ submits (u_prog s) = bs"
    "of_bool (holds (u_cl s)) + of_bool (holds (u_bt s)) + of_bool (u_flight s) + of_bool (u_ended s) = (of_bool (u_sending s) :: nat)"
    "u_bt s \<noteq> A_free" "u_bt s \<noteq> A_null" "\<forall>b. reads (u_bt s) = Some b \<longrightarrow> u_rblock s = None \<or> u_rblock s = Some b"
    "\<forall>b. reads (u_cl s) = Some b \<longrightarrow> u_rblock s = Some b" "u_stale s \<longrightarrow> u_cl s = A_null"
    by (auto simp: ur_inv_def)
  note same = proc_same [OF run(1)] and ptr = proc_pointer [OF run(1)]
  have hand: "in_hand (u_bt s) = []" "reads (u_bt s) = None" if "holds (u_cl s)"
    using inv(2) that unfolding one_holder by (auto dest: reads_hand)
  have "map fst (u_out t') @ in_hand (u_bt s) @ in_hand p @ u_queue t' @ submits (u_prog s) = bs"
    using proc_blocks [OF run(1)] inv(1,6) hand(1) by (cases "holds (u_cl s)") auto
  moreover have "of_bool (holds (u_bt s)) + of_bool (holds p) + of_bool (u_flight t') + of_bool (u_ended t') = (of_bool (u_sending t') :: nat)"
    using proc_flag [OF run(1) inv(2)] by simp
  moreover have "\<forall>b. reads (u_bt s) = Some b \<longrightarrow> u_rblock t' = None \<or> u_rblock t' = Some b"
    using ptr(1) inv(5) hand(2) run(1) by (cases "u_cl s = A_null"; cases "holds (u_cl s)") auto
  moreover have "\<forall>b. reads p = Some b \<longrightarrow> u_rblock t' = Some b" using ptr(4) inv(6) by metis
  moreover have "u_stale t' \<longrightarrow> p = A_null"
    using ptr(2,3,7) inv(7) by (cases "u_cl s = A_free") auto
  moreover have "u_fault t' = None" using ptr(5) ok inv(6,7) by (cases "u_fault t'") auto
  ultimately show ?thesis using same inv(3,4) by (simp add: run(2) ur_inv_def)
qed

lemma ur_init_inv: "ur_inv (concat bss @ cs @ [z]) (ur_init bss cs z)"
  by (simp add: ur_inv_def ur_init_def submits_program)

lemma ur_reach_inv: "ur_reach s t \<Longrightarrow> ur_inv bs s \<Longrightarrow> ur_inv bs t"
  by (induction rule: ur_reach.induct) (blast intro: bt_next_inv cl_next_inv)+

text \<open>
  C14: in every interleaving of the two threads the blocks keep their order and none is doubled:
  those handed to the cloud client, the one a thread has taken from the queue, the queued ones and
  those to be submitted are together the blocks of the uplink.  The SENDING flag has exactly one
  reason: one thread inside \<open>process_uplink\<close>, the block in flight, or the end of the uplink.  A thread
  that is about to send a block finds this block behind \<open>rblock\<close>, with one exception: the Bluetooth
  thread may find the pointer cleared or the block freed, which is the only fault as long as the
  uplink has not ended.  (That it does happen is shown below, with the other races.)
\<close>

theorem uplink_threads_exclusive:
  assumes "ur_reach (ur_init bss cs z) s"
  shows "map fst (u_out s) @ in_hand (u_bt s) @ in_hand (u_cl s) @ u_queue s @ submits (u_prog s) = concat bss @ cs @ [z]
    \<and> of_bool (holds (u_bt s)) + of_bool (holds (u_cl s)) + of_bool (u_flight s) + of_bool (u_ended s)
      = (of_bool (u_sending s) :: nat)
    \<and> (\<forall>b. reads (u_cl s) = Some b \<longrightarrow> u_rblock s = Some b \<and> \<not> u_stale s)
    \<and> (\<forall>b. reads (u_bt s) = Some b \<longrightarrow> u_rblock s = None \<or> u_rblock s = Some b)
    \<and> (u_fault s \<noteq> None \<longrightarrow> reads (u_bt s) \<noteq> None \<and> (u_rblock s = None \<or> u_stale s))"
  using ur_reach_inv [OF assms ur_init_inv] by (auto simp: ur_inv_def)

subsection \<open>What may go wrong at the close\<close>

datatype thread = BT | CL

primrec schedule :: "thread list \<Rightarrow> ur \<Rightarrow> ur option" where
  "schedule [] s = Some s"
| "schedule (x # xs) s = (case (if x = BT then bt_next s else cl_next s) of
     None \<Rightarrow> None | Some t \<Rightarrow> schedule xs t)"

lemma schedule_reach: "schedule xs t = Some t' \<Longrightarrow> ur_reach s t \<Longrightarrow> ur_reach s t'"
proof (induction xs arbitrary: t)
  case (Cons x xs)
  from Cons.prems obtain u where "(if x = BT then bt_next t else cl_next t) = Some u" "schedule xs u = Some t'"
    by (auto split: option.splits)
  with Cons.IH [of u] Cons.prems(2) show ?case by (cases x) (auto intro: ur_bt ur_cl)
qed simp

text \<open>The uplink has been freed while a thread still has work to do on it.\<close>

definition dangling :: "ur \<Rightarrow> bool" where
  "dangling s \<longleftrightarrow> u_ended s \<and> (u_bt s \<noteq> P_idle \<or> u_prog s \<noteq> [] \<or> u_cl s \<noteq> P_idle)"

text \<open>Both threads rest, no acknowledgement is to come, and the uplink has neither ended nor met a fault.\<close>

definition stuck :: "ur \<Rightarrow> bool" where
  "stuck s \<longleftrightarrow> bt_next s = None \<and> cl_next s = None \<and> \<not> u_ended s \<and> u_fault s = None"

theorem uplink_threads_exclusive_witness:
  "\<exists>s. schedule (replicate 8 BT @ [CL]) (ur_init [[1]] [] 2) = Some s
     \<and> map fst (u_out s) @ in_hand (u_bt s) @ in_hand (u_cl s) @ u_queue s @ submits (u_prog s) = [1, 2]"
proof -
  obtain s where s: "schedule (replicate 8 BT @ [CL]) (ur_init [[1]] [] 2) = Some s"
    by (simp add: ur_init_def bt_program_def bt_next_def cl_next_def read_rblock_def numeral_eq_Suc)
  from uplink_threads_exclusive [OF schedule_reach [OF s ur_start]] s show ?thesis by simp
qed

lemma scheduled: "\<exists>t. schedule xs s = Some t \<and> P t \<Longrightarrow> \<exists>t. ur_reach s t \<and> P t"
  by (blast intro: schedule_reach ur_start)

lemmas race_defs = ur_init_def bt_program_def bt_next_def cl_next_def stuck_def dangling_def read_rblock_def

text \<open>
  C31: an acknowledgement that meets the close can spoil the stream in four ways.  The cloud
  thread may read the flag CLOSED before the close and take the last block after it, so that no block
  is ever marked last although SUCCESS is reported; it may find the queue empty before the close and
  release SENDING after it, so that the last block stays queued for ever; it may read CLOSED
  after the close has set it and before the last block is queued, and mark the block before
  the last one; and it may end and free the uplink before the close has finished with it.
\<close>

theorem close_races_with_acknowledgement:
  "(\<exists>s. ur_reach (ur_init [[1]] [] 2) s \<and> u_ended s \<and> u_prog s = [] \<and> u_out s = [(1, False), (2, False)])
   \<and> (\<exists>s. ur_reach (ur_init [[1]] [] 2) s \<and> stuck s \<and> u_closed s \<and> u_queue s = [2])
   \<and> (\<exists>s. ur_reach (ur_init [[1, 2]] [] 3) s \<and> u_out s = [(1, False), (2, True), (3, True)])
   \<and> (\<exists>s. ur_reach (ur_init [[1]] [] 2) s \<and> dangling s \<and> u_out s = [(1, False)])"
proof (intro conjI)
  show "\<exists>s. ur_reach (ur_init [[1]] [] 2) s \<and> u_ended s \<and> u_prog s = [] \<and> u_out s = [(1, False), (2, False)]"
    by (rule scheduled [of "replicate 8 BT @ replicate 5 CL @ replicate 4 BT @ replicate 10 CL"])
      (simp add: race_defs numeral_eq_Suc)
  show "\<exists>s. ur_reach (ur_init [[1]] [] 2) s \<and> stuck s \<and> u_closed s \<and> u_queue s = [2]"
    by (rule scheduled [of "replicate 8 BT @ replicate 6 CL @ replicate 4 BT @ [CL]"]) (simp add: race_defs numeral_eq_Suc)
  show "\<exists>s. ur_reach (ur_init [[1, 2]] [] 3) s \<and> u_out s = [(1, False), (2, True), (3, True)]"
    by (rule scheduled [of "replicate 9 BT @ replicate 4 CL @ [BT] @ replicate 5 CL @ [BT] @ replicate 9 CL"])
      (simp add: race_defs numeral_eq_Suc)
  show "\<exists>s. ur_reach (ur_init [[1]] [] 2) s \<and> dangling s \<and> u_out s = [(1, False)]"
    by (rule scheduled [of "replicate 9 BT @ replicate 6 CL"]) (simp add: race_defs numeral_eq_Suc)
qed

text \<open>
  C19: an acknowledgement can clobber the next block.  The callback releases SENDING before it frees
  \<open>rblock\<close> and clears it, so that the Bluetooth thread can take the next block in between.  Then
  the cloud thread frees this block instead of the acknowledged one, or clears the pointer: the
  Bluetooth thread reads through NULL, or from freed memory, or the block is freed while the cloud
  client is sending it.
\<close>

theorem acknowledgement_frees_next_block:
  "(\<exists>s. ur_reach (ur_init [[1], [2]] [] 3) s \<and> u_fault s = Some Null_deref \<and> u_bt s = P_len False 2)
   \<and> (\<exists>s. ur_reach (ur_init [[1], [2]] [] 3) s \<and> u_fault s = Some Use_after_free \<and> u_bt s = P_len False 2)
   \<and> (\<exists>s. ur_reach (ur_init [[1], [2]] [] 3) s \<and> u_flight s \<and> u_out s = [(1, False), (2, False)]
        \<and> u_rblock s = Some 2 \<and> u_stale s)"
proof (intro conjI)
  show "\<exists>s. ur_reach (ur_init [[1], [2]] [] 3) s \<and> u_fault s = Some Null_deref \<and> u_bt s = P_len False 2"
    by (rule scheduled [of "replicate 8 BT @ [CL] @ replicate 6 BT @ [CL, CL, BT]"]) (simp add: race_defs numeral_eq_Suc)
  show "\<exists>s. ur_reach (ur_init [[1], [2]] [] 3) s \<and> u_fault s = Some Use_after_free \<and> u_bt s = P_len False 2"
    by (rule scheduled [of "replicate 8 BT @ [CL] @ replicate 6 BT @ [CL, BT]"]) (simp add: race_defs numeral_eq_Suc)
  show "\<exists>s. ur_reach (ur_init [[1], [2]] [] 3) s \<and> u_flight s \<and> u_out s = [(1, False), (2, False)]
      \<and> u_rblock s = Some 2 \<and> u_stale s"
    by (rule scheduled [of "replicate 8 BT @ [CL] @ replicate 8 BT @ [CL]"]) (simp add: race_defs numeral_eq_Suc)
qed

subsection \<open>Handlers that do not overlap\<close>

text \<open>
  The schedules in which the Bluetooth thread begins nothing while the cloud thread is inside its
  callback, and the cloud thread takes up no acknowledgement while the Bluetooth thread is
  inside it or in the middle of the close.
\<close>

inductive ur_safe :: "ur \<Rightarrow> ur \<Rightarrow> bool" for s where
  safe_start: "ur_safe s s"
| safe_bt: "ur_safe s t \<Longrightarrow> bt_next t = Some t' \<Longrightarrow> (u_bt t = P_idle \<longrightarrow> u_cl t = P_idle) \<Longrightarrow> ur_safe s t'"
| safe_cl: "ur_safe s t \<Longrightarrow> cl_next t = Some t'
    \<Longrightarrow> (u_cl t = P_idle \<longrightarrow> u_bt t = P_idle \<and> (u_closed t \<longrightarrow> u_prog t = [])) \<Longrightarrow> ur_safe s t'"

text \<open>The stream the cloud is meant to get: the last block alone carries the end mark.\<close>

definition marked_last :: "nat list \<Rightarrow> (nat \<times> bool) list" where
  "marked_last bs = map (\<lambda>b. (b, False)) (butlast bs) @ [(last bs, True)]"

lemma marked_last_next:
  assumes "out = take (length out) (marked_last bs)" and "map fst out @ b # rest = bs"
  shows "out @ [(b, rest = [])] = take (Suc (length out)) (marked_last bs)"
proof -
  have "length (marked_last bs) = length bs" using assms(2) by (auto simp: marked_last_def)
  moreover have "length out < length bs" using arg_cong [OF assms(2), of length] by simp
  moreover have "marked_last bs ! length out = (b, rest = [])"
    using assms(2) by (auto simp: marked_last_def nth_append butlast_append)
  ultimately show ?thesis using assms(1) by (simp add: take_Suc_conv_app_nth)
qed

text \<open>How far the program is, and that a thread's reading of CLOSED is up to date.\<close>

definition prog_ok :: "nat \<Rightarrow> bool \<Rightarrow> act list \<Rightarrow> bool" where
  "prog_ok z cl prog \<longleftrightarrow> (if cl then prog \<in> {[Submit z, Process], [Process], []}
     else \<exists>pre. Set_closed \<notin> set pre \<and> prog = pre @ [Set_closed, Submit z, Process])"

fun pc_ok :: "bool \<Rightarrow> pc \<Rightarrow> bool" where
  "pc_ok cl (P_get c) = (c = cl)"
| "pc_ok cl (P_take c _) = (c = cl)"
| "pc_ok cl (P_len c _) = (c = cl)"
| "pc_ok cl (P_send c _) = (c = cl)"
| "pc_ok cl P_clear = (\<not> cl)"
| "pc_ok _ _ = True"

definition calm :: "nat \<Rightarrow> ur \<Rightarrow> bool" where
  "calm z s \<longleftrightarrow> prog_ok z (u_closed s) (u_prog s) \<and> pc_ok (u_closed s) (u_bt s) \<and> pc_ok (u_closed s) (u_cl s)
     \<and> (u_bt s = P_idle \<or> u_cl s = P_idle)
     \<and> (u_closed s \<longrightarrow> u_bt s \<noteq> P_idle \<or> u_cl s \<noteq> P_idle \<longrightarrow> u_prog s = [])
     \<and> (u_prog s = [] \<longrightarrow> u_sending s \<or> u_bt s = P_enter \<or> u_cl s \<in> {A_free, A_null, P_enter})
     \<and> (\<forall>b. reads (u_bt s) = Some b \<longrightarrow> u_rblock s = Some b) \<and> u_fault s = None
     \<and> (u_ended s \<longrightarrow> u_closed s \<and> u_queue s = [] \<and> u_prog s = [] \<and> u_bt s = P_idle \<and> u_cl s = P_idle)"

lemma prog_ok_Nil [simp]: "prog_ok z cl [] = cl"
  by (simp add: prog_ok_def)

lemma prog_ok_closed: "prog_ok z cl prog \<Longrightarrow> (cl \<longrightarrow> prog = []) \<Longrightarrow> submits prog = [] \<longleftrightarrow> cl"
  by (auto simp: prog_ok_def split: if_splits)

lemma prog_ok_next:
  assumes "prog_ok z cl (a # r)"
  shows "case a of Set_closed \<Rightarrow> \<not> cl \<and> prog_ok z True r | _ \<Rightarrow> prog_ok z cl r"
proof (cases cl)
  case False
  with assms obtain pre where pre: "Set_closed \<notin> set pre" "a # r = pre @ [Set_closed, Submit z, Process]"
    by (auto simp: prog_ok_def)
  with False show ?thesis by (cases pre) (auto simp: prog_ok_def split: act.split)
qed (use assms in \<open>auto simp: prog_ok_def split: act.splits\<close>)

lemma calm_reads:
  assumes "calm z s" and "ur_inv bs s"
  shows "\<forall>b. reads (u_bt s) = Some b \<longrightarrow> read_rblock s = Inr b" and "\<forall>b. reads (u_cl s) = Some b \<longrightarrow> read_rblock s = Inr b"
  using assms by (auto simp: calm_def ur_inv_def read_rblock_def)

lemma bt_next_calm:
  assumes "calm z s" and "ur_inv bs s" and "bt_next s = Some t" and "u_bt s = P_idle \<longrightarrow> u_cl s = P_idle"
  shows "calm z t"
proof (cases "u_bt s = P_idle")
  case True
  with assms(3) obtain a r where p: "u_prog s = a # r" by (auto simp: bt_next_def split: if_splits list.splits)
  with prog_ok_next [of z "u_closed s" a r] assms True show ?thesis
    by (cases a) (auto simp: calm_def bt_next_def prog_ok_def split: if_splits)
next
  case False
  with assms calm_reads(1) [OF assms(1,2)] show ?thesis
    unfolding calm_def ur_inv_def one_holder bt_next_def
    by (cases "u_bt s") (simp_all split: if_splits list.splits, safe, simp_all)
qed

lemma cl_next_calm:
  assumes "calm z s" and "ur_inv bs s" and "cl_next s = Some t"
    and "u_cl s = P_idle \<longrightarrow> u_bt s = P_idle \<and> (u_closed s \<longrightarrow> u_prog s = [])"
  shows "calm z t"
  using assms calm_reads(2) [OF assms(1,2)] unfolding calm_def ur_inv_def one_holder cl_next_def
  by (cases "u_cl s") (simp_all split: if_splits list.splits, safe, simp_all)

lemma ur_init_calm: "calm z (ur_init bss cs z)"
proof -
  have "Set_closed \<notin> set (concat (map (\<lambda>bs. map Submit bs @ [Process]) bss) @ map Submit cs)" by auto
  then have "prog_ok z False (bt_program bss cs z)"
    unfolding prog_ok_def bt_program_def by (metis append.assoc)
  then show ?thesis by (auto simp: calm_def ur_init_def bt_program_def)
qed

abbreviation well_marked :: "nat list \<Rightarrow> ur \<Rightarrow> bool" where
  "well_marked bs s \<equiv> u_out s = take (length (u_out s)) (marked_last bs)"

lemma send_marked:
  assumes "calm z s" and "well_marked bs s" and "map fst (u_out s) @ b # u_queue s @ submits (u_prog s) = bs"
    and "cl = u_closed s" and "u_bt s \<noteq> P_idle \<or> u_cl s \<noteq> P_idle"
  shows "u_out s @ [(b, u_queue s = [] \<and> cl)] = take (Suc (length (u_out s))) (marked_last bs)"
proof -
  have "submits (u_prog s) = [] \<longleftrightarrow> cl"
    using prog_ok_closed [of z cl "u_prog s"] assms(1,4,5) by (auto simp: calm_def)
  then have "(u_queue s = [] \<and> cl) = (u_queue s @ submits (u_prog s) = [])" by auto
  with marked_last_next [OF assms(2,3)] show ?thesis by simp
qed

lemma bt_next_marked:
  assumes "calm z s" and "ur_inv bs s" and "well_marked bs s" and "bt_next s = Some t"
  shows "well_marked bs t"
proof (cases "u_bt s")
  case (P_send cl b)
  with assms(1,2) have "map fst (u_out s) @ b # u_queue s @ submits (u_prog s) = bs" "cl = u_closed s"
    unfolding ur_inv_def one_holder by (auto simp: calm_def)
  from send_marked [OF assms(1,3) this] assms(4) P_send calm_reads [OF assms(1,2)] show ?thesis
    by (auto simp: bt_next_def min_def split: if_splits)
next
  case (P_len cl b)
  with assms(3,4) calm_reads [OF assms(1,2)] show ?thesis by (auto simp: bt_next_def split: if_splits)
qed (use assms(3,4) in \<open>auto simp: bt_next_def split: if_splits list.splits act.splits\<close>)

lemma cl_next_marked:
  assumes "calm z s" and "ur_inv bs s" and "well_marked bs s" and "cl_next s = Some t"
  shows "well_marked bs t"
proof (cases "u_cl s")
  case (P_send cl b)
  with assms(1,2) have "map fst (u_out s) @ b # u_queue s @ submits (u_prog s) = bs" "cl = u_closed s"
    unfolding ur_inv_def one_holder by (auto simp: calm_def)
  from send_marked [OF assms(1,3) this] assms(4) P_send calm_reads [OF assms(1,2)] show ?thesis
    by (auto simp: cl_next_def min_def split: if_splits)
next
  case (P_len cl b)
  with assms(3,4) calm_reads [OF assms(1,2)] show ?thesis by (auto simp: cl_next_def split: if_splits)
qed (use assms(3,4) in \<open>auto simp: cl_next_def split: if_splits list.splits\<close>)

lemma ur_safe_inv:
  assumes "ur_safe s t" and "calm z s" and "ur_inv bs s" and "well_marked bs s"
  shows "calm z t \<and> ur_inv bs t \<and> well_marked bs t"
  using assms
proof induction
  case (safe_bt t t')
  then show ?case using bt_next_calm bt_next_inv bt_next_marked by blast
next
  case (safe_cl t t')
  then show ?case using cl_next_calm cl_next_inv cl_next_marked by blast
qed simp

text \<open>
  C22: as long as the handlers of the two threads do not overlap, the close does what it is meant
  to do.  In every such schedule no thread meets a fault; the blocks sent are the first ones of the stream in which the
  last block alone carries the end mark; the uplink is never freed under the Bluetooth thread;
  as long as it has not ended, one of the threads has a step to take; and when it ends, the
  whole stream has been sent.
\<close>

theorem close_without_overlap:
  assumes "ur_safe (ur_init bss cs z) s" and "bs = concat bss @ cs @ [z]"
  shows "u_out s = take (length (u_out s)) (marked_last bs) \<and> \<not> dangling s \<and> \<not> stuck s
    \<and> (u_ended s \<longrightarrow> u_out s = marked_last bs) \<and> u_fault s = None"
proof -
  have "well_marked bs (ur_init bss cs z)" by (simp add: ur_init_def)
  from ur_safe_inv [OF assms(1) ur_init_calm _ this] ur_init_inv assms(2)
  have inv: "calm z s" "ur_inv bs s" "well_marked bs s" by auto
  have "\<not> dangling s" using inv(1) by (simp add: calm_def dangling_def)
  moreover have "\<not> stuck s"
  proof
    assume "stuck s"
    then have "\<not> u_ended s" "u_bt s = P_idle" "u_cl s = P_idle" "\<not> u_flight s" "u_prog s = []"
      by (auto simp: stuck_def bt_next_def cl_next_def split: if_splits prod.splits list.splits act.splits)
    with inv(1,2) show False unfolding ur_inv_def one_holder by (simp add: calm_def)
  qed
  moreover have "u_out s = marked_last bs" if "u_ended s"
  proof -
    from that inv(1,2) have "map fst (u_out s) = bs" unfolding ur_inv_def by (simp add: calm_def)
    with inv(3) assms(2) show ?thesis
      by (metis (no_types, lifting) length_map length_append_singleton length_butlast marked_last_def
          One_nat_def append_is_Nil_conv diff_add list.distinct(1) length_greater_0_conv Suc_leI Suc_pred take_all le_refl)
  qed
  moreover have "u_fault s = None" using inv(1) by (simp add: calm_def)
  ultimately show ?thesis using inv(3) by blast
qed

text \<open>A schedule of this kind: the acknowledgement is handled between the write and the close.\<close>

primrec schedule_safe :: "thread list \<Rightarrow> ur \<Rightarrow> bool" where
  "schedule_safe [] s = True"
| "schedule_safe (x # xs) s =
     ((if x = BT then u_bt s = P_idle \<longrightarrow> u_cl s = P_idle
       else u_cl s = P_idle \<longrightarrow> u_bt s = P_idle \<and> (u_closed s \<longrightarrow> u_prog s = []))
      \<and> (case (if x = BT then bt_next s else cl_next s) of None \<Rightarrow> False | Some t \<Rightarrow> schedule_safe xs t))"

lemma safe_scheduled:
  "schedule_safe xs t \<Longrightarrow> schedule xs t = Some t' \<Longrightarrow> ur_safe s t \<Longrightarrow> ur_safe s t'"
proof (induction xs arbitrary: t)
  case (Cons x xs)
  from Cons.prems(2) obtain u where u: "(if x = BT then bt_next t else cl_next t) = Some u" "schedule xs u = Some t'"
    by (auto split: option.splits)
  with Cons.prems have "ur_safe s u" by (cases x) (auto intro: safe_bt safe_cl)
  with Cons.IH [of u] Cons.prems(1) u show ?case by simp
qed simp

theorem close_without_overlap_witness:
  "\<exists>s. schedule (replicate 8 BT @ replicate 7 CL @ replicate 9 BT @ replicate 6 CL) (ur_init [[1]] [] 2) = Some s
     \<and> u_ended s \<and> u_out s = marked_last [1, 2]"
proof -
  let ?xs = "replicate 8 BT @ replicate 7 CL @ replicate 9 BT @ replicate 6 CL"
  have "schedule_safe ?xs (ur_init [[1]] [] 2)" by (simp add: race_defs numeral_eq_Suc)
  moreover obtain s where "schedule ?xs (ur_init [[1]] [] 2) = Some s" "u_ended s"
    by (simp add: race_defs numeral_eq_Suc)
  ultimately show ?thesis
    using close_without_overlap [OF safe_scheduled [OF _ _ safe_start], of ?xs "[[1]]" "[]" 2 s "[1, 2]"] by simp
qed

end
