(* ===== verification/Glue_Inv.thy ===== *)
theory Glue_Inv
  imports Connect
begin

text \<open>
  What the Bluetooth glue keeps.  The handlers of \<open>lib/bt/\<close> change the state of the gateway
  only through the operations of \<open>lib/\<close>, through their own node record and through calls to the
  platform.  So every property of the state that those keep is kept by all handlers; the locale
  states which operations that are, and its lemmas go once through the handlers.
\<close>

subsection \<open>Programs that keep a property\<close>

text \<open>\<open>st\<close> picks the world out of the result.\<close>

definition kept :: "('w \<Rightarrow> bool) \<Rightarrow> ('r \<Rightarrow> 'w) \<Rightarrow> fault + 'r \<Rightarrow> bool" where
  "kept I st m \<longleftrightarrow> (\<forall>r. m = Inr r \<longrightarrow> I (st r))"

named_theorems looks \<comment> \<open>calls that only look at the state\<close>
named_theorems keeps

lemma keptI: "(\<And>r. m = Inr r \<Longrightarrow> I (st r)) \<Longrightarrow> kept I st m"
  by (simp add: kept_def)

lemma keptD: "kept I st m \<Longrightarrow> m = Inr r \<Longrightarrow> I (st r)"
  by (simp add: kept_def)

lemma kept_Inl [keeps]: "kept I st (Inl e)"
  by (simp add: kept_def)

lemma kept_Inr [keeps]: "I (st r) \<Longrightarrow> kept I st (Inr r)"
  by (simp add: kept_def)

lemma kept_bnd [keeps]: "kept I st m \<Longrightarrow> (\<And>r. I (st r) \<Longrightarrow> kept I st' (f r)) \<Longrightarrow> kept I st' (bnd m f)"
  by (cases m) (auto simp: kept_def)

lemma kept_look:
  "(\<And>r. kept I st (f r)) \<Longrightarrow> kept I st (bnd m f)"
  by (cases m) (simp_all add: kept_def)

text \<open>The world is the last component of a tuple of up to six.\<close>

lemma kept_case [keeps]:
  "I (snd m) \<Longrightarrow> (\<And>a w. I w \<Longrightarrow> kept I st (f a w)) \<Longrightarrow> kept I st (case m of (a, w) \<Rightarrow> f a w)"
  "I (snd (snd m')) \<Longrightarrow> (\<And>a r. I (snd r) \<Longrightarrow> kept I st (f' a r)) \<Longrightarrow> kept I st (case m' of (a, r) \<Rightarrow> f' a r)"
  "I (snd (snd (snd m''))) \<Longrightarrow> (\<And>a r. I (snd (snd r)) \<Longrightarrow> kept I st (f'' a r)) \<Longrightarrow> kept I st (case m'' of (a, r) \<Rightarrow> f'' a r)"
  "I (snd (snd (snd (snd m4)))) \<Longrightarrow> (\<And>a r. I (snd (snd (snd r))) \<Longrightarrow> kept I st (f4 a r)) \<Longrightarrow> kept I st (case m4 of (a, r) \<Rightarrow> f4 a r)"
  "I (snd (snd (snd (snd (snd m5))))) \<Longrightarrow> (\<And>a r. I (snd (snd (snd (snd r)))) \<Longrightarrow> kept I st (f5 a r)) \<Longrightarrow> kept I st (case m5 of (a, r) \<Rightarrow> f5 a r)"
  by (simp_all add: case_prod_unfold)

lemma kept_any: "(\<And>a b. kept I st (f a b)) \<Longrightarrow> kept I st (case x of (a, b) \<Rightarrow> f a b)"
  by (cases x) simp

lemma kept_if [keeps]: "(b \<Longrightarrow> kept I st m) \<Longrightarrow> (\<not> b \<Longrightarrow> kept I st n) \<Longrightarrow> kept I st (if b then m else n)"
  by simp

lemma kept_option [keeps]:
  "(x = None \<Longrightarrow> kept I st m) \<Longrightarrow> (\<And>y. x = Some y \<Longrightarrow> kept I st (f y))
    \<Longrightarrow> kept I st (case x of None \<Rightarrow> m | Some y \<Rightarrow> f y)"
  by (cases x) simp_all

lemma kept_sum [keeps]:
  "(\<And>y. x = Inl y \<Longrightarrow> kept I st (f y)) \<Longrightarrow> (\<And>y. x = Inr y \<Longrightarrow> kept I st (g y))
    \<Longrightarrow> kept I st (case x of Inl y \<Rightarrow> f y | Inr y \<Rightarrow> g y)"
  by (cases x) simp_all

text \<open>Calls whose result does not contain the world.\<close>

lemmas [looks] = kept_look [where m = "deref h p"] kept_look [where m = "downlink_is_complete p w"]
  kept_look [where m = "server_cert_is_complete p w"] kept_look [where m = "server_cert_is_newest p w"]
  kept_look [where m = "server_cert_get_serial dst n w"] kept_look [where m = "discover_params w c"] for h p w dst n c

subsection \<open>The gateway as one system\<close>

text \<open>
  Every way the platform enters the gateway: advertisements, connection events, the GATT
  callbacks of any connection and the callbacks of the cloud client.  A step is an entry that
  returns; what the main thread does is added by \<open>Gateway_App\<close>.
\<close>

inductive gw_step :: "'e env_scheme \<Rightarrow> uuids \<Rightarrow> adv \<Rightarrow> 'a gw_world_scheme \<Rightarrow> 'a gw_world_scheme \<Rightarrow> bool"
  for E U A where
  step_found: "gw_step E U A w (device_found E A peer t ads w)"
| step_connected: "gw_step E U A w (bt_connected E U c err w)"
| step_disconnected: "bt_disconnected E c w = Inr w' \<Longrightarrow> gw_step E U A w w'"
| step_service: "discover_services E U c svc w = Inr (it, w') \<Longrightarrow> gw_step E U A w w'"
| step_characteristic: "discover_characteristics E U c chrc w = Inr (it, w') \<Longrightarrow> gw_step E U A w w'"
| step_descriptor: "discover_descriptors E c ccc w = Inr (it, w') \<Longrightarrow> gw_step E U A w w'"
| step_serial: "server_cert_read_cb E c err packet w = Inr w' \<Longrightarrow> gw_step E U A w w'"
| step_device_cert: "device_cert_read_cb E c err packet w = Inr w' \<Longrightarrow> gw_step E U A w w'"
| step_server_cert: "server_cert_write_response_cb E c err w = Inr w' \<Longrightarrow> gw_step E U A w w'"
| step_uplink_read: "uplink_read_cb E c err packet w = Inr (it, w') \<Longrightarrow> gw_step E U A w w'"
| step_uplink_indicate: "uplink_indicate_cb E c pkt w = Inr (it, w') \<Longrightarrow> gw_step E U A w w'"
| step_downlink_written: "downlink_write_response_cb E c err w = Inr w' \<Longrightarrow> gw_step E U A w w'"
| step_acknowledged: "block_upload_callback E (uplink_end_cb E) status p w = Inr w' \<Longrightarrow> gw_step E U A w w'"
| step_block: "downlink_block_cb E (downlink_data_available E) src lst p w = Inr (status, w')
    \<Longrightarrow> length src \<le> max_block_size E \<Longrightarrow> gw_step E U A w w'"
| step_end: "downlink_end_cb (downlink_data_available E) status p w = Inr w' \<Longrightarrow> gw_step E U A w w'"

inductive gw_run :: "'e env_scheme \<Rightarrow> uuids \<Rightarrow> adv \<Rightarrow> 'a gw_world_scheme \<Rightarrow> 'a gw_world_scheme \<Rightarrow> bool"
  for E U A w where
  run_start: "gw_run E U A w w"
| run_next: "gw_run E U A w w' \<Longrightarrow> gw_step E U A w' w'' \<Longrightarrow> gw_run E U A w w''"

subsection \<open>Well-typed requests\<close>

text \<open>
  The parameters of all GATT requests of a connection share one union.  A request is well typed
  if it is given the member of its kind, with a callback of its kind; what the uplink re-reads and
  unsubscribes is whatever the union holds by then, so that reads and unsubscriptions are left out.
  The calls of the applications' own startup are not among those the libraries make.
\<close>

fun request_pair :: "gatt_cb \<Rightarrow> discover_type \<Rightarrow> bool" where
  "request_pair Cb_discover_services Discover_primary = True"
| "request_pair Cb_discover_characteristics Discover_characteristic = True"
| "request_pair Cb_discover_descriptors Discover_descriptor = True"
| "request_pair _ _ = False"

fun call_typed :: "ext_call \<Rightarrow> bool" where
  "call_typed (Gatt_discover c p) = (case p of Discover_params cb ty s e u \<Rightarrow> request_pair cb ty | _ \<Rightarrow> False)"
| "call_typed (Gatt_write c p) = (case p of
     Write_params cb h bs \<Rightarrow> cb = Cb_server_cert_write_response \<or> cb = Cb_downlink_write_response | _ \<Rightarrow> False)"
| "call_typed (Gatt_subscribe c p) = (case p of Subscribe_params cb h ccc \<Rightarrow> cb = Cb_uplink_indicate \<and> ccc \<noteq> 0 | _ \<Rightarrow> False)"
| "call_typed (Work_schedule n) = False" \<comment> \<open>a call of the applications, as the next ones\<close>
| "call_typed Bt_enable = False"
| "call_typed Client_create = False"
| "call_typed (Client_register b) = False"
| "call_typed Lte_connect = False"
| "call_typed Dhcp_start = False"
| "call_typed Net_callback = False"
| "call_typed _ = True"

lemma calls_typed [keeps]:
  "call_typed (Gatt_discover c (Discover_params Cb_discover_services Discover_primary s e u))"
  "call_typed (Gatt_discover c (Discover_params Cb_discover_characteristics Discover_characteristic s e u))"
  "call_typed (Gatt_discover c (Discover_params Cb_discover_descriptors Discover_descriptor s e u))"
  "call_typed (Gatt_write c (Write_params Cb_server_cert_write_response h bs))"
  "call_typed (Gatt_write c (Write_params Cb_downlink_write_response h bs))"
  "ccc \<noteq> 0 \<Longrightarrow> call_typed (Gatt_subscribe c (Subscribe_params Cb_uplink_indicate h ccc))"
  "call_typed (Gatt_read c p)" "call_typed (Gatt_unsubscribe c p)" "call_typed (Conn_disconnect c)"
  "call_typed (Conn_unref c)" "call_typed Scan_start" "call_typed Scan_stop" "call_typed (Conn_create peer)"
  "call_typed (Packetizer_error q)" "call_typed (Device_cert_set bs)" "call_typed Malloc"
  "call_typed (Uplink_start q)" "call_typed (Uplink_block k i bs lst)" "call_typed (Uplink_finish k)"
  "call_typed (Packetizer_start q)" "call_typed (Packetizer_finish q)" "call_typed Server_cert_get"
  "call_typed (X509_parse bs)"
  by simp_all

subsection \<open>The contract\<close>

locale glue_invariant =
  fixes E :: "'e env_scheme" and I :: "'a gw_world_scheme \<Rightarrow> bool"
  assumes inv_node: "I w \<Longrightarrow> I (set_node c f w)"
    and inv_call: "I w \<Longrightarrow> call_typed x \<Longrightarrow> I (snd (ext_call E x w))"
    and inv_scratch: "I w \<Longrightarrow> I (snd (gatt_mtu_malloc E c w))"
    and inv_free: "I w \<Longrightarrow> kept I (\<lambda>w. w) (free_scratch p w)"
    and inv_pk_start: "I w \<Longrightarrow> I (snd (packetizer_start E k arg w))"
    and inv_pk_finish: "I w \<Longrightarrow> kept I (\<lambda>w. w) (packetizer_finish E p w)"
    and inv_dl_open: "I w \<Longrightarrow> I (snd (downlink_open E c w))"
    and inv_dl_read: "I w \<Longrightarrow> kept I (\<lambda>r. snd (snd (snd (snd r)))) (downlink_get_data E p dst (length dst) w)"
    and inv_dl_abort: "I w \<Longrightarrow> kept I (\<lambda>w. w) (downlink_abort p w)"
    and inv_dl_close: "I w \<Longrightarrow> kept I (\<lambda>w. w) (downlink_close p w)"
    and inv_dl_block: "(\<And>c w. I w \<Longrightarrow> kept I (\<lambda>w. w) (cb c w)) \<Longrightarrow> I w \<Longrightarrow> length src \<le> max_block_size E
      \<Longrightarrow> kept I snd (downlink_block_cb E cb src lst p w)"
    and inv_dl_end: "(\<And>c w. I w \<Longrightarrow> kept I (\<lambda>w. w) (cb c w)) \<Longrightarrow> I w
      \<Longrightarrow> kept I (\<lambda>w. w) (downlink_end_cb cb status p w)"
    and inv_up_open: "I w \<Longrightarrow> I (snd (uplink_open E p c w))"
    and inv_up_write: "I w \<Longrightarrow> kept I snd (uplink_write E (uplink_end_cb E) p payload lst w)"
    and inv_up_close: "I w \<Longrightarrow> kept I (\<lambda>w. w) (uplink_close E (uplink_end_cb E) p w)"
    and inv_up_ack: "I w \<Longrightarrow> kept I (\<lambda>w. w) (block_upload_callback E (uplink_end_cb E) status p w)"
    and inv_dc_start: "I w \<Longrightarrow> kept I snd (device_cert_start E w)"
    and inv_dc_push: "I w \<Longrightarrow> kept I snd (device_cert_push E p bs w)"
    and inv_dc_abort: "I w \<Longrightarrow> kept I (\<lambda>w. w) (device_cert_abort p w)"
    and inv_dc_finish: "I w \<Longrightarrow> kept I snd (device_cert_finish E p w)"
    and inv_sc_start: "I w \<Longrightarrow> kept I snd (server_cert_start E w)"
    and inv_sc_read: "I w \<Longrightarrow> kept I (\<lambda>r. snd (snd (snd (snd r)))) (server_cert_get_data p dst n w)"
    and inv_sc_abort: "I w \<Longrightarrow> kept I (\<lambda>w. w) (server_cert_abort p w)"
    and inv_refresh: "I w \<Longrightarrow> kept I (\<lambda>w. w) (cert_module_on_connected E w)"
begin

lemmas operations = inv_node inv_call inv_scratch inv_free inv_pk_start inv_pk_finish inv_dl_open inv_dl_read
  inv_dl_abort inv_dl_close inv_up_open inv_up_write inv_up_close inv_up_ack inv_dc_start inv_dc_push inv_dc_abort
  inv_dc_finish inv_sc_start inv_sc_read inv_sc_abort inv_refresh

declare operations [keeps]

lemma inv_if [keeps]: "(b \<Longrightarrow> I w) \<Longrightarrow> (\<not> b \<Longrightarrow> I w') \<Longrightarrow> I (if b then w else w')"
  by simp

lemma inv_case [keeps]: "I (snd m) \<Longrightarrow> (\<And>a w. I w \<Longrightarrow> I (f a w)) \<Longrightarrow> I (case m of (a, w) \<Rightarrow> f a w)"
  by (cases m) simp

lemma inv_snd_case [keeps]: "I (snd m) \<Longrightarrow> (\<And>a w. I w \<Longrightarrow> I (snd (f a w))) \<Longrightarrow> I (snd (case m of (a, w) \<Rightarrow> f a w))"
  by (cases m) simp

lemma inv_snd_if [keeps]: "(b \<Longrightarrow> I (snd x)) \<Longrightarrow> (\<not> b \<Longrightarrow> I (snd y)) \<Longrightarrow> I (snd (if b then x else y))"
  by simp

lemma inv_option [keeps]: "I w \<Longrightarrow> (\<And>y. I (f y)) \<Longrightarrow> I (case x of None \<Rightarrow> w | Some y \<Rightarrow> f y)"
  by (cases x) simp_all

subsection \<open>Scratch buffers, packetizers, the end of a connection\<close>

lemma keep_finished [keeps]: "I w \<Longrightarrow> I (bt_finished E c w)"
  unfolding bt_finished_def by (rule looks keeps | assumption)+

lemma keep_fill_downlink [keeps]: "I w \<Longrightarrow> kept I (\<lambda>r. snd (snd r)) (downlink_packet_fill_cb E dst arg w)"
  unfolding downlink_packet_fill_cb_def by (rule looks keeps kept_any | assumption | simp only: prod.sel)+

lemma keep_fill_cert [keeps]: "I w \<Longrightarrow> kept I (\<lambda>r. snd (snd r)) (server_cert_fill_cb E dst arg w)"
  unfolding server_cert_fill_cb_def by (rule looks keeps kept_any | assumption | simp only: prod.sel)+

lemma keep_fill [keeps]: "I w \<Longrightarrow> kept I (\<lambda>r. snd (snd r)) (fill_cb E k dst arg w)"
  by (cases k) (simp_all add: fill_cb_def keep_fill_downlink keep_fill_cert)

lemma keep_packet [keeps]: "I w \<Longrightarrow> kept I (\<lambda>r. snd (snd r)) (packetizer_get E p buf n w)"
  by (rule keptI) (auto elim!: packetizer_get_InrD dest: keptD [OF keep_fill])

subsection \<open>The downlink\<close>

lemma keep_write_downlink [keeps]: "I w \<Longrightarrow> kept I snd (write_downlink_characteristic E c w)"
  unfolding write_downlink_characteristic_def Let_def by (rule looks keeps kept_any | assumption | simp only: prod.sel)+

lemma keep_give_up [keeps]: "I w \<Longrightarrow> kept I (\<lambda>w. w) (downlink_give_up E c w)"
  unfolding downlink_give_up_def by (rule looks keeps | assumption)+

lemma keep_response [keeps]: "I w \<Longrightarrow> kept I (\<lambda>w. w) (downlink_write_response_cb E c err w)"
  unfolding downlink_write_response_cb_def by (rule looks keeps | assumption)+

lemma keep_data_available [keeps]: "I w \<Longrightarrow> kept I (\<lambda>w. w) (downlink_data_available E c w)"
  unfolding downlink_data_available_def by (rule looks keeps | assumption)+

lemma keep_downlink_start [keeps]: "I w \<Longrightarrow> I (snd (downlink_start E c w))"
  unfolding downlink_start_def Let_def by (rule looks keeps kept_any | assumption | simp only: prod.sel)+

lemma keep_downlink_cleanup [keeps]: "I w \<Longrightarrow> kept I (\<lambda>w. w) (downlink_cleanup c w)"
  unfolding downlink_cleanup_def Let_def by (rule looks keeps kept_any | assumption | simp only: prod.sel)+

subsection \<open>The uplink\<close>

lemma keep_payload [keeps]: "I w \<Longrightarrow> kept I snd (handle_uplink_payload E c packet w)"
  unfolding handle_uplink_payload_def Let_def by (rule looks keeps kept_any | assumption | simp only: prod.sel)+

lemma keep_read [keeps]: "I w \<Longrightarrow> kept I snd (uplink_read_cb E c err packet w)"
  unfolding uplink_read_cb_def Let_def by (rule looks keeps kept_any | assumption | simp only: prod.sel)+

lemma keep_indicate [keeps]: "I w \<Longrightarrow> kept I snd (uplink_indicate_cb E c pkt w)"
  unfolding uplink_indicate_cb_def Let_def by (rule looks keeps kept_any | assumption | simp only: prod.sel)+

lemma keep_uplink_start [keeps]: "I w \<Longrightarrow> I (uplink_start E c w)"
  unfolding uplink_start_def Let_def by (rule looks keeps kept_any | assumption | simp only: prod.sel)+

lemma keep_uplink_cleanup [keeps]: "I w \<Longrightarrow> kept I (\<lambda>w. w) (uplink_cleanup E c w)"
  unfolding uplink_cleanup_def Let_def by (rule looks keeps kept_any | assumption | simp only: prod.sel)+

subsection \<open>The certificates\<close>

lemma keep_server_cleanup [keeps]: "I w \<Longrightarrow> kept I (\<lambda>w. w) (server_cert_cleanup E c w)"
  unfolding server_cert_cleanup_def Let_def by (rule looks keeps kept_any | assumption | simp only: prod.sel)+

lemma keep_server_fail [keeps]: "I w \<Longrightarrow> kept I (\<lambda>w. w) (server_cert_fail E c w)"
  unfolding server_cert_fail_def Let_def by (rule looks keeps kept_any | assumption | simp only: prod.sel)+

lemma keep_device_cleanup [keeps]: "I w \<Longrightarrow> kept I (\<lambda>w. w) (device_cert_cleanup c w)"
  unfolding device_cert_cleanup_def Let_def by (rule looks keeps kept_any | assumption | simp only: prod.sel)+

lemma keep_device_fail [keeps]: "I w \<Longrightarrow> kept I (\<lambda>w. w) (device_cert_fail E c w)"
  unfolding device_cert_fail_def Let_def by (rule looks keeps kept_any | assumption | simp only: prod.sel)+

lemma keep_write_cert [keeps]: "I w \<Longrightarrow> kept I snd (write_server_cert_characteristic E c w)"
  unfolding write_server_cert_characteristic_def Let_def by (rule looks keeps kept_any | assumption | simp only: prod.sel)+

lemma keep_device_start [keeps]: "I w \<Longrightarrow> kept I (\<lambda>w. w) (device_cert_read_start E c w)"
  unfolding device_cert_read_start_def Let_def by (rule looks keeps kept_any | assumption | simp only: prod.sel)+

lemma keep_server_start [keeps]: "I w \<Longrightarrow> kept I (\<lambda>w. w) (server_cert_write_start E c w)"
  unfolding server_cert_write_start_def Let_def by (rule looks keeps kept_any | assumption | simp only: prod.sel)+

lemma keep_cert_response [keeps]: "I w \<Longrightarrow> kept I (\<lambda>w. w) (server_cert_write_response_cb E c err w)"
  unfolding server_cert_write_response_cb_def Let_def by (rule looks keeps kept_any | assumption | simp only: prod.sel)+

lemma keep_server_read [keeps]: "I w \<Longrightarrow> kept I (\<lambda>w. w) (server_cert_read_cb E c err packet w)"
  unfolding server_cert_read_cb_def Let_def by (rule looks keeps kept_any | assumption | simp only: prod.sel)+

lemma keep_device_read [keeps]: "I w \<Longrightarrow> kept I (\<lambda>w. w) (device_cert_read_cb E c err packet w)"
  unfolding device_cert_read_cb_def Let_def by (rule looks keeps kept_any | assumption | simp only: prod.sel)+

lemma keep_exchange_start [keeps]: "I w \<Longrightarrow> kept I (\<lambda>w. w) (cert_exchange_start E c w)"
  unfolding cert_exchange_start_def server_cert_serial_read_start_def Let_def by (rule looks keeps kept_any | assumption | simp only: prod.sel)+

subsection \<open>Discovery and connections\<close>

lemma keep_discover [keeps]: "I w \<Longrightarrow> call_typed (Gatt_discover c prm) \<Longrightarrow> I (discover E c prm w)"
  unfolding discover_def Let_def by (rule looks keeps kept_any | assumption | simp only: prod.sel)+

lemma keep_descriptors [keeps]: "I w \<Longrightarrow> kept I snd (discover_descriptors E c attr w)"
  unfolding discover_descriptors_def Let_def by (rule looks keeps kept_any | assumption | simp only: prod.sel)+

lemma keep_characteristics [keeps]: "I w \<Longrightarrow> kept I snd (discover_characteristics E U c x w)"
  unfolding discover_characteristics_def Let_def by (rule looks keeps kept_any | assumption | simp only: prod.sel)+

lemma keep_services [keeps]: "I w \<Longrightarrow> kept I snd (discover_services E U c x w)"
  unfolding discover_services_def Let_def by (rule looks keeps kept_any | assumption | simp only: prod.sel)+

lemma keep_start [keeps]: "I w \<Longrightarrow> I (bt_start E U c w)"
  unfolding bt_start_def Let_def by (rule looks keeps kept_any | assumption | simp only: prod.sel)+

lemma keep_stop [keeps]: "I w \<Longrightarrow> kept I (\<lambda>w. w) (bt_stop E c w)"
  unfolding bt_stop_def Let_def by (rule looks keeps kept_any | assumption | simp only: prod.sel)+

lemma keep_scan [keeps]: "I w \<Longrightarrow> I (scan_start E w)"
  unfolding scan_start_def Let_def by (rule looks keeps kept_any | assumption | simp only: prod.sel)+

lemma keep_connected [keeps]: "I w \<Longrightarrow> I (bt_connected E U c err w)"
  unfolding bt_connected_def Let_def by (rule looks keeps kept_any | assumption | simp only: prod.sel)+

lemma keep_disconnected [keeps]: "I w \<Longrightarrow> kept I (\<lambda>w. w) (bt_disconnected E c w)"
  unfolding bt_disconnected_def Let_def by (rule looks keeps kept_any | assumption | simp only: prod.sel)+

lemma keep_found [keeps]: "I w \<Longrightarrow> I (device_found E A peer t ads w)"
  unfolding device_found_def stop_and_connect_def Let_def by (rule looks keeps kept_any | assumption | simp only: prod.sel)+

subsection \<open>The whole system\<close>

lemma step_keeps:
  assumes "gw_step E U A w w'" and "I w"
  shows "I w'"
  using assms
proof cases
  case (step_block src lst p status)
  from keptD [OF inv_dl_block [OF keep_data_available assms(2) this(2)] this(1)] show ?thesis by simp
next
  case (step_end status p)
  from keptD [OF inv_dl_end [OF keep_data_available assms(2)] this] show ?thesis by simp
next
  case (step_disconnected c)
  from keptD [OF keep_disconnected [OF assms(2)] this] show ?thesis by simp
next
  case (step_service c svc it)
  from keptD [OF keep_services [OF assms(2)] this] show ?thesis by simp
next
  case (step_characteristic c chrc it)
  from keptD [OF keep_characteristics [OF assms(2)] this] show ?thesis by simp
next
  case (step_descriptor c ccc it)
  from keptD [OF keep_descriptors [OF assms(2)] this] show ?thesis by simp
next
  case (step_serial c err packet)
  from keptD [OF keep_server_read [OF assms(2)] this] show ?thesis by simp
next
  case (step_device_cert c err packet)
  from keptD [OF keep_device_read [OF assms(2)] this] show ?thesis by simp
next
  case (step_server_cert c err)
  from keptD [OF keep_cert_response [OF assms(2)] this] show ?thesis by simp
next
  case (step_uplink_read c err packet it)
  from keptD [OF keep_read [OF assms(2)] this] show ?thesis by simp
next
  case (step_uplink_indicate c pkt it)
  from keptD [OF keep_indicate [OF assms(2)] this] show ?thesis by simp
next
  case (step_downlink_written c err)
  from keptD [OF keep_response [OF assms(2)] this] show ?thesis by simp
next
  case (step_acknowledged status p)
  from keptD [OF inv_up_ack [OF assms(2)] this] show ?thesis by simp
qed (use keep_found keep_connected assms(2) in simp_all)

lemma run_keeps: "gw_run E U A w w' \<Longrightarrow> I w \<Longrightarrow> I w'"
  by (induction rule: gw_run.induct) (auto intro: step_keeps)

end

end
