(* ===== verification/Pointer_Calculus.thy ===== *)
theory Pointer_Calculus
  imports Glue_Inv
begin

text \<open>
  Calculi for the two stream libraries.  The operations of a library work on one context, named by
  a pointer, and are composed of a few basic changes of it; a property kept by those is kept by
  every operation.  The property may depend on what the context owns: \<open>good\<close> says of a context that
  it may be stored, \<open>mine\<close> of a block that it may be touched.
\<close>

subsection \<open>Rules\<close>

lemma kept_deref_eq:
  "(\<And>a x. p = Some a \<Longrightarrow> h a = Some x \<Longrightarrow> kept I st (f a x)) \<Longrightarrow> kept I st (bnd (deref h p) (\<lambda>(a, x). f a x))"
  by (cases "deref h p") (auto simp: kept_def deref_eq_Inr)

lemma kept_any_eq: "(\<And>a b. x = (a, b) \<Longrightarrow> kept I st (f a b)) \<Longrightarrow> kept I st (case x of (a, b) \<Rightarrow> f a b)"
  by (cases x) simp

lemma kept_seq: "kept I st m \<Longrightarrow> (\<And>r. I (st r) \<Longrightarrow> kept J st' (f r)) \<Longrightarrow> kept J st' (bnd m f)"
  by (cases m) (auto simp: kept_def)

lemmas [looks] = kept_look [where m = "block_length p w"] kept_look [where m = "block_is_last p w"]
  kept_look [where m = "block_get E p off dst tot k w"] for p w E off dst tot k

subsection \<open>The uplink library\<close>

lemma end_cb_kept:
  assumes "\<And>w. I w \<Longrightarrow> I (set_node c (node_uplink_update (\<lambda>_. NULL)) w)" and "\<And>x w. I w \<Longrightarrow> ok x \<Longrightarrow> I (snd (ext_call E x w))"
    and "\<And>q. ok (Gatt_unsubscribe c q)" and "ok (Conn_disconnect c)" and "I w"
  shows "kept I (\<lambda>w. w) (uplink_end_cb E r c w)"
proof -
  have pure: "I (if b then v else v')" if "I v" and "I v'" for b and v v' :: "'a gw_world_scheme"
    using that by simp
  show ?thesis
    unfolding uplink_end_cb_def bt_finished_def Let_def by (rule kept_Inr pure assms | assumption)+
qed

locale uplink_at =
  fixes E :: "'e env_scheme" and I :: "'a uplink_world_scheme \<Rightarrow> bool" and p :: ptr and own :: "conn \<Rightarrow> bool"
    and ok :: "ext_call \<Rightarrow> bool" and ecb :: "'a end_cb"
  assumes up_calls: "ok (Uplink_block s i bs lst)" "ok (Uplink_finish s)"
    and up_end [keeps]: "I w \<Longrightarrow> own c \<Longrightarrow> kept I (\<lambda>w. w) (ecb r c w)"
    and up_own: "I w \<Longrightarrow> p = Some a \<Longrightarrow> uplinks w a = Some u \<Longrightarrow> own (end_cb_arg u)"
    and up_put: "I w \<Longrightarrow> p = Some a \<Longrightarrow> own (end_cb_arg u) \<Longrightarrow> I (put_uplink a u w)"
    and up_live: "I w \<Longrightarrow> I (w\<lparr>pblocks_live := k\<rparr>)"
    and up_freed: "I w \<Longrightarrow> p = Some a \<Longrightarrow> I (w\<lparr>uplinks := (uplinks w)(a := None), pblocks_live := k\<rparr>)"
    and up_call: "I w \<Longrightarrow> ok x \<Longrightarrow> I (snd (ext_call E x w))"
    and up_malloc: "I w \<Longrightarrow> I (snd (malloc E w))"
begin

lemma up_deref [keeps]:
  "I w \<Longrightarrow> (\<And>a u. p = Some a \<Longrightarrow> own (end_cb_arg u) \<Longrightarrow> kept I st (f a u))
    \<Longrightarrow> kept I st (bnd (deref (uplinks w) p) (\<lambda>(a, u). f a u))"
  by (rule kept_deref_eq) (auto dest: up_own)

declare up_calls [keeps] up_put [keeps] up_live [keeps] up_freed [keeps] up_call [keeps] up_malloc [keeps]

lemma up_pure [keeps]:
  "I w \<Longrightarrow> I w' \<Longrightarrow> I (if b then w else w')"
  "I (snd m) \<Longrightarrow> (\<And>a w. I w \<Longrightarrow> I (f a w)) \<Longrightarrow> I (case m of (a, w) \<Rightarrow> f a w)"
  "I (snd x) \<Longrightarrow> (\<And>y. I (snd (f3 y))) \<Longrightarrow> I (snd (case opt of None \<Rightarrow> x | Some y \<Rightarrow> f3 y))"
  "I w \<Longrightarrow> I (snd (q, w))"
  by (simp_all add: case_prod_unfold split: option.split)

lemma up_alloc [keeps]: "I w \<Longrightarrow> I (snd (pouch_block_alloc E w))"
  using up_malloc [of w] by (cases "malloc E w") (auto simp: pouch_block_alloc_def intro: up_live split: option.split)

lemma up_cleanup [keeps]: "I w \<Longrightarrow> p = Some a \<Longrightarrow> kept I (\<lambda>w. w) (cleanup_uplink E (Some a) w)"
  unfolding cleanup_uplink_def Let_def
  by (rule kept_deref_eq, simp only: option.inject) (rule keeps kept_Inr | assumption | simp)+

text \<open>\<open>Some a\<close> for \<open>p\<close>, as the code passes on the pointer it has looked up.\<close>

lemma up_process [keeps]:
  assumes "I w"
  shows "kept I (\<lambda>w. w) (process_uplink E ecb p w)"
  unfolding process_uplink_def Let_def
  by (rule assms up_deref looks keeps kept_any | assumption | simp only: prod.sel | (simp; fail))+

lemma up_process_at [keeps]: "I w \<Longrightarrow> p = Some a \<Longrightarrow> kept I (\<lambda>w. w) (process_uplink E ecb (Some a) w)"
  using up_process by simp

lemma up_ack: "I w \<Longrightarrow> kept I (\<lambda>w. w) (block_upload_callback E ecb status p w)"
  unfolding block_upload_callback_def Let_def
  by (rule up_deref looks keeps kept_any | assumption | simp only: prod.sel | (simp; fail))+

lemma up_submit [keeps]: "I w \<Longrightarrow> kept I (\<lambda>w. w) (submit_block p w)"
  unfolding submit_block_def
  by (rule up_deref looks keeps kept_any | assumption | simp only: prod.sel | (simp; fail))+

lemma up_close [keeps]: "I w \<Longrightarrow> kept I (\<lambda>w. w) (uplink_close E ecb p w)"
  unfolding uplink_close_def Let_def
  by (rule up_deref looks keeps kept_any | assumption | simp only: prod.sel | (simp; fail))+

lemma up_write_loop [keeps]: "I w \<Longrightarrow> kept I snd (write_loop E p payload w)"
proof (induction "length payload" arbitrary: payload w rule: less_induct)
  case less
  have rec: "kept I snd (write_loop E p (drop n payload) w')" if "payload \<noteq> []" and "n \<noteq> 0" and "I w'" for n w'
    using less.hyps [of "drop n payload" w'] that by simp
  show ?case
    by (subst write_loop.simps, unfold Let_def)
      (rule less.prems up_deref looks keeps rec kept_any | assumption | simp only: prod.sel | (simp; fail))+
qed

lemma up_write: "I w \<Longrightarrow> kept I snd (uplink_write E ecb p payload lst w)"
  unfolding uplink_write_def
  by (rule up_deref looks keeps kept_any | assumption | simp only: prod.sel)+

lemmas up_ops = up_write up_close up_ack

end

subsection \<open>The downlink library\<close>

locale downlink_at =
  fixes E :: "'e env_scheme" and I :: "'a gw_world_scheme \<Rightarrow> bool" and p :: ptr
    and good :: "downlink \<Rightarrow> bool" and mine :: "addr \<Rightarrow> bool" and own :: "conn \<Rightarrow> bool"
  assumes dl_good: "I w \<Longrightarrow> p = Some a \<Longrightarrow> downlinks w a = Some d \<Longrightarrow> good d"
    and dl_own: "good d \<Longrightarrow> own (cb_arg d)"
    and dl_held: "good d \<Longrightarrow> b \<in> set (held d) \<Longrightarrow> mine b"
    and dl_less: "good d \<Longrightarrow> set (held d') \<subseteq> set (held d) \<Longrightarrow> cb_arg d' = cb_arg d \<Longrightarrow> good d'"
    and dl_more: "good d \<Longrightarrow> mine b \<Longrightarrow> good (d\<lparr>block_queue := block_queue d @ [b]\<rparr>)"
    and dl_put: "I w \<Longrightarrow> p = Some a \<Longrightarrow> good d \<Longrightarrow> I (put_downlink a d w)"
    and dl_del: "I w \<Longrightarrow> p = Some a \<Longrightarrow> I (w\<lparr>downlinks := (downlinks w)(a := None)\<rparr>)"
    and dl_alloc: "I w \<Longrightarrow> I (snd (block_alloc E ud w))"
    and dl_new: "I w \<Longrightarrow> fst (block_alloc E ud w) = Some b \<Longrightarrow> mine b"
    and dl_free: "I w \<Longrightarrow> mine b \<Longrightarrow> kept I (\<lambda>w. w) (block_free (Some b) w)"
    and dl_append: "I w \<Longrightarrow> mine b \<Longrightarrow> kept I (\<lambda>w. w) (block_append (Some b) bs w)"
    and dl_mark: "I w \<Longrightarrow> mine b \<Longrightarrow> kept I (\<lambda>w. w) (block_mark_last (Some b) w)"
begin

lemma dl_deref [keeps]:
  "I w \<Longrightarrow> (\<And>a d. p = Some a \<Longrightarrow> good d \<Longrightarrow> kept I st (f a d))
    \<Longrightarrow> kept I st (bnd (deref (downlinks w) p) (\<lambda>(a, d). f a d))"
  by (rule kept_deref_eq) (auto dest: dl_good)

declare dl_put [keeps] dl_del [keeps] dl_append [keeps] dl_mark [keeps]

lemma dl_free_current: "I w \<Longrightarrow> good d \<Longrightarrow> kept I (\<lambda>w. w) (block_free (current_block d) w)"
  using dl_free dl_held [of d] by (cases "current_block d") (auto simp: held_def, simp add: block_free_def kept_def)

lemma dl_flag:
  "good d \<Longrightarrow> good (d\<lparr>aborted := b\<rparr>)" "good d \<Longrightarrow> good (d\<lparr>client_waiting := b\<rparr>)" "good d \<Longrightarrow> good (d\<lparr>complete := b\<rparr>)"
  "good d \<Longrightarrow> good (d\<lparr>block_queue := []\<rparr>)"
  by (erule dl_less; auto simp: held_def)+

lemma dl_free_each: "I w \<Longrightarrow> (\<And>b. b \<in> set as \<Longrightarrow> mine b) \<Longrightarrow> kept I (\<lambda>w. w) (free_each block_free as w)"
proof (induction as arbitrary: w)
  case (Cons a as)
  then show ?case unfolding free_each.simps by (intro kept_bnd [OF dl_free] Cons.IH) auto
qed (simp add: kept_def)

lemma dl_flush [keeps]: "I w \<Longrightarrow> kept I (\<lambda>w. w) (flush_block_queue p w)"
  unfolding flush_block_queue_def
  by (rule dl_deref dl_free_each keeps kept_any | assumption | simp only: prod.sel
      | (auto simp: held_def intro: dl_held dl_flag; fail))+

lemma dl_close [keeps]: "I w \<Longrightarrow> kept I (\<lambda>w. w) (downlink_close p w)"
  unfolding downlink_close_def
  by (rule dl_deref dl_free_current keeps kept_any | assumption | simp only: prod.sel)+

lemma dl_abort [keeps]: "I w \<Longrightarrow> kept I (\<lambda>w. w) (downlink_abort p w)"
  unfolding downlink_abort_def Let_def
  by (rule dl_deref dl_flag looks keeps kept_any | assumption | simp only: prod.sel)+

text \<open>The loop works on a copy of the context, which stays good.\<close>

lemma dl_next:
  assumes "good d" and "next_block d = (Some b, q)"
  shows "mine b" and "set q \<subseteq> set (held d)" and "b \<in> set (held d)"
proof -
  show b: "b \<in> set (held d)" "set q \<subseteq> set (held d)"
    using assms(2) by (auto simp: next_block_def held_def dest: fifo_get_contents split: if_splits)
  from dl_held [OF assms(1) b(1)] show "mine b" .
qed

lemma dl_advance:
  assumes "good d" and "next_block d = (Some b, q)"
  shows "good (d\<lparr>offset := k, current_block := Some b, block_queue := q\<rparr>)"
    and "fifo_get q = (nxt, q') \<Longrightarrow> good (d\<lparr>offset := k, current_block := nxt, block_queue := q'\<rparr>)"
  using dl_next [OF assms]
  by (auto intro!: dl_less [OF assms(1)] simp: held_def dest!: fifo_get_contents split: option.splits)

lemma dl_get_loop:
  "I w \<Longrightarrow> good d \<Longrightarrow> kept (\<lambda>(d, w). I w \<and> good d) (\<lambda>(_, d, _, _, _, w). (d, w)) (get_data_loop E d dst tot n w)"
proof (induction "n + length (block_queue d) + (if current_block d = NULL then 0 else 1)" arbitrary: d dst tot n w rule: less_induct)
  case less
  let ?K = "kept (\<lambda>(d, w). I w \<and> good d) (\<lambda>(_, d, _, _, _, w). (d, w))"
  show ?case
  proof (cases "next_block d")
    case (Pair cur q)
    consider "n = 0" | "n \<noteq> 0" "cur = NULL" | b where "n \<noteq> 0" "cur = Some b" by (cases cur) auto
    then show ?thesis
    proof cases
      case (3 b)
      have nb: "next_block d = (Some b, q)" using Pair 3 by simp
      note size = next_block_size [OF nb]
      have partly: "?K (get_data_loop E (d\<lparr>offset := k, current_block := Some b, block_queue := q\<rparr>) dst' tot' (n - m) w)"
        if "m \<noteq> 0" for k dst' tot' m
        using less.hyps [OF _ less.prems(1) dl_advance(1) [OF less.prems(2) nb, of k], of "n - m" dst' tot'] that 3 size by simp
      have next_one: "?K (get_data_loop E (d\<lparr>offset := k, current_block := nxt, block_queue := q'\<rparr>) dst' tot' (n - m) w')"
        if "fifo_get q = (nxt, q')" and "I w'" for k nxt q' dst' tot' m w'
        using less.hyps [OF _ that(2) dl_advance(2) [OF less.prems(2) nb that(1), of k], of "n - m" dst' tot'] size
          fifo_get_size [OF that(1)] by simp
      note adv = dl_advance(2) [OF less.prems(2) nb]
      show ?thesis
        by (subst get_data_loop.simps, unfold Let_def nb prod.case)
          (rule kept_if looks kept_any_eq kept_seq [OF dl_free [OF less.prems(1) dl_next(1) [OF less.prems(2) nb]]]
              partly next_one keeps | assumption
            | (use 3 adv in \<open>simp add: dl_flag split: if_splits\<close>; fail))+
    qed (use less.prems Pair in \<open>subst get_data_loop.simps, simp add: kept_def dl_flag\<close>)+
  qed
qed

lemma dl_read:
  assumes "I w" and "good d"
    and "\<And>rc d' dst' tot' lst w'. I w' \<Longrightarrow> good d' \<Longrightarrow> kept I st (f rc d' dst' tot' lst w')"
  shows "kept I st (bnd (get_data_loop E d dst tot n w) (\<lambda>(rc, d, dst, tot, lst, w). f rc d dst tot lst w))"
  using dl_get_loop [OF assms(1,2), of dst tot n] assms(3)
  by (cases "get_data_loop E d dst tot n w") (auto simp: kept_def split: prod.splits)

lemma dl_get_data: "I w \<Longrightarrow> kept I (\<lambda>r. snd (snd (snd (snd r)))) (downlink_get_data E p dst n w)"
  unfolding downlink_get_data_def
  by (rule dl_deref looks dl_read keeps kept_any | assumption | simp only: prod.sel)+

lemma dl_block:
  assumes cb: "\<And>c w. own c \<Longrightarrow> I w \<Longrightarrow> kept I (\<lambda>w. w) (cb c w)" and "I w"
  shows "kept I snd (downlink_block_cb E cb src lst p w)"
proof -
  have alloc: "kept I snd (case block_alloc E NULL w of (None, w) \<Rightarrow> f w | (Some b, w) \<Rightarrow> g b w)"
    if "\<And>w. I w \<Longrightarrow> kept I snd (f w)" and "\<And>b w. mine b \<Longrightarrow> I w \<Longrightarrow> kept I snd (g b w)" and "I w" for f g w
    using that dl_alloc [OF that(3), of NULL] dl_new [OF that(3), of NULL]
    by (cases "block_alloc E NULL w"; cases "fst (block_alloc E NULL w)") auto
  show ?thesis
    unfolding downlink_block_cb_def Let_def
    by (rule assms alloc dl_deref dl_flag dl_more dl_own looks keeps kept_any | assumption | simp only: prod.sel)+
qed

lemma dl_end:
  assumes cb: "\<And>c w. own c \<Longrightarrow> I w \<Longrightarrow> kept I (\<lambda>w. w) (cb c w)" and "I w"
  shows "kept I (\<lambda>w. w) (downlink_end_cb cb status p w)"
  unfolding downlink_end_cb_def
  by (rule assms dl_deref dl_own looks keeps kept_any | assumption | simp only: prod.sel)+

lemmas dl_ops = dl_get_data dl_close dl_abort

end

end
