(* ===== verification/Gateway_System.thy ===== *)
theory Gateway_System
  imports Pointer_Calculus
begin

text \<open>
  The invariants of the whole gateway: ownership of the downlink blocks, the count of the uplink
  blocks, well-formed certificates and tables, and well-typed requests, kept by every entry of the
  system.  The operations of each library are composed of a few basic changes of the state; a
  property kept by those is kept by all operations (\<open>uplink_calculus\<close>, \<open>downlink_calculus\<close>), and
  one that looks at other parts of the state is kept anyway (\<open>uplink_stable\<close> and its siblings).
\<close>

subsection \<open>What each library leaves alone\<close>

definition dl_part :: "'a gw_world_scheme \<Rightarrow> (addr \<rightharpoonup> block) \<times> nat \<times> (addr \<rightharpoonup> downlink)" where
  "dl_part w = (slab w, slab_used w, downlinks w)"

definition up_part :: "'a gw_world_scheme \<Rightarrow> (addr \<rightharpoonup> uplink) \<times> nat" where
  "up_part w = (uplinks w, pblocks_live w)"

definition mem_part :: "'a gw_world_scheme \<Rightarrow> _" where
  "mem_part w = (device_ctxs w, server_ctxs w, packetizers w, scratches w,
     server_crt_buf w, server_crt_len w, server_crt_serial w, server_crt_serial_len w)"

text \<open>The same parts, and no address taken back.\<close>

definition beside_uplink :: "'a gw_world_scheme \<Rightarrow> 'a gw_world_scheme \<Rightarrow> bool" where
  "beside_uplink w0 w \<longleftrightarrow> dl_part w = dl_part w0 \<and> mem_part w = mem_part w0 \<and> next_addr w0 \<le> next_addr w"

definition beside_downlink :: "'a gw_world_scheme \<Rightarrow> 'a gw_world_scheme \<Rightarrow> bool" where
  "beside_downlink w0 w \<longleftrightarrow> up_part w = up_part w0 \<and> mem_part w = mem_part w0 \<and> next_addr w0 \<le> next_addr w"

definition beside_streams :: "'a gw_world_scheme \<Rightarrow> 'a gw_world_scheme \<Rightarrow> bool" where
  "beside_streams w0 w \<longleftrightarrow> dl_part w = dl_part w0 \<and> up_part w = up_part w0 \<and> next_addr w0 \<le> next_addr w"

lemmas parts = dl_part_def up_part_def mem_part_def
lemmas besides = beside_uplink_def beside_downlink_def beside_streams_def parts

subsection \<open>The uplink library\<close>

locale uplink_calculus =
  fixes E :: "'e env_scheme" and I :: "'a gw_world_scheme \<Rightarrow> bool"
  assumes up_put: "I w \<Longrightarrow> I (put_uplink a u w)"
    and up_table: "I w \<Longrightarrow> I (w\<lparr>uplinks := m\<rparr>)"
    and up_live: "I w \<Longrightarrow> I (w\<lparr>pblocks_live := k\<rparr>)"
    and up_freed: "I w \<Longrightarrow> I (w\<lparr>uplinks := m, pblocks_live := k\<rparr>)"
    and up_node: "I w \<Longrightarrow> I (set_node c (node_uplink_update f) w)"
    and up_call: "I w \<Longrightarrow> call_typed x \<Longrightarrow> I (snd (ext_call E x w))"
    and up_malloc: "I w \<Longrightarrow> I (snd (malloc E w))"
begin

text \<open>Whatever the pointer, the context it names is of no concern.\<close>

lemma up_end: "I w \<Longrightarrow> kept I (\<lambda>w. w) (uplink_end_cb E r c w)"
  by (rule end_cb_kept [where ok = call_typed]) (rule up_node up_call calls_typed | assumption)+

sublocale at: uplink_at E I p "\<lambda>_. True" call_typed "uplink_end_cb E" for p :: ptr
  by unfold_locales (rule calls_typed TrueI | rule up_put up_live up_freed up_end up_call up_malloc; assumption)+

declare up_put [keeps] up_call [keeps] up_malloc [keeps]

lemma up_pure [keeps]:
  "I (snd m) \<Longrightarrow> (\<And>a w. I w \<Longrightarrow> I (snd (f a w))) \<Longrightarrow> I (snd (case m of (a, w) \<Rightarrow> f a w))"
  "I (snd x) \<Longrightarrow> I (snd y) \<Longrightarrow> I (snd (if b then x else y))"
  by (simp_all add: case_prod_unfold)

lemma up_open: "I w \<Longrightarrow> I (snd (uplink_open E dl c w))"
  unfolding uplink_open_def Let_def by (rule looks keeps kept_any | assumption | simp only: prod.sel)+

lemmas up_kept = at.up_ops up_open

end

subsection \<open>The downlink library\<close>

locale downlink_calculus =
  fixes E :: "'e env_scheme" and I :: "'a gw_world_scheme \<Rightarrow> bool"
  assumes dl_put: "I w \<Longrightarrow> I (put_downlink a d w)"
    and dl_table: "I w \<Longrightarrow> I (w\<lparr>downlinks := m\<rparr>)"
    and dl_malloc: "I w \<Longrightarrow> I (snd (malloc E w))"
    and dl_alloc: "I w \<Longrightarrow> I (snd (block_alloc E ud w))"
    and dl_free: "I w \<Longrightarrow> kept I (\<lambda>w. w) (block_free p w)"
    and dl_append: "I w \<Longrightarrow> kept I (\<lambda>w. w) (block_append p bs w)"
    and dl_mark: "I w \<Longrightarrow> kept I (\<lambda>w. w) (block_mark_last p w)"
begin

sublocale at: downlink_at E I p "\<lambda>_. True" "\<lambda>_. True" "\<lambda>_. True" for p :: ptr
  by unfold_locales (rule dl_put dl_table dl_alloc dl_free dl_append dl_mark TrueI; assumption)+

lemma dl_open: "I w \<Longrightarrow> I (snd (downlink_open E c w))"
  using dl_malloc [of w] by (cases "malloc E w") (auto simp: downlink_open_def intro: dl_put split: option.split)

lemmas dl_block = at.dl_block [simplified]
lemmas dl_end = at.dl_end [simplified]
lemmas dl_kept = at.dl_ops dl_open

end

subsection \<open>Certificates, packetizers and buffers\<close>

text \<open>
  These operations change the state in too many places for a calculus of their own; what they
  leave alone is enough for the invariants of the two libraries.
\<close>

lemma beside_streams_basic:
  "beside_streams w (set_node c f w)"
  "beside_streams w (w\<lparr>trace := t\<rparr>)"
  "beside_streams w (snd (gatt_mtu_malloc E c w))"
  "beside_streams w (snd (packetizer_start E k arg w))"
  by (simp_all add: besides set_node_def gatt_mtu_malloc_def packetizer_start_def malloc_def ext_call_def Let_def)

lemma beside_streams_ops:
  "kept (beside_streams w) (\<lambda>w. w) (free_scratch p w)"
  "kept (beside_streams w) (\<lambda>w. w) (packetizer_finish E p w)"
  "kept (beside_streams w) snd (device_cert_start E w)"
  "kept (beside_streams w) snd (device_cert_push E p bs w)"
  "kept (beside_streams w) (\<lambda>w. w) (device_cert_abort p w)"
  "kept (beside_streams w) snd (server_cert_start E w)"
  "kept (beside_streams w) (\<lambda>w. w) (server_cert_abort p w)"
  "kept (beside_streams w) (\<lambda>r. snd (snd (snd (snd r)))) (server_cert_get_data p dst n w)"
  by (auto simp: kept_def besides free_scratch_def packetizer_finish_def device_cert_start_def malloc_def ext_call_def
      device_cert_push_def device_cert_abort_def server_cert_start_def server_cert_abort_def server_cert_get_data_def
      bnd_simps Let_def split: if_splits)

lemma beside_streams_update: "beside_streams w0 w \<Longrightarrow> kept (beside_streams w0) snd (server_crt_update E n w)"
  by (auto simp: kept_def besides server_crt_update_def ext_call_def bnd_simps Let_def split: if_splits)

lemma beside_streams_finish: "kept (beside_streams w) snd (device_cert_finish E p w)"
proof -
  have "beside_streams w w" and "beside_streams w v \<Longrightarrow> beside_streams w (snd (ext_call E x v))"
    and "beside_streams w v \<Longrightarrow> kept (beside_streams w) (\<lambda>w. w) (device_cert_abort p v)" for x v
    by (auto simp: kept_def besides ext_call_def device_cert_abort_def bnd_simps)
  note this [keeps]
  show ?thesis unfolding device_cert_finish_def Let_def
    by (rule looks kept_look [where m = "peek b i n" for b i n] keeps kept_any | assumption | simp only: prod.sel)+
qed

lemma beside_streams_refresh: "kept (beside_streams w) (\<lambda>w. w) (cert_module_on_connected E w)"
  by (auto simp: kept_def cert_module_on_connected_def bnd_simps ext_call_def Let_def split: if_splits option.splits
      dest!: keptD [OF beside_streams_update, rotated]) (auto simp: besides)

subsection \<open>Properties that depend on one part only\<close>

locale uplink_stable =
  fixes I :: "'a gw_world_scheme \<Rightarrow> bool"
  assumes stable: "beside_uplink w w' \<Longrightarrow> I w \<Longrightarrow> I w'"

sublocale uplink_stable \<subseteq> calc: uplink_calculus E I for E :: "'e env_scheme"
  by unfold_locales (erule stable [rotated],
    simp add: besides put_uplink_def set_node_def malloc_def ext_call_def Let_def)+

locale downlink_stable =
  fixes I :: "'a gw_world_scheme \<Rightarrow> bool"
  assumes stable: "beside_downlink w w' \<Longrightarrow> I w \<Longrightarrow> I w'"

sublocale downlink_stable \<subseteq> calc: downlink_calculus E I for E :: "'e env_scheme"
  by unfold_locales
    (auto simp: besides kept_def put_downlink_def malloc_def ext_call_def block_alloc_def block_free_def block_append_def
      block_mark_last_def bnd_simps Let_def elim!: stable [rotated])

locale streams_stable =
  fixes I :: "'a gw_world_scheme \<Rightarrow> bool"
  assumes stable: "beside_streams w w' \<Longrightarrow> I w \<Longrightarrow> I w'"
begin

lemma lift: "kept (beside_streams w) st m \<Longrightarrow> I w \<Longrightarrow> kept I st m"
  by (auto simp: kept_def intro: stable)

lemma mem_call: "I w \<Longrightarrow> I (snd (ext_call E x w))"
  using stable [OF beside_streams_basic(2)] by (simp add: ext_call_def)

lemmas mem_kept = beside_streams_basic [THEN stable] beside_streams_ops [THEN lift] beside_streams_finish [THEN lift]
  beside_streams_refresh [THEN lift] mem_call

end

subsection \<open>The three invariants\<close>

definition owners_ok :: "'e env_scheme \<Rightarrow> 'a gw_world_scheme \<Rightarrow> bool" where
  "owners_ok E w \<longleftrightarrow> max_block_size E < 2 ^ 31 \<and> dl_inv E w"

text \<open>
  Certificates and tables: the static buffers keep their size and the lengths stored with them
  stay inside; a device certificate never outgrows its context; no table holds an address that
  has not been handed out.
\<close>

definition device_ctx_ok :: "'e env_scheme \<Rightarrow> device_cert_ctx \<Rightarrow> bool" where
  "device_ctx_ok E c \<longleftrightarrow> length (dc_buf c) = device_cert_max E \<and> dc_len c \<le> device_cert_max E"

definition mem_ok :: "'e env_scheme \<Rightarrow> 'a gw_world_scheme \<Rightarrow> bool" where
  "mem_ok E w \<longleftrightarrow> length (server_crt_buf w) = server_cert_max E \<and> server_crt_len w \<le> server_cert_max E
     \<and> length (server_crt_serial w) = CERT_SERIAL_MAXLEN \<and> server_crt_serial_len w \<le> CERT_SERIAL_MAXLEN
     \<and> (\<forall>a c. device_ctxs w a = Some c \<longrightarrow> device_ctx_ok E c)
     \<and> fresh_above (device_ctxs w) (next_addr w) \<and> fresh_above (server_ctxs w) (next_addr w)
     \<and> fresh_above (packetizers w) (next_addr w) \<and> fresh_above (scratches w) (next_addr w)"

definition gw_inv :: "'e env_scheme \<Rightarrow> 'a gw_world_scheme \<Rightarrow> bool" where
  "gw_inv E w \<longleftrightarrow> owners_ok E w \<and> up_mem w \<and> mem_ok E w"

interpretation dl_up: uplink_stable "owners_ok E" for E :: "'e env_scheme"
  by unfold_locales (auto simp: owners_ok_def besides intro: dl_inv_frame)

interpretation dl_mem: streams_stable "owners_ok E" for E :: "'e env_scheme"
  by unfold_locales (auto simp: owners_ok_def besides intro: dl_inv_frame)

interpretation up_dl: downlink_stable up_mem
  by unfold_locales (auto simp: besides intro: up_mem_frame)

interpretation up_rest: streams_stable up_mem
  by unfold_locales (auto simp: besides intro: up_mem_frame)

interpretation mem_up: uplink_stable "mem_ok E" for E :: "'e env_scheme"
  by unfold_locales (auto simp: mem_ok_def besides intro: fresh_above_mono)

interpretation mem_dl: downlink_stable "mem_ok E" for E :: "'e env_scheme"
  by unfold_locales (auto simp: mem_ok_def besides intro: fresh_above_mono)

subsection \<open>Ownership\<close>

lemma owners_block:
  assumes cb: "\<And>c w. owners_ok E w \<Longrightarrow> kept (owners_ok E) (\<lambda>w. w) (cb c w)" and "owners_ok E w"
    and "length src \<le> max_block_size E"
  shows "kept (owners_ok E) snd (downlink_block_cb E cb src lst p w)"
proof -
  have "downlink_client E cb"
    using cb by unfold_locales (auto simp: kept_def owners_ok_def)
  from downlink_client.block_keeps [OF this] assms(2,3) show ?thesis
    by (auto simp: kept_def owners_ok_def)
qed

lemma owners_end:
  assumes cb: "\<And>c w. owners_ok E w \<Longrightarrow> kept (owners_ok E) (\<lambda>w. w) (cb c w)" and "owners_ok E w"
  shows "kept (owners_ok E) (\<lambda>w. w) (downlink_end_cb cb status p w)"
proof -
  have "downlink_client E cb"
    using cb by unfold_locales (auto simp: kept_def owners_ok_def)
  from downlink_client.end_keeps [OF this] assms(2) show ?thesis
    by (auto simp: kept_def owners_ok_def)
qed

lemma close_keeps:
  assumes "dl_inv E w" and "downlink_close p w = Inr w'"
  shows "dl_inv E w'"
proof -
  from assms(2) obtain a d where "p = Some a" "downlinks w a = Some d"
    unfolding downlink_close_def by (rule deref_InrE)
  with close_world [OF assms(1)] assms(2) show ?thesis by fastforce
qed

lemma owners_downlink:
  assumes "owners_ok E w"
  shows "owners_ok E (snd (downlink_open E c w))"
    and "kept (owners_ok E) (\<lambda>r. snd (snd (snd (snd r)))) (downlink_get_data E p dst (length dst) w)"
    and "kept (owners_ok E) (\<lambda>w. w) (downlink_abort p w)"
    and "kept (owners_ok E) (\<lambda>w. w) (downlink_close p w)"
proof -
  have inv: "dl_inv E w" "max_block_size E < 2 ^ 31" using assms by (simp_all add: owners_ok_def)
  show "owners_ok E (snd (downlink_open E c w))"
    using open_world(1) [OF inv(1), of c] inv(2) by (cases "downlink_open E c w") (auto simp: owners_ok_def)
  show "kept (owners_ok E) (\<lambda>r. snd (snd (snd (snd r)))) (downlink_get_data E p dst (length dst) w)"
    using read_keeps [OF inv(1) _ le_refl inv(2)] inv(2) by (auto simp: kept_def owners_ok_def)
  show "kept (owners_ok E) (\<lambda>w. w) (downlink_abort p w)"
    using abort_keeps [OF inv(1)] inv(2) by (auto simp: kept_def owners_ok_def)
  show "kept (owners_ok E) (\<lambda>w. w) (downlink_close p w)"
    using close_keeps [OF inv(1)] inv(2) by (auto simp: kept_def owners_ok_def)
qed

interpretation dl_glue: glue_invariant E "owners_ok E" for E :: "'e env_scheme"
  by unfold_locales (rule dl_up.calc.up_kept dl_mem.mem_kept owners_downlink owners_block owners_end; assumption)+

subsection \<open>Uplink blocks\<close>

lemma mem_uplink:
  fixes w :: "'a gw_world_scheme"
  assumes "up_mem w"
  shows "up_mem (snd (uplink_open E p c w))"
    and "kept up_mem snd (uplink_write E (uplink_end_cb E) p payload lst w)"
    and "kept up_mem (\<lambda>w. w) (uplink_close E (uplink_end_cb E) p w)"
    and "kept up_mem (\<lambda>w. w) (block_upload_callback E (uplink_end_cb E) status p w)"
proof -
  show "up_mem (snd (uplink_open E p c w))"
    using open_mem [OF assms, of E p c] by (cases "uplink_open E p c w") simp
qed (auto simp: kept_def dest: bt_owner.write_mem [OF assms] bt_owner.close_mem [OF assms] bt_owner.ack_mem [OF assms])

interpretation up_glue: glue_invariant E up_mem for E :: "'e env_scheme"
  by unfold_locales (rule up_dl.calc.dl_kept up_dl.calc.dl_block up_dl.calc.dl_end up_rest.mem_kept mem_uplink; assumption)+

subsection \<open>Certificates and tables\<close>

lemma poke_inside: "poke xs off ys = Inr zs \<Longrightarrow> length zs = length xs \<and> off + length ys \<le> length xs"
  by (auto simp: poke_def split: if_splits)

lemma mem_ok_basic:
  assumes "mem_ok E w"
  shows "mem_ok E (set_node c f w)" and "mem_ok E (w\<lparr>trace := t\<rparr>)"
    and "mem_ok E (snd (gatt_mtu_malloc E c w))" and "mem_ok E (snd (packetizer_start E k arg w))"
    and "kept (mem_ok E) (\<lambda>w. w) (free_scratch p w)" and "kept (mem_ok E) (\<lambda>w. w) (packetizer_finish E p w)"
    and "kept (mem_ok E) snd (server_cert_start E w)" and "kept (mem_ok E) (\<lambda>w. w) (server_cert_abort p w)"
    and "kept (mem_ok E) (\<lambda>r. snd (snd (snd (snd r)))) (server_cert_get_data p dst n w)"
  using assms
  by (auto simp: mem_ok_def kept_def gatt_mtu_malloc_def packetizer_start_def malloc_def ext_call_def free_scratch_def
      packetizer_finish_def server_cert_start_def server_cert_abort_def server_cert_get_data_def bnd_simps Let_def
      split: if_splits intro: fresh_above_mono)

lemma device_ctx_okD: "mem_ok E w \<Longrightarrow> device_ctxs w a = Some c \<Longrightarrow> device_ctx_ok E c"
  by (simp add: mem_ok_def)

text \<open>Storing and deleting a device certificate context.\<close>

lemma mem_ok_store:
  assumes "mem_ok E w" and "device_ctx_ok E c" and "device_ctxs w a = Some c0"
  shows "mem_ok E (w\<lparr>device_ctxs := (device_ctxs w)(a \<mapsto> c)\<rparr>)" and "mem_ok E (w\<lparr>device_ctxs := (device_ctxs w)(a := None)\<rparr>)"
  using assms by (simp_all add: mem_ok_def)

lemma mem_ok_device_start: "mem_ok E w \<Longrightarrow> kept (mem_ok E) snd (device_cert_start E w)"
  by (cases E w rule: malloc_cases)
    (auto simp: kept_def device_cert_start_def mem_ok_def device_ctx_ok_def intro: fresh_above_mono split: if_splits)

lemma mem_ok_device_push: "mem_ok E w \<Longrightarrow> kept (mem_ok E) snd (device_cert_push E p bs w)"
proof (rule keptI)
  fix r assume inv: "mem_ok E w" and "device_cert_push E p bs w = Inr r"
  then obtain a c where c: "device_ctxs w a = Some c" and
    r: "snd r = w \<or> (\<exists>d. poke (dc_buf c) (dc_len c) bs = Inr d
      \<and> snd r = w\<lparr>device_ctxs := (device_ctxs w)(a \<mapsto> \<lparr>dc_len = dc_len c + length bs, dc_buf = d\<rparr>)\<rparr>)"
    by (auto simp: device_cert_push_def elim!: bnd_InrE deref_InrE split: if_splits)
  from device_ctx_okD [OF inv c] r mem_ok_store(1) [OF inv _ c] inv show "mem_ok E (snd r)"
    by (auto simp: device_ctx_ok_def dest!: poke_inside)
qed

lemma mem_ok_device_abort: "mem_ok E w \<Longrightarrow> kept (mem_ok E) (\<lambda>w. w) (device_cert_abort p w)"
  by (auto simp: kept_def device_cert_abort_def bnd_simps split: if_splits
      intro: mem_ok_store(2) [OF _ device_ctx_okD])

lemma mem_ok_trace: "mem_ok E w \<Longrightarrow> mem_ok E (w\<lparr>trace := t\<rparr>)"
  by (simp add: mem_ok_def)

lemma mem_ok_call [keeps]: "mem_ok E w \<Longrightarrow> mem_ok E (snd (ext_call E' x w))"
  by (simp add: mem_ok_trace)

lemma mem_ok_device_finish: "mem_ok E w \<Longrightarrow> kept (mem_ok E) snd (device_cert_finish E p w)"
  unfolding device_cert_finish_def Let_def
  by (rule looks kept_look [where m = "peek b i n" for b i n] mem_ok_device_abort keeps kept_any | assumption | simp only: prod.sel)+

lemma mem_ok_update: "mem_ok E w \<Longrightarrow> kept (mem_ok E) snd (server_crt_update E n w)"
  by (auto simp: mem_ok_def kept_def server_crt_update_def ext_call_def peek_def bnd_simps Let_def
      split: if_splits dest!: poke_inside)

text \<open>A download rewrites bytes of the buffer, never its size.\<close>

lemma mem_ok_buffer:
  assumes "mem_ok E w" and "poke (server_crt_buf w) i bs = Inr buf"
  shows "mem_ok E (w\<lparr>server_crt_buf := buf\<rparr>)"
  using assms by (simp add: mem_ok_def poke_inside)

lemma kept_poke:
  "(\<And>buf. poke xs i bs = Inr buf \<Longrightarrow> kept I st (f buf)) \<Longrightarrow> kept I st (bnd (poke xs i bs) f)"
  by (cases "poke xs i bs") (simp_all add: kept_def)

text \<open>Taking over a certificate once its bytes are in the buffer.\<close>

lemma mem_ok_taken:
  assumes "mem_ok E w" and "poke (server_crt_buf w) i bs = Inr buf"
  shows "kept (mem_ok E) (\<lambda>w. w) (bnd (server_crt_update E n (w\<lparr>server_crt_buf := buf\<rparr>)) (\<lambda>(_, w). Inr w))"
  by (rule kept_bnd [OF mem_ok_update [OF mem_ok_buffer [OF assms]]]) (simp add: kept_def case_prod_unfold)

lemma mem_ok_refresh:
  assumes inv: "mem_ok E w"
  shows "kept (mem_ok E) (\<lambda>w. w) (cert_module_on_connected E w)"
proof -
  have called: "mem_ok E (w\<lparr>trace := t\<rparr>)" for t using inv by (rule mem_ok_trace)
  show ?thesis
    unfolding cert_module_on_connected_def ext_call_def Let_def prod.case
    by (rule kept_if kept_option mem_ok_taken kept_poke kept_Inr mem_ok_buffer called inv | assumption)+
qed

interpretation mem_glue: glue_invariant E "mem_ok E" for E :: "'e env_scheme"
  by unfold_locales (rule mem_ok_basic mem_ok_call mem_ok_device_start mem_ok_device_push mem_ok_device_abort mem_ok_device_finish mem_ok_refresh mem_dl.calc.dl_kept mem_dl.calc.dl_block mem_dl.calc.dl_end
      mem_up.calc.up_kept; assumption)+

subsection \<open>The requests made\<close>

text \<open>The calls made since \<open>t0\<close>, all of them well typed; the trace only grows.\<close>

definition typed_since :: "ext_call list \<Rightarrow> 'a gw_world_scheme \<Rightarrow> bool" where
  "typed_since t0 w \<longleftrightarrow> (\<exists>xs. trace w = t0 @ xs \<and> list_all call_typed xs)"

lemma typed_refl: "typed_since (trace w) w"
  by (simp add: typed_since_def)

lemma typed_same: "typed_since t0 w \<Longrightarrow> trace w' = trace w \<Longrightarrow> typed_since t0 w'"
  by (simp add: typed_since_def)

lemma typed_more: "typed_since t0 w \<Longrightarrow> trace w' = trace w @ xs \<Longrightarrow> list_all call_typed xs \<Longrightarrow> typed_since t0 w'"
  by (fastforce simp: typed_since_def)

lemma typed_call: "typed_since t0 w \<Longrightarrow> call_typed x \<Longrightarrow> typed_since t0 (snd (ext_call E x w))"
  by (rule typed_more [where xs = "[x]"]) (simp_all add: ext_call_def)

lemma typed_malloc: "typed_since t0 w \<Longrightarrow> typed_since t0 (snd (malloc E w))"
  by (rule typed_more [where xs = "[Malloc]"]) (simp_all add: malloc_def ext_call_def)

lemma typed_streams:
  "typed_since t0 w \<Longrightarrow> typed_since t0 (snd (gatt_mtu_malloc E c w))"
  "typed_since t0 w \<Longrightarrow> typed_since t0 (snd (packetizer_start E k arg w))"
  "typed_since t0 w \<Longrightarrow> kept (typed_since t0) (\<lambda>w. w) (free_scratch p w)"
  "typed_since t0 w \<Longrightarrow> kept (typed_since t0) (\<lambda>w. w) (packetizer_finish E p w)"
  "typed_since t0 w \<Longrightarrow> kept (typed_since t0) snd (device_cert_start E w)"
  "typed_since t0 w \<Longrightarrow> kept (typed_since t0) snd (device_cert_push E p bs w)"
  "typed_since t0 w \<Longrightarrow> kept (typed_since t0) (\<lambda>w. w) (device_cert_abort p w)"
  "typed_since t0 w \<Longrightarrow> kept (typed_since t0) snd (server_cert_start E w)"
  "typed_since t0 w \<Longrightarrow> kept (typed_since t0) (\<lambda>w. w) (server_cert_abort p w)"
  "typed_since t0 w \<Longrightarrow> kept (typed_since t0) (\<lambda>r. snd (snd (snd (snd r)))) (server_cert_get_data p dst n w)"
  "typed_since t0 w \<Longrightarrow> kept (typed_since t0) snd (server_crt_update E n w)"
  by (auto simp: typed_since_def kept_def gatt_mtu_malloc_def packetizer_start_def free_scratch_def packetizer_finish_def
      device_cert_start_def malloc_def ext_call_def device_cert_push_def device_cert_abort_def server_cert_start_def
      server_cert_abort_def server_cert_get_data_def server_crt_update_def bnd_simps Let_def
      split: if_splits)

lemma typed_node: "typed_since t0 w \<Longrightarrow> typed_since t0 (set_node c f w)"
  by (erule typed_same) (simp add: set_node_def)

lemma typed_finish: "typed_since t0 w \<Longrightarrow> kept (typed_since t0) snd (device_cert_finish E p w)"
  supply typed_call [keeps] typed_streams [keeps]
  unfolding device_cert_finish_def Let_def
  by (rule looks kept_look [where m = "peek b i n" for b i n] keeps kept_any | assumption | simp only: prod.sel)+

lemma typed_buffer: "typed_since t0 w \<Longrightarrow> typed_since t0 (w\<lparr>server_crt_buf := buf\<rparr>)"
  by (erule typed_same) simp

lemma typed_refresh: "typed_since t0 w \<Longrightarrow> kept (typed_since t0) (\<lambda>w. w) (cert_module_on_connected E w)"
  supply typed_call [keeps] typed_streams [keeps] typed_buffer [keeps]
  unfolding cert_module_on_connected_def Let_def
  by (rule kept_poke keeps kept_any | assumption | simp only: prod.sel)+

interpretation typed_up: uplink_calculus E "typed_since t0" for E :: "'e env_scheme" and t0
  by unfold_locales (rule typed_node typed_call typed_malloc; assumption
    | erule typed_same, simp add: put_uplink_def)+

interpretation typed_dl: downlink_calculus E "typed_since t0" for E :: "'e env_scheme" and t0
  by unfold_locales (rule typed_malloc; assumption
    | auto simp: kept_def put_downlink_def block_alloc_def block_free_def block_append_def block_mark_last_def
        bnd_simps Let_def elim: typed_same)+

interpretation typed_glue: glue_invariant E "typed_since t0" for E :: "'e env_scheme" and t0
  by unfold_locales (rule typed_node typed_call typed_streams typed_finish typed_refresh typed_up.up_kept typed_dl.dl_kept
      typed_dl.dl_block typed_dl.dl_end; assumption)+

subsection \<open>Boot\<close>

text \<open>A gateway that has just booted: nothing allocated, static data zero, buffers of their declared sizes.\<close>

definition booted :: "'e env_scheme \<Rightarrow> 'a gw_world_scheme \<Rightarrow> bool" where
  "booted E w \<longleftrightarrow> slab w = Map.empty \<and> slab_used w = 0 \<and> downlinks w = Map.empty
     \<and> uplinks w = Map.empty \<and> pblocks_live w = 0
     \<and> length (server_crt_buf w) = server_cert_max E \<and> server_crt_len w = 0
     \<and> length (server_crt_serial w) = CERT_SERIAL_MAXLEN \<and> server_crt_serial_len w = 0
     \<and> device_ctxs w = Map.empty \<and> server_ctxs w = Map.empty
     \<and> packetizers w = Map.empty \<and> scratches w = Map.empty \<and> nodes w = (\<lambda>_. zero_node)"

lemma gw_inv_booted: "booted E w \<Longrightarrow> max_block_size E < 2 ^ 31 \<Longrightarrow> gw_inv E w"
  by (simp add: booted_def gw_inv_def owners_ok_def dl_inv_def slab_inv_def up_mem_def mem_ok_def fresh_above_def)

end
