(* ===== verification/Gateway_App.thy ===== *)
theory Gateway_App
  imports Gateway_System Connect_Props
begin

text \<open>
  \<open>gateway/src/main.c\<close>: the main thread, which brings up the network, the cloud client and
  Bluetooth and then fetches the server certificate again whenever the client reconnects, and the
  callbacks that wake it.  The main thread is cut at its blocking calls: \<open>main_at\<close> says where it
  is, \<open>main_step\<close> runs it to the next place, or is \<open>None\<close> while a semaphore keeps it waiting.
  The callbacks run between those steps.  The libraries, on their own threads, take the steps
  \<open>gw_step\<close> once Bluetooth is up.
\<close>

subsection \<open>State\<close>

text \<open>Build options of the application, and the credentials the settings hold: their lengths.\<close>

record app_cfg =
  nrf_modem :: bool
  ethernet_dhcp :: bool
  modem_hl7800 :: bool
  credentials :: "ext_call list \<Rightarrow> (nat \<times> nat) option"

datatype main_at = At_network | At_connected | At_startup | At_event | At_refresh | Returned int

record 'w app =
  gw :: 'w
  connected :: nat \<comment> \<open>the semaphores, limited to 1\<close>
  network_connected :: nat
  client :: bool \<comment> \<open>whether the pointer is set\<close>
  main_at :: main_at

definition sem_give :: "nat \<Rightarrow> nat" where
  "sem_give n = min 1 (Suc n)"

text \<open>A call whose result the application drops.\<close>

definition app_call :: "'e env_scheme \<Rightarrow> ext_call \<Rightarrow> ('a ext_world_scheme, 's) app_scheme \<Rightarrow> ('a ext_world_scheme, 's) app_scheme" where
  "app_call E x s = s\<lparr>gw := snd (ext_call E x (gw s))\<rparr>"

subsection \<open>The client and the network\<close>

datatype client_event = CLIENT_EVENT_CONNECTED | CLIENT_EVENT_DISCONNECTED
datatype nw_reg_status = REGISTERED_HOME | REGISTERED_ROAMING | NOT_REGISTERED
datatype lte_evt = EVT_NW_REG_STATUS nw_reg_status | EVT_OTHER
datatype net_event = DNS_SERVER_ADD | L4_DISCONNECTED | NET_OTHER

definition on_client_event :: "client_event \<Rightarrow> ('w, 's) app_scheme \<Rightarrow> ('w, 's) app_scheme" where
  "on_client_event ev s = (if ev = CLIENT_EVENT_CONNECTED then s\<lparr>connected := sem_give (connected s)\<rparr> else s)"

definition connect_golioth_client :: "'e env_scheme \<Rightarrow> app_cfg
    \<Rightarrow> ('a ext_world_scheme, 's) app_scheme \<Rightarrow> ('a ext_world_scheme, 's) app_scheme" where
  "connect_golioth_client E C s = (case credentials C (trace (gw s)) of
     None \<Rightarrow> s
   | Some (psk_id_len, psk_len) \<Rightarrow>
       if psk_id_len = 0 \<or> psk_len = 0 then s
       else let (r, w) = ext_call E Client_create (gw s);
                s = s\<lparr>gw := w, client := r \<noteq> 0\<rparr> in
         app_call E (Client_register (client s)) s)"

definition lte_handler :: "'e env_scheme \<Rightarrow> app_cfg \<Rightarrow> lte_evt
    \<Rightarrow> ('a ext_world_scheme, 's) app_scheme \<Rightarrow> ('a ext_world_scheme, 's) app_scheme" where
  "lte_handler E C ev s = (case ev of
     EVT_NW_REG_STATUS st \<Rightarrow>
       if st = REGISTERED_HOME \<or> st = REGISTERED_ROAMING then
         if \<not> client s then connect_golioth_client E C s else s
       else s
   | EVT_OTHER \<Rightarrow> s)"

definition net_mgmt_cb :: "net_event \<Rightarrow> ('w, 's) app_scheme \<Rightarrow> ('w, 's) app_scheme" where
  "net_mgmt_cb ev s = (case ev of
     DNS_SERVER_ADD \<Rightarrow> s\<lparr>network_connected := sem_give (network_connected s)\<rparr>
   | L4_DISCONNECTED \<Rightarrow> s
   | NET_OTHER \<Rightarrow> s)"

text \<open>\<open>wait_for_network\<close> up to its semaphore; behind it the client is connected.\<close>

definition wait_for_network :: "'e env_scheme \<Rightarrow> ('a ext_world_scheme, 's) app_scheme \<Rightarrow> ('a ext_world_scheme, 's) app_scheme" where
  "wait_for_network E s = (app_call E Net_callback s)\<lparr>main_at := At_network\<rparr>"

definition connect_to_cloud :: "'e env_scheme \<Rightarrow> app_cfg
    \<Rightarrow> ('a ext_world_scheme, 's) app_scheme \<Rightarrow> ('a ext_world_scheme, 's) app_scheme" where
  "connect_to_cloud E C s =
     (if \<not> cloud E then s\<lparr>main_at := At_startup\<rparr>
      else if nrf_modem C then (app_call E Lte_connect s)\<lparr>main_at := At_connected\<rparr>
      else if ethernet_dhcp C then (connect_golioth_client E C (app_call E Dhcp_start s))\<lparr>main_at := At_connected\<rparr>
      else if modem_hl7800 C then wait_for_network E s
      else (connect_golioth_client E C s)\<lparr>main_at := At_connected\<rparr>)"

subsection \<open>The main thread\<close>

text \<open>\<open>k_sem_take\<close> with \<open>K_FOREVER\<close>: the count taken, or waiting.\<close>

definition sem_take :: "nat \<Rightarrow> nat option" where
  "sem_take n = (if n = 0 then None else Some (n - 1))"

text \<open>Behind \<open>connect_to_cloud\<close>: certificate, Bluetooth, scanning.\<close>

definition startup :: "'e env_scheme \<Rightarrow> ('a cert_world_scheme, 's) app_scheme \<Rightarrow> fault + ('a cert_world_scheme, 's) app_scheme" where
  "startup E s = bnd (cert_module_on_connected E (gw s)) (\<lambda>w.
     let (err, w) = ext_call E Bt_enable w in
     if err \<noteq> 0 then Inr (s\<lparr>gw := w, main_at := Returned err\<rparr>)
     else Inr (s\<lparr>gw := scan_start E w, main_at := (if cloud E then At_event else Returned 0)\<rparr>))"

definition main_step :: "'e env_scheme \<Rightarrow> app_cfg \<Rightarrow> ('a cert_world_scheme, 's) app_scheme
    \<Rightarrow> (fault + ('a cert_world_scheme, 's) app_scheme) option" where
  "main_step E C s = (case main_at s of
     At_network \<Rightarrow> map_option (\<lambda>n. Inr ((connect_golioth_client E C (s\<lparr>network_connected := n\<rparr>))\<lparr>main_at := At_connected\<rparr>))
       (sem_take (network_connected s))
   | At_connected \<Rightarrow> map_option (\<lambda>n. Inr (s\<lparr>connected := n, main_at := At_startup\<rparr>)) (sem_take (connected s))
   | At_startup \<Rightarrow> Some (startup E s)
   | At_event \<Rightarrow> map_option (\<lambda>n. Inr (s\<lparr>connected := n, main_at := At_refresh\<rparr>)) (sem_take (connected s))
   | At_refresh \<Rightarrow> Some (bnd (cert_module_on_connected E (gw s)) (\<lambda>w. Inr (s\<lparr>gw := w, main_at := At_event\<rparr>)))
   | Returned err \<Rightarrow> None)"

subsection \<open>The whole application\<close>

text \<open>
  The client reports events once the callback has been registered with it, the modem and the
  network manager after they have been told to; Bluetooth runs once it has been enabled.  The
  second component of a reachable pair says whether a connection of the client has been reported
  since main last began to fetch the certificate.
\<close>

definition bt_up :: "('w, 's) app_scheme \<Rightarrow> bool" where
  "bt_up s \<longleftrightarrow> main_at s = At_event \<or> main_at s = At_refresh \<or> main_at s = Returned 0"

definition refreshing :: "('w, 's) app_scheme \<Rightarrow> bool" where
  "refreshing s \<longleftrightarrow> main_at s = At_startup \<or> main_at s = At_refresh"

inductive app_step :: "'e env_scheme \<Rightarrow> uuids \<Rightarrow> adv \<Rightarrow> app_cfg \<Rightarrow> ('a gw_world_scheme, 's) app_scheme \<times> bool
    \<Rightarrow> ('a gw_world_scheme, 's) app_scheme \<times> bool \<Rightarrow> bool" for E U A C where
  step_main: "main_step E C s = Some (Inr s') \<Longrightarrow> app_step E U A C (s, b) (s', b \<and> \<not> refreshing s)"
| step_client: "Client_register True \<in> set (trace (gw s)) \<Longrightarrow>
    app_step E U A C (s, b) (on_client_event ev s, b \<or> ev = CLIENT_EVENT_CONNECTED)"
| step_lte: "Lte_connect \<in> set (trace (gw s)) \<Longrightarrow> app_step E U A C (s, b) (lte_handler E C ev s, b)"
| step_network: "Net_callback \<in> set (trace (gw s)) \<Longrightarrow> app_step E U A C (s, b) (net_mgmt_cb ev s, b)"
| step_radio: "bt_up s \<Longrightarrow> gw_step E U A (gw s) w' \<Longrightarrow> app_step E U A C (s, b) (s\<lparr>gw := w'\<rparr>, b)"

definition app_boot :: "'e env_scheme \<Rightarrow> ('a gw_world_scheme, 's) app_scheme \<Rightarrow> bool" where
  "app_boot E s \<longleftrightarrow> booted E (gw s) \<and> trace (gw s) = [] \<and> connected s = 0 \<and> network_connected s = 0 \<and> \<not> client s"

inductive app_reach :: "'e env_scheme \<Rightarrow> uuids \<Rightarrow> adv \<Rightarrow> app_cfg \<Rightarrow> ('a gw_world_scheme, 's) app_scheme \<Rightarrow> bool \<Rightarrow> bool"
  for E U A C where
  reach_main: "app_boot E s \<Longrightarrow> app_reach E U A C (connect_to_cloud E C s) False"
| reach_step: "app_reach E U A C s b \<Longrightarrow> app_step E U A C (s, b) (s', b') \<Longrightarrow> app_reach E U A C s' b'"

lemma connect_golioth_client_cases:
  obtains (none) "connect_golioth_client E C s = s"
    | (created) k where "connect_golioth_client E C s =
        s\<lparr>gw := (gw s)\<lparr>trace := trace (gw s) @ [Client_create, Client_register k]\<rparr>, client := k\<rparr>"
        "k \<longleftrightarrow> ret E (trace (gw s)) Client_create \<noteq> 0"
proof (cases "credentials C (trace (gw s))")
  case (Some x)
  then show thesis
    using that by (cases x; cases "fst x = 0 \<or> snd x = 0")
      (auto simp: connect_golioth_client_def app_call_def ext_call_def)
qed (use none in \<open>simp add: connect_golioth_client_def\<close>)

subsection \<open>Invariants of the libraries, again\<close>

definition network_call :: "ext_call \<Rightarrow> bool" where
  "network_call x \<longleftrightarrow> x \<in> {Client_create, Client_register True, Client_register False, Lte_connect, Dhcp_start, Net_callback}"

text \<open>What the main thread and the libraries keep, the whole application keeps.\<close>

locale app_invariant =
  fixes E :: "'e env_scheme" and U :: uuids and A :: adv and I :: "'a gw_world_scheme \<Rightarrow> bool"
  assumes inv_radio: "gw_step E U A w w' \<Longrightarrow> I w \<Longrightarrow> I w'"
    and inv_refresh: "I w \<Longrightarrow> kept I (\<lambda>w. w) (cert_module_on_connected E w)"
    and inv_call: "I w \<Longrightarrow> network_call x \<or> x = Bt_enable \<or> x = Scan_start \<Longrightarrow> I (w\<lparr>trace := trace w @ [x]\<rparr>)"
begin

lemma connect_inv: "I (gw s) \<Longrightarrow> I (gw (connect_golioth_client E C s))"
  using inv_call [of "gw s" Client_create] inv_call [of "(gw s)\<lparr>trace := trace (gw s) @ [Client_create]\<rparr>"]
  by (cases E C s rule: connect_golioth_client_cases) (auto simp: network_call_def)

lemma main_inv:
  assumes "main_step E C s = Some (Inr s')" and "I (gw s)"
  shows "I (gw s')"
proof -
  note fetch = keptD [OF inv_refresh [OF assms(2)]]
  have en: "I (w\<lparr>trace := trace w @ [Bt_enable]\<rparr>)" if "I w" for w
    using inv_call [OF that, of Bt_enable] by simp
  have scan: "I (scan_start E w)" if "I w" for w
    using inv_call [OF that, of Scan_start] by (simp add: scan_start_def ext_call_def)
  from assms show ?thesis
    by (auto simp: main_step_def startup_def sem_take_def ext_call_def Let_def intro!: connect_inv scan en
        dest!: fetch elim!: bnd_InrE split: main_at.splits if_splits)
qed

lemma app_step_inv: "app_step E U A C x y \<Longrightarrow> I (gw (fst x)) \<Longrightarrow> I (gw (fst y))"
  by (induction rule: app_step.induct)
    (auto simp: on_client_event_def lte_handler_def net_mgmt_cb_def intro: main_inv connect_inv inv_radio
      split: lte_evt.split net_event.split)

lemma cloud_inv: "I (gw s) \<Longrightarrow> I (gw (connect_to_cloud E C s))"
  using inv_call [of "gw s"] connect_inv
  by (auto simp: connect_to_cloud_def wait_for_network_def app_call_def ext_call_def network_call_def)

lemma app_inv:
  assumes "\<And>w. booted E w \<Longrightarrow> trace w = [] \<Longrightarrow> I w" and "app_reach E U A C s b"
  shows "I (gw s)"
  using assms(2)
proof induction
  case (reach_main s)
  with assms(1) show ?case by (auto simp: app_boot_def intro: cloud_inv)
qed (use app_step_inv in fastforce)

end

lemma gw_inv_trace: "gw_inv E w \<Longrightarrow> gw_inv E (w\<lparr>trace := t\<rparr>)"
  unfolding gw_inv_def
  using dl_mem.stable up_rest.stable mem_ok_trace beside_streams_basic(2) by blast

interpretation inv_app: app_invariant E U A "gw_inv E" for E :: "'e env_scheme" and U A
proof
  show "gw_inv E w'" if "gw_step E U A w w'" and "gw_inv E w" for w w' :: "'a gw_world_scheme"
    using that dl_glue.step_keeps up_glue.step_keeps mem_glue.step_keeps unfolding gw_inv_def by blast
  show "kept (gw_inv E) (\<lambda>w. w) (cert_module_on_connected E w)" if "gw_inv E w" for w :: "'a gw_world_scheme"
    using that dl_glue.inv_refresh up_glue.inv_refresh mem_glue.inv_refresh unfolding gw_inv_def kept_def by blast
qed (simp add: gw_inv_trace)

definition requests_ok :: "'a ext_world_scheme \<Rightarrow> bool" where
  "requests_ok w \<longleftrightarrow> (\<forall>x \<in> set (trace w). call_typed x \<or> network_call x \<or> x = Bt_enable)"

lemma requests_ok_since: "typed_since (trace w) w' \<Longrightarrow> requests_ok w \<Longrightarrow> requests_ok w'"
  by (auto simp: typed_since_def requests_ok_def list_all_iff)

interpretation requests_app: app_invariant E U A requests_ok for E :: "'e env_scheme" and U A
proof
  show "requests_ok w'" if "gw_step E U A w w'" and "requests_ok w" for w w' :: "'a gw_world_scheme"
    using requests_ok_since [OF typed_glue.step_keeps [OF that(1) typed_refl] that(2)] .
  show "kept requests_ok (\<lambda>w. w) (cert_module_on_connected E w)" if "requests_ok w" for w :: "'a gw_world_scheme"
    using typed_refresh [OF typed_refl] requests_ok_since that unfolding kept_def by blast
qed (auto simp: requests_ok_def)

subsection \<open>Where main is, and what it has done\<close>

definition early :: "('w, 's) app_scheme \<Rightarrow> bool" where
  "early s \<longleftrightarrow> main_at s = At_network \<or> main_at s = At_connected \<or> main_at s = At_startup"

text \<open>Network and client first, then the certificate, then Bluetooth, then the rest.\<close>

definition in_phases :: "'e env_scheme \<Rightarrow> bool \<Rightarrow> ext_call list \<Rightarrow> bool" where
  "in_phases E failed t \<longleftrightarrow> (\<exists>p q r. t = p @ Server_cert_get # q @ Bt_enable # r
     \<and> (\<forall>x \<in> set p. network_call x) \<and> Client_create \<in> set p \<and> Client_register True \<in> set p
     \<and> (\<forall>x \<in> set q. \<exists>crt. x = X509_parse crt)
     \<and> (failed \<longleftrightarrow> ret E (p @ Server_cert_get # q) Bt_enable \<noteq> 0) \<and> (failed \<longrightarrow> r = []))"

definition failed :: "('w, 's) app_scheme \<Rightarrow> bool" where
  "failed s \<longleftrightarrow> (\<exists>err. err \<noteq> 0 \<and> main_at s = Returned err)"

definition app_ok :: "'e env_scheme \<Rightarrow> ('a ext_world_scheme, 's) app_scheme \<Rightarrow> bool \<Rightarrow> bool" where
  "app_ok E s b \<longleftrightarrow> connected s \<le> 1
     \<and> (Client_register True \<in> set (trace (gw s)) \<longrightarrow> client s)
     \<and> (client s \<longrightarrow> Client_create \<in> set (trace (gw s)))
     \<and> (main_at s = At_network \<longrightarrow> \<not> client s \<and> Lte_connect \<notin> set (trace (gw s)))
     \<and> (0 < connected s \<or> b \<or> main_at s \<noteq> At_network \<and> main_at s \<noteq> At_connected
          \<longrightarrow> Client_register True \<in> set (trace (gw s)))
     \<and> (if early s then \<forall>x \<in> set (trace (gw s)). network_call x else in_phases E (failed s) (trace (gw s)))
     \<and> (b \<longrightarrow> connected s = 1 \<or> refreshing s \<or> failed s)
     \<and> main_at s \<noteq> Returned 0"

lemma in_phases_more:
  assumes "in_phases E False t"
  shows "in_phases E False (t @ xs)"
proof -
  from assms obtain p q r where t: "t = p @ Server_cert_get # q @ Bt_enable # r"
    and ok: "\<forall>x \<in> set p. network_call x" "Client_create \<in> set p" "Client_register True \<in> set p"
      "\<forall>x \<in> set q. \<exists>crt. x = X509_parse crt" "ret E (p @ Server_cert_get # q) Bt_enable = 0"
    unfolding in_phases_def by auto
  show ?thesis unfolding in_phases_def
    by (rule exI [of _ p], rule exI [of _ q], rule exI [of _ "r @ xs"]) (use t ok in simp)
qed

lemma connect_at: "connect_golioth_client E C (s\<lparr>main_at := m\<rparr>) = (connect_golioth_client E C s)\<lparr>main_at := m\<rparr>"
  by (simp add: connect_golioth_client_def app_call_def ext_call_def Let_def split: option.split)

lemma connect_main_at: "main_at (connect_golioth_client E C s) = main_at s"
  by (cases E C s rule: connect_golioth_client_cases) simp_all

lemma app_ok_idle:
  assumes "connected s = 0" and "\<not> client s" and "\<forall>x \<in> set (trace (gw s)). x = Dhcp_start \<or> x = Lte_connect \<or> x = Net_callback"
    and "m = At_connected \<or> m = At_network \<and> Lte_connect \<notin> set (trace (gw s))"
  shows "app_ok E (s\<lparr>main_at := m\<rparr>) False"
  using assms by (fastforce simp: app_ok_def early_def network_call_def)

lemma app_ok_connect:
  assumes "app_ok E s b" and "\<not> client s"
  shows "app_ok E ((connect_golioth_client E C s)\<lparr>main_at := At_connected\<rparr>) b"
proof (cases E C s rule: connect_golioth_client_cases)
  case none
  with assms show ?thesis by (auto simp: app_ok_def early_def refreshing_def failed_def)
next
  case (created k)
  with assms show ?thesis
    by (auto simp: app_ok_def early_def refreshing_def failed_def network_call_def)
qed

lemma app_ok_boot:
  assumes "cloud E" and "app_boot E s"
  shows "app_ok E (connect_to_cloud E C s) False"
proof -
  note call = app_call_def ext_call_def
  have idle: "app_ok E (s\<lparr>main_at := At_connected\<rparr>) False" "app_ok E ((app_call E Dhcp_start s)\<lparr>main_at := At_connected\<rparr>) False"
    "app_ok E ((app_call E Lte_connect s)\<lparr>main_at := At_connected\<rparr>) False" "app_ok E ((app_call E Net_callback s)\<lparr>main_at := At_network\<rparr>) False"
    using assms(2) by (auto intro!: app_ok_idle simp: app_boot_def call)
  moreover have "\<not> client s" using assms(2) by (simp add: app_boot_def)
  ultimately show ?thesis
    using assms(1) app_ok_connect [OF idle(1), of C] app_ok_connect [OF idle(2), of C]
    by (auto simp: connect_to_cloud_def wait_for_network_def connect_at call)
qed

text \<open>Once Bluetooth is up, everything else is free to happen.\<close>

lemma app_ok_late:
  assumes ok: "app_ok E s b" and up: "bt_up s"
    and s': "trace (gw s') = trace (gw s) @ xs" "connected s' \<le> 1" "client s' = client s"
      "main_at s' = At_event \<or> main_at s' = At_refresh" "b' \<Longrightarrow> connected s' = 1 \<or> main_at s' = At_refresh"
  shows "app_ok E s' b'"
proof -
  have "main_at s = At_event \<or> main_at s = At_refresh" using ok up by (auto simp: app_ok_def bt_up_def)
  then have "\<not> early s" "\<not> failed s" "main_at s \<noteq> At_network" "main_at s \<noteq> At_connected" by (auto simp: early_def failed_def)
  moreover from s'(4) have "\<not> early s'" "\<not> failed s'" by (auto simp: early_def failed_def)
  moreover from ok calculation have "in_phases E False (trace (gw s))" "Client_register True \<in> set (trace (gw s))"
    by (auto simp: app_ok_def)
  ultimately show ?thesis
    using ok s' in_phases_more [of E "trace (gw s)" xs] by (auto simp: app_ok_def refreshing_def)
qed

lemma refresh_trace:
  assumes "cloud E" and "cert_module_on_connected E w = Inr w'"
  shows "\<exists>q. trace w' = trace w @ Server_cert_get # q \<and> (\<forall>x \<in> set q. \<exists>crt. x = X509_parse crt)"
  using assms by (auto simp: cert_module_on_connected_def server_crt_update_def ext_call_def Let_def bnd_simps split: if_splits)

lemma app_ok_startup:
  assumes "startup E s = Inr s'" and "app_ok E s b" and "main_at s = At_startup" and "cloud E"
  shows "app_ok E s' False"
proof -
  from assms(1) obtain w where w: "cert_module_on_connected E (gw s) = Inr w"
    by (auto simp: startup_def elim!: bnd_InrE)
  from refresh_trace [OF assms(4) w] obtain q where q: "trace w = trace (gw s) @ Server_cert_get # q"
    "\<forall>x \<in> set q. \<exists>crt. x = X509_parse crt" by blast
  define err where "err = ret E (trace w) Bt_enable"
  have s': "connected s' = connected s" "client s' = client s"
    "trace (gw s') = trace w @ Bt_enable # (if err = 0 then [Scan_start] else [])"
    "main_at s' = (if err = 0 then At_event else Returned err)"
    using assms(1,4) w by (auto simp: startup_def err_def ext_call_def scan_start_def Let_def split: if_splits)
  have p: "\<forall>x \<in> set (trace (gw s)). network_call x" "Client_register True \<in> set (trace (gw s))" "client s"
    "Client_create \<in> set (trace (gw s))" "connected s \<le> 1"
    using assms(2,3) by (auto simp: app_ok_def early_def)
  have "in_phases E (err \<noteq> 0) (trace (gw s'))"
    unfolding in_phases_def
    by (rule exI [of _ "trace (gw s)"], rule exI [of _ q], rule exI [of _ "if err = 0 then [Scan_start] else []"])
      (use p q in \<open>simp add: s' err_def\<close>)
  with p q s' show ?thesis by (auto simp: app_ok_def early_def failed_def)
qed

lemma app_ok_main:
  assumes "main_step E C s = Some (Inr s')" and "app_ok E s b" and "cloud E"
  shows "app_ok E s' (b \<and> \<not> refreshing s)"
proof (cases "main_at s")
  case At_network
  with assms(1) obtain n where "s' = (connect_golioth_client E C (s\<lparr>network_connected := n\<rparr>))\<lparr>main_at := At_connected\<rparr>"
    by (auto simp: main_step_def)
  moreover have "app_ok E (s\<lparr>network_connected := n\<rparr>) b" "\<not> client s"
    using assms(2) At_network by (auto simp: app_ok_def early_def refreshing_def failed_def)
  ultimately show ?thesis
    using app_ok_connect [of E "s\<lparr>network_connected := n\<rparr>" b C] At_network by (simp add: refreshing_def)
next
  case At_connected
  with assms show ?thesis
    by (auto simp: main_step_def sem_take_def app_ok_def early_def refreshing_def split: if_splits)
next
  case At_startup
  with assms app_ok_startup show ?thesis by (fastforce simp: main_step_def refreshing_def)
next
  case At_event
  with assms(1,2) show ?thesis
    by (intro app_ok_late [OF assms(2), of s' "[]"])
      (auto simp: main_step_def sem_take_def bt_up_def app_ok_def split: if_splits)
next
  case At_refresh
  with assms(1) obtain w where w: "cert_module_on_connected E (gw s) = Inr w" "s' = s\<lparr>gw := w, main_at := At_event\<rparr>"
    by (auto simp: main_step_def elim!: bnd_InrE)
  from refresh_trace [OF assms(3) w(1)] obtain q where q: "trace w = trace (gw s) @ Server_cert_get # q"
    "\<forall>x \<in> set q. \<exists>crt. x = X509_parse crt" by blast
  show ?thesis
    by (rule app_ok_late [OF assms(2), of s' "Server_cert_get # q"])
      (use At_refresh w q assms(2) in \<open>auto simp: bt_up_def app_ok_def refreshing_def list_all_iff\<close>)
qed (use assms(1) in \<open>simp add: main_step_def\<close>)

lemma app_ok_step:
  assumes "app_step E U A C (s, b) (s', b')" and "app_ok E s b" and "cloud E"
  shows "app_ok E s' b'"
  using assms(1)
proof cases
  case step_main
  with app_ok_main assms(2,3) show ?thesis by blast
next
  case (step_client ev)
  with assms(2) show ?thesis
    by (auto simp: app_ok_def on_client_event_def sem_give_def early_def refreshing_def failed_def)
next
  case (step_lte ev)
  show ?thesis
  proof (cases "client s")
    case False
    with assms(2) step_lte have "main_at s = At_connected" by (auto simp: app_ok_def)
    then have "(connect_golioth_client E C s)\<lparr>main_at := At_connected\<rparr> = connect_golioth_client E C s"
      by (metis connect_at app.surjective app.update_convs(5))
    with app_ok_connect [OF assms(2) False, of C] assms(2) step_lte False show ?thesis
      by (auto simp: lte_handler_def split: lte_evt.split)
  qed (use assms(2) step_lte in \<open>auto simp: lte_handler_def split: lte_evt.split\<close>)
next
  case (step_network ev)
  with assms(2) show ?thesis
    by (auto simp: app_ok_def net_mgmt_cb_def early_def refreshing_def failed_def split: net_event.split)
next
  case (step_radio w')
  from typed_glue.step_keeps [OF step_radio(4) typed_refl] obtain xs where
    "trace w' = trace (gw s) @ xs"
    unfolding typed_since_def by blast
  then show ?thesis
    by (intro app_ok_late [OF assms(2) step_radio(3), of s' xs])
      (use step_radio(1,2,3) assms(2) in \<open>auto simp: app_ok_def bt_up_def refreshing_def failed_def\<close>)
qed

lemma app_ok_reach: "app_reach E U A C s b \<Longrightarrow> cloud E \<Longrightarrow> app_ok E s b"
  by (induction rule: app_reach.induct) (auto intro: app_ok_boot app_ok_step)

subsection \<open>Without credentials\<close>

definition no_credentials :: "app_cfg \<Rightarrow> bool" where
  "no_credentials C \<longleftrightarrow> (\<forall>t i k. credentials C t = Some (i, k) \<longrightarrow> i = 0 \<or> k = 0)"

lemma no_client: "no_credentials C \<Longrightarrow> connect_golioth_client E C s = s"
  by (auto simp: connect_golioth_client_def no_credentials_def split: option.split)

lemma no_credentials_reach:
  assumes "app_reach E U A C s b" and "cloud E" and bad: "no_credentials C"
  shows "set (trace (gw s)) \<subseteq> {Lte_connect, Dhcp_start, Net_callback}
    \<and> (main_at s = At_network \<or> main_at s = At_connected) \<and> connected s = 0"
  using assms(1)
proof induction
  case (reach_main s)
  then show ?case
    using assms(2)
    by (auto simp: no_client [OF bad] connect_to_cloud_def wait_for_network_def app_boot_def app_call_def ext_call_def)
next
  case (reach_step s b s' b')
  note idle = reach_step(3) no_client [OF bad]
  from reach_step(2) show ?case
  proof cases
    case step_main
    with idle show ?thesis
      by (cases "main_at s") (fastforce simp: main_step_def sem_take_def no_client [OF bad] split: if_splits)+
  next
    case (step_lte ev)
    with idle show ?thesis
      by (cases ev) (simp_all add: lte_handler_def no_client [OF bad])
  next
    case (step_network ev)
    with idle show ?thesis by (cases ev) (simp_all add: net_mgmt_cb_def)
  qed (use idle in \<open>auto simp: bt_up_def\<close>)
qed

subsection \<open>The properties\<close>

text \<open>
  C3: whatever the nodes, the cloud and the platform do after boot, in every order of steps of main,
  events of the client and the network, advertisements, connections, GATT callbacks,
  acknowledgements and blocks, as long as no entry hits a fault: the pool hands out at most its
  number of blocks, all of them well formed; no block is held by two downlinks, and every block a
  downlink holds is live; the uplink blocks alive are those the live uplinks hold, so none is left
  when no uplink is; and every certificate stays inside its buffer.
\<close>

theorem gateway_keeps_invariants:
  assumes "app_reach E U A C s b" and "max_block_size E < 2 ^ 31"
  defines "w \<equiv> gw s"
  shows "slab_used w = card (dom (slab w)) \<and> slab_used w \<le> num_blocks E
    \<and> (\<forall>a x. slab w a = Some x \<longrightarrow> wf_block E x)
    \<and> (\<forall>a d. downlinks w a = Some d \<longrightarrow> distinct (held d) \<and> set (held d) \<subseteq> dom (slab w))
    \<and> (\<forall>a d a' d'. downlinks w a = Some d \<longrightarrow> downlinks w a' = Some d' \<longrightarrow> a \<noteq> a'
         \<longrightarrow> set (held d) \<inter> set (held d') = {})
    \<and> pblocks_live w = (\<Sum>a \<in> dom (uplinks w). own_blocks (the (uplinks w a)))
    \<and> server_crt_len w \<le> length (server_crt_buf w)
    \<and> server_crt_serial_len w \<le> length (server_crt_serial w)
    \<and> (\<forall>a c. device_ctxs w a = Some c \<longrightarrow> dc_len c \<le> length (dc_buf c))"
proof -
  have inv: "dl_inv E w" "up_mem w" "mem_ok E w"
    using inv_app.app_inv [OF gw_inv_booted [OF _ assms(2)] assms(1)] by (simp_all add: w_def gw_inv_def owners_ok_def)
  have "\<forall>a d. downlinks w a = Some d \<longrightarrow> distinct (held d) \<and> set (held d) \<subseteq> dom (slab w)"
    using dl_invD(3) [OF inv(1)] by (auto simp: wf_downlink_def)
  then show ?thesis
    using dl_invD(1) [OF inv(1)] dl_invD(4) [OF inv(1)] up_memD(3) [OF inv(2)] inv(3)
    by (auto simp: slab_inv_def mem_ok_def device_ctx_ok_def)
qed

text \<open>
  C20: in every run of the gateway, each discovery, write and subscribe request carries the member of
  the parameter union that belongs to it, with a callback of its kind, and a subscription names the
  descriptor it writes to.  (Reads and unsubscriptions do not: see the properties on the union.)
\<close>

theorem requests_well_typed:
  assumes "app_reach E U A C s b" and "x \<in> set (trace (gw s))"
  shows "case x of
      Gatt_discover c p \<Rightarrow> (\<exists>cb ty h e u. p = Discover_params cb ty h e u \<and> request_pair cb ty)
    | Gatt_write c p \<Rightarrow> (\<exists>cb h bs. p = Write_params cb h bs
        \<and> (cb = Cb_server_cert_write_response \<or> cb = Cb_downlink_write_response))
    | Gatt_subscribe c p \<Rightarrow> (\<exists>h ccc. p = Subscribe_params Cb_uplink_indicate h ccc \<and> ccc \<noteq> 0)
    | _ \<Rightarrow> True"
proof -
  have "requests_ok (gw s)"
    by (rule requests_app.app_inv [OF _ assms(1)]) (simp add: requests_ok_def)
  with assms(2) have "call_typed x \<or> network_call x \<or> x = Bt_enable"
    by (auto simp: requests_ok_def)
  then show ?thesis
    by (cases x) (auto simp: network_call_def split: gatt_params.splits)
qed

text \<open>
  C13: no connection of the client goes unnoticed.  When one has been reported since main last began to
  fetch the server certificate, main is about to fetch it, or its next step gets it there: the
  semaphore keeps the event while main is busy, and several events are served by one fetch.  The
  only exception is a gateway whose Bluetooth could not be enabled, where main has returned.
\<close>

theorem client_connection_is_served:
  assumes "app_reach E U A C s True" and "cloud E"
  shows "main_at s = At_startup \<or> main_at s = At_refresh
    \<or> (\<exists>s'. main_step E C s = Some (Inr s') \<and> gw s' = gw s \<and> (main_at s' = At_startup \<or> main_at s' = At_refresh))
    \<or> (\<exists>err. err \<noteq> 0 \<and> main_at s = Returned err)"
proof -
  have ok: "app_ok E s True" by (rule app_ok_reach [OF assms])
  show ?thesis
  proof (cases "refreshing s \<or> failed s")
    case False
    with ok have "connected s = 1" "main_at s \<noteq> At_network" "main_at s \<noteq> Returned 0" by (auto simp: app_ok_def)
    with False show ?thesis
      by (cases "main_at s") (auto simp: main_step_def sem_take_def refreshing_def failed_def)
  qed (auto simp: refreshing_def failed_def)
qed

text \<open>
  C18: with the cloud configured, Bluetooth waits for it.  Until main has seen the client connected
  nothing but the network and the client has been called; from then on the calls begin with a
  client that was created and registered, a fetch of the server certificate, at most parsing it,
  and the enabling of Bluetooth - and end there if that failed.
\<close>

theorem bluetooth_waits_for_cloud:
  assumes "app_reach E U A C s b" and "cloud E"
  shows "if main_at s = At_network \<or> main_at s = At_connected \<or> main_at s = At_startup
    then \<forall>x \<in> set (trace (gw s)). network_call x
    else \<exists>p q r. trace (gw s) = p @ Server_cert_get # q @ Bt_enable # r
      \<and> (\<forall>x \<in> set p. network_call x) \<and> Client_create \<in> set p \<and> Client_register True \<in> set p
      \<and> (\<forall>x \<in> set q. \<exists>crt. x = X509_parse crt)
      \<and> (ret E (p @ Server_cert_get # q) Bt_enable \<noteq> 0 \<longrightarrow> r = [])"
proof -
  from app_ok_reach [OF assms] have "if early s then \<forall>x \<in> set (trace (gw s)). network_call x
      else in_phases E (failed s) (trace (gw s))"
    unfolding app_ok_def by blast
  then show ?thesis
    by (cases "early s") (simp_all add: early_def in_phases_def, blast)
qed

text \<open>
  Without credentials (none stored, or an empty identity or key) the gateway never creates a
  client, and main waits for it for ever: nothing but the network is ever called, main stays before
  the first fetch of the certificate, and while it waits for the client no step of it is possible.
\<close>

theorem missing_credentials_block_main:
  assumes "no_credentials C"
    and "app_reach E U A C s b" and "cloud E"
  shows "set (trace (gw s)) \<subseteq> {Lte_connect, Dhcp_start, Net_callback} \<and> (main_at s = At_network \<or> main_at s = At_connected)
    \<and> (main_at s = At_connected \<longrightarrow> main_step E C s = None)"
  using no_credentials_reach [OF assms(2,3,1)] by (auto simp: main_step_def sem_take_def)

subsection \<open>The gateway in \<open>small_env\<close>\<close>

text \<open>An Ethernet gateway with credentials; then one whose key is empty.\<close>

definition small_cfg :: app_cfg where
  "small_cfg = \<lparr>nrf_modem = False, ethernet_dhcp = True, modem_hl7800 = False, credentials = (\<lambda>_. Some (4, 16))\<rparr>"

definition keyless_cfg :: app_cfg where
  "keyless_cfg = small_cfg\<lparr>credentials := (\<lambda>_. Some (4, 0))\<rparr>"

definition small_boot :: "gw_world app" where
  "small_boot = \<lparr>gw = gw_boot\<lparr>nodes := (\<lambda>_. zero_node)\<rparr>, connected = 0, network_connected = 0, client = False, main_at = At_connected\<rparr>"

lemma small_boot_ok: "app_boot small_env small_boot"
  by (simp add: app_boot_def small_boot_def booted_def gw_boot_def)

text \<open>The client connects, main comes up, a node connects, and the client reconnects.\<close>

definition small_started :: "gw_world app" where
  "small_started = connect_to_cloud small_env small_cfg small_boot"

lemma small_started_eq: "small_started = small_boot\<lparr>gw := (gw small_boot)\<lparr>trace := [Dhcp_start, Client_create, Client_register True]\<rparr>,
    client := True, main_at := At_connected\<rparr>"
  by (simp add: small_started_def connect_to_cloud_def connect_golioth_client_def small_cfg_def app_call_def small_boot_def
      gw_boot_def ext_call_def)

definition small_up :: "gw_world app" where
  "small_up = (case startup small_env (small_started\<lparr>main_at := At_startup\<rparr>) of Inr s \<Rightarrow> s | Inl e \<Rightarrow> small_boot)"

lemma small_up_step: "startup small_env (small_started\<lparr>main_at := At_startup\<rparr>) = Inr small_up"
  "main_at small_up = At_event" "connected small_up = 0" "server_crt_len (gw small_up) = 5"
  "trace (gw small_up) = [Dhcp_start, Client_create, Client_register True, Server_cert_get, X509_parse [1, 2, 3, 4, 5],
     Bt_enable, Scan_start]"
  "downlinks (gw small_up) = Map.empty" "uplinks (gw small_up) = Map.empty"
  by (auto simp: small_up_def startup_def small_started_eq small_boot_def cert_module_on_connected_def server_crt_update_def
      ext_call_def gw_boot_def poke_def peek_def bnd_simps Let_def scan_start_def)

lemma small_up_reach: "app_reach small_env U A small_cfg small_up False"
proof -
  have start: "app_reach small_env U A small_cfg small_started False"
    unfolding small_started_def by (rule reach_main [OF small_boot_ok])
  define s1 where "s1 = on_client_event CLIENT_EVENT_CONNECTED small_started"
  have "app_step small_env U A small_cfg (small_started, False) (s1, False \<or> True)"
    using step_client [of small_started small_env U A small_cfg False CLIENT_EVENT_CONNECTED]
    by (simp add: s1_def small_started_eq small_boot_def gw_boot_def)
  from reach_step [OF start this] have s1: "app_reach small_env U A small_cfg s1 True" by simp
  have "main_step small_env small_cfg s1 = Some (Inr (small_started\<lparr>main_at := At_startup\<rparr>))"
    by (simp add: s1_def main_step_def sem_take_def on_client_event_def sem_give_def small_started_eq small_boot_def)
  from reach_step [OF s1 step_main [OF this]]
  have "app_reach small_env U A small_cfg (small_started\<lparr>main_at := At_startup\<rparr>) True"
    by (simp add: s1_def refreshing_def on_client_event_def small_started_eq small_boot_def)
  from reach_step [OF this step_main] show ?thesis
    using small_up_step(1) by (simp add: main_step_def refreshing_def)
qed

definition small_busy :: "gw_world app" where
  "small_busy = small_up\<lparr>gw := bt_connected small_env small_uuids 0 0 (gw small_up)\<rparr>"

lemma small_busy_reach: "app_reach small_env small_uuids A small_cfg small_busy False"
  using reach_step [OF small_up_reach step_radio [OF _ step_connected]] small_up_step(2)
  by (simp add: small_busy_def bt_up_def)

lemma small_busy_trace: "trace (gw small_busy) = trace (gw small_up) @
    [Gatt_discover 0 (Discover_params Cb_discover_services Discover_primary 1 0xFFFF (Some 1))]"
  by (simp add: small_busy_def bt_connected_def bt_start_def discover_def ext_call_def set_node_def Let_def)

lemma small_event_reach: "app_reach small_env small_uuids A small_cfg (small_busy\<lparr>connected := 1\<rparr>) True"
  using reach_step [OF small_busy_reach step_client [where ev = CLIENT_EVENT_CONNECTED]] small_up_step(3)
  by (simp add: small_busy_trace small_up_step(5)) (simp add: on_client_event_def sem_give_def small_busy_def)

theorem gateway_keeps_invariants_witness:
  "server_crt_len (gw small_busy) = 5 \<and> slab_used (gw small_busy) \<le> 3
     \<and> server_crt_len (gw small_busy) \<le> length (server_crt_buf (gw small_busy))"
  using gateway_keeps_invariants [OF small_busy_reach [of upper_adv]] small_up_step(4)
  by (auto simp: small_busy_def bt_connected_def bt_start_def discover_def ext_call_def set_node_def Let_def)

theorem requests_well_typed_witness:
  "Gatt_discover 0 (Discover_params Cb_discover_services Discover_primary 1 0xFFFF (Some 1)) \<in> set (trace (gw small_busy))
     \<and> request_pair Cb_discover_services Discover_primary"
proof -
  have "Gatt_discover 0 (Discover_params Cb_discover_services Discover_primary 1 0xFFFF (Some 1)) \<in> set (trace (gw small_busy))"
    by (simp add: small_busy_trace)
  with requests_well_typed [OF small_busy_reach [of upper_adv] this] show ?thesis by simp
qed

theorem client_connection_is_served_witness:
  "\<exists>s'. main_step small_env small_cfg (small_busy\<lparr>connected := 1\<rparr>) = Some (Inr s') \<and> main_at s' = At_refresh"
proof -
  have at: "main_at (small_busy\<lparr>connected := 1\<rparr>) = At_event"
    using small_up_step(2) by (simp add: small_busy_def)
  then have "main_step small_env small_cfg (small_busy\<lparr>connected := 1\<rparr>) = Some (Inr s')
      \<Longrightarrow> main_at s' \<noteq> At_startup" for s'
    by (auto simp: main_step_def)
  with client_connection_is_served [OF small_event_reach [of upper_adv]] at show ?thesis by auto
qed

theorem bluetooth_waits_for_cloud_witness:
  "main_at small_busy = At_event \<and> (\<exists>p q r. trace (gw small_busy) = p @ Server_cert_get # q @ Bt_enable # r
     \<and> Client_register True \<in> set p)"
proof -
  have at: "main_at small_busy = At_event" using small_up_step(2) by (simp add: small_busy_def)
  with bluetooth_waits_for_cloud [OF small_busy_reach [of upper_adv]] show ?thesis by auto
qed

theorem missing_credentials_block_main_witness:
  "main_step small_env keyless_cfg (connect_to_cloud small_env keyless_cfg small_boot) = None
     \<and> trace (gw (connect_to_cloud small_env keyless_cfg small_boot)) = [Dhcp_start]"
proof -
  have none: "no_credentials keyless_cfg" by (simp add: no_credentials_def keyless_cfg_def)
  have "\<not> nrf_modem keyless_cfg" "ethernet_dhcp keyless_cfg" by (simp_all add: keyless_cfg_def small_cfg_def)
  then have "main_at (connect_to_cloud small_env keyless_cfg small_boot) = At_connected"
    "trace (gw (connect_to_cloud small_env keyless_cfg small_boot)) = [Dhcp_start]"
    by (simp_all add: connect_to_cloud_def no_client [OF none] app_call_def small_boot_def gw_boot_def ext_call_def)
  with missing_credentials_block_main [OF none reach_main [OF small_boot_ok, of small_uuids upper_adv]] show ?thesis
    by simp
qed

end
