(* ===== verification/Abandoned.thy ===== *)
theory Abandoned
  imports Connect_Props
begin

text \<open>
  Contexts that are never given back: a download abandoned after the cloud has delivered its last
  block, and every uplink of a gateway built without the cloud.
\<close>

lemma response_error:
  assumes inv: "dl_inv E w" and wired: "wired c a p m w" and d: "downlinks w a = Some d" and "\<not> complete d" and "err \<noteq> 0"
  shows "\<exists>w1. downlink_write_response_cb E c err w = Inr w1
    \<and> downlinks w1 = (downlinks w)(a \<mapsto> d\<lparr>aborted := True\<rparr>) \<and> slab w1 = slab w \<and> slab_used w1 = slab_used w
    \<and> dl_inv E w1 \<and> downlink_scratch (nodes w1 c) = downlink_scratch (nodes w c) \<and> scratches w1 = scratches w
    \<and> node_uplink (nodes w1 c) = node_uplink (nodes w c)"
proof -
  have run: "downlink_abort (Some a) w = Inr (put_downlink a (d\<lparr>aborted := True\<rparr>) w)"
    using d assms(4) by (simp add: downlink_abort_def downlink_is_complete_def)
  from dl_inv_flag(1) [OF inv d] show ?thesis
    using wired assms(5)
    by (auto simp: run wired_def downlink_write_response_cb_def downlink_give_up_def packetizer_finish_def bt_finished_def
        put_downlink_def ext_call_def Let_def intro: dl_inv_frame)
qed

lemma disconnect_keeps:
  assumes "dl_inv E w" and "node_uplink (nodes w c) = NULL" and "downlink_scratch (nodes w c) = Some b" and "scratches w b = Some n"
  shows "\<exists>w1. bt_disconnected E c w = Inr w1 \<and> downlinks w1 = downlinks w \<and> slab w1 = slab w
    \<and> slab_used w1 = slab_used w \<and> dl_inv E w1"
  using assms
  by (auto simp: bt_disconnected_def bt_stop_def uplink_cleanup_def downlink_cleanup_def free_scratch_def
      scan_start_def ext_call_def Let_def intro: dl_inv_frame)

lemma connect_keeps:
  "downlinks (bt_connected E U c 0 w) = downlinks w" "slab (bt_connected E U c 0 w) = slab w"
  "slab_used (bt_connected E U c 0 w) = slab_used w" "next_addr (bt_connected E U c 0 w) = next_addr w"
  "downlink_ctx (nodes (bt_connected E U c 0 w) c) = NULL"
  by (simp_all add: bt_connected_def bt_start_def discover_def ext_call_def bt_finished_def set_node_def zero_node_def Let_def)

text \<open>
  C32: a download abandoned by its node never gives its blocks back.  When a write to the node fails,
  the context is only marked, for the next block from the cloud to release it; if the last block
  has been delivered there is no next one.  The node disconnects and connects again: context and
  blocks are still allocated, the record no longer points to them, and if they were the rest of the
  pool, the next block of every other download is refused and that download given up.
\<close>

theorem abandoned_download_shrinks_pool:
  assumes "dl_inv E w" and wired: "wired c a p m w" and "downlinks w a = Some d" and "\<not> complete d"
    and "node_uplink (nodes w c) = NULL" and "err \<noteq> 0"
  shows "\<exists>w1 w2 w3. downlink_write_response_cb E c err w = Inr w1 \<and> bt_disconnected E c w1 = Inr w2
    \<and> w3 = bt_connected E U c 0 w2
    \<and> slab w3 = slab w \<and> downlinks w3 = (downlinks w)(a \<mapsto> d\<lparr>aborted := True\<rparr>) \<and> downlink_ctx (nodes w3 c) = NULL
    \<and> (num_blocks E \<le> slab_used w \<longrightarrow> (\<forall>a' d' cb src lst. downlinks w a' = Some d' \<longrightarrow> a' \<noteq> a \<longrightarrow> \<not> aborted d' \<longrightarrow>
         (\<exists>w4. downlink_block_cb E cb src lst (Some a') w3 = Inr (GOLIOTH_ERR_MEM_ALLOC, w4) \<and> downlinks w4 a' = None)))"
proof -
  from wired obtain b n where b: "downlink_scratch (nodes w c) = Some b" "scratches w b = Some n"
    by (auto simp: wired_def)
  from response_error [OF assms(1-4,6)] obtain w1 where w1: "downlink_write_response_cb E c err w = Inr w1"
    "downlinks w1 = (downlinks w)(a \<mapsto> d\<lparr>aborted := True\<rparr>)" "slab w1 = slab w" "slab_used w1 = slab_used w" "dl_inv E w1"
    "downlink_scratch (nodes w1 c) = downlink_scratch (nodes w c)" "scratches w1 = scratches w"
    "node_uplink (nodes w1 c) = node_uplink (nodes w c)" by blast
  from disconnect_keeps [OF w1(5), of c b n] w1 b assms(5) obtain w2 where w2: "bt_disconnected E c w1 = Inr w2"
    "downlinks w2 = downlinks w1" "slab w2 = slab w1" "slab_used w2 = slab_used w1" "dl_inv E w2" by auto
  define w3 where "w3 = bt_connected E U c 0 w2"
  have inv3: "dl_inv E w3" by (rule dl_inv_frame [OF w2(5)]) (simp_all add: w3_def connect_keeps)
  have full: "\<exists>w4. downlink_block_cb E cb src lst (Some a') w3 = Inr (GOLIOTH_ERR_MEM_ALLOC, w4) \<and> downlinks w4 a' = None"
    if "num_blocks E \<le> slab_used w" "downlinks w a' = Some d'" "a' \<noteq> a" "\<not> aborted d'" for a' d' cb src lst
    using block_cb_give_up [OF inv3, of a' d' cb src lst] that w1 w2 by (auto simp: w3_def connect_keeps)
  show ?thesis
    by (rule exI [of _ w1], rule exI [of _ w2], rule exI [of _ w3])
      (use w1 w2 full in \<open>auto simp: w3_def connect_keeps\<close>)
qed

text \<open>
  One block of the pool of one is queued for node 0, whose write fails; then the download of node 1
  is refused.
\<close>

definition one_block_env :: env where
  "one_block_env = small_env\<lparr>num_blocks := 1\<rparr>"

definition gw_queued :: gw_world where
  "gw_queued = gw_wired\<lparr>slab := [3 \<mapsto> \<lparr>user_data = NULL, is_last_flag = True, len = 1, data = [7, 0, 0, 0]\<rparr>], slab_used := 1,
     next_addr := 5, downlinks := [1 \<mapsto> (new_downlink 0)\<lparr>block_queue := [3]\<rparr>, 4 \<mapsto> new_downlink 1]\<rparr>"

lemma gw_queued_inv: "dl_inv one_block_env gw_queued" "wired 0 1 2 23 gw_queued"
  by (auto simp: gw_queued_def gw_wired_def gw_boot_def one_block_env_def dl_inv_def slab_inv_def fresh_above_def wired_def
      wf_downlink_def wf_block_def held_def new_downlink_def)

theorem abandoned_download_shrinks_pool_witness:
  "\<exists>w1 w2. downlink_write_response_cb one_block_env 0 1 gw_queued = Inr w1 \<and> bt_disconnected one_block_env 0 w1 = Inr w2
     \<and> (\<exists>w4. downlink_block_cb one_block_env (\<lambda>_ w. Inr w) [1] False (Some 4) (bt_connected one_block_env small_uuids 0 0 w2)
          = Inr (GOLIOTH_ERR_MEM_ALLOC, w4))"
proof -
  have q: "downlinks gw_queued 1 = Some ((new_downlink 0)\<lparr>block_queue := [3]\<rparr>)" "downlinks gw_queued 4 = Some (new_downlink 1)"
    "node_uplink (nodes gw_queued 0) = NULL" "num_blocks one_block_env \<le> slab_used gw_queued"
    by (simp_all add: gw_queued_def gw_wired_def gw_boot_def one_block_env_def zero_node_def)
  have "\<not> complete ((new_downlink 0)\<lparr>block_queue := [3]\<rparr>)" "\<not> aborted (new_downlink 1)" by (simp_all add: new_downlink_def)
  with abandoned_download_shrinks_pool [OF gw_queued_inv q(1) _ q(3), of 1 small_uuids] q(2,4) show ?thesis by fastforce
qed

text \<open>
  C34: a gateway built without the cloud keeps every uplink for ever.  It receives the uplink of a
  node all the same, but no block is ever handed over and so none is acknowledged: when the
  connection ends, the closed uplink keeps the block it took for sending and all others, no
  further close frees it, and the node record no longer points to it.
\<close>

theorem uplink_without_cloud_leaks:
  assumes "\<not> cloud E" and "node_uplink (nodes w c) = Some a" and "uplinks w a = Some u" and "wblock u = Some b"
    and "\<not> up_closed u" and "up_sending u \<longleftrightarrow> rblock u \<noteq> None"
  shows "\<exists>w' u'. uplink_cleanup E c w = Inr w' \<and> node_uplink (nodes w' c) = NULL \<and> trace w' = trace w
    \<and> uplinks w' a = Some u' \<and> own_blocks u' = own_blocks u \<and> (\<forall>ecb. uplink_close E ecb (Some a) w' = Inr w')"
proof -
  let ?u = "u\<lparr>up_closed := True, up_queue := up_queue u @ [b], wblock := None\<rparr>"
  obtain d q where q: "up_queue u @ [b] = d # q" by (cases "up_queue u") auto
  define u' where "u' = (if up_sending u then ?u else ?u\<lparr>up_sending := True, up_queue := q, rblock := Some d\<rparr>)"
  define w' where "w' = set_node c (node_uplink_update (\<lambda>_. NULL)) (put_uplink a u' w)"
  have "process_uplink E ecb (Some a) (put_uplink a ?u w) = Inr (put_uplink a u' w)" for ecb
    using assms(1) q by (simp add: process_uplink_def u'_def Let_def)
  then have "uplink_cleanup E c w = Inr w'"
    using assms(2) by (simp add: uplink_cleanup_def w'_def close_open [OF assms(3-5)])
  moreover have "own_blocks u' = own_blocks u"
    using arg_cong [OF q, of length] assms(4,6) by (simp add: own_blocks_def u'_def)
  moreover have "uplinks w' a = Some u'" "up_closed u'" "up_sending u'" by (simp_all add: w'_def u'_def)
  ultimately show ?thesis
    by (intro exI [of _ w'] exI [of _ u']) (simp add: close_again process_busy, simp add: w'_def)
qed

theorem uplink_without_cloud_leaks_witness:
  "\<exists>w' u'. uplink_cleanup (small_env\<lparr>cloud := False\<rparr>) 0
       (gw_up\<lparr>uplinks := [9 \<mapsto> new_uplink 0 0], pblocks_live := 1, nodes := (\<lambda>_. zero_node\<lparr>node_uplink := Some 9\<rparr>)\<rparr>) = Inr w'
     \<and> uplinks w' 9 = Some u' \<and> own_blocks u' = 1"
proof -
  have u: "wblock (new_uplink 0 0) = Some []" "\<not> up_closed (new_uplink 0 0)" "own_blocks (new_uplink 0 0) = 1"
    "up_sending (new_uplink 0 0) \<longleftrightarrow> rblock (new_uplink 0 0) \<noteq> None"
    by (simp_all add: new_uplink_def own_blocks_def)
  from uplink_without_cloud_leaks [of "small_env\<lparr>cloud := False\<rparr>", OF _ _ _ u(1,2,4), where a = 9 and c = 0
      and w = "gw_up\<lparr>uplinks := [9 \<mapsto> new_uplink 0 0], pblocks_live := 1, nodes := (\<lambda>_. zero_node\<lparr>node_uplink := Some 9\<rparr>)\<rparr>"]
  show ?thesis unfolding u(3) by simp blast
qed

end
