(* ===== verification/Shared_Params.thy ===== *)
theory Shared_Params
  imports Gateway_System
begin

text \<open>
  The union of parameter blocks in \<open>struct pouch_gateway_node_info\<close>, where two requests of a
  connection are under way at once: the uplink being received and a write of the downlink.
\<close>

subsection \<open>What the two directions leave alone\<close>

definition keeps_params :: "conn \<Rightarrow> gatt_params \<Rightarrow> 'a gw_world_scheme \<Rightarrow> bool" where
  "keeps_params c prm w \<longleftrightarrow> params (nodes w c) = prm"

interpretation params_up: uplink_calculus E "keeps_params c prm" for E :: "'e env_scheme" and c prm
  by unfold_locales (auto simp: keeps_params_def put_uplink_def set_node_def malloc_def ext_call_def Let_def)

lemma handle_params:
  assumes "handle_uplink_payload E c packet w = Inr (ITER_CONTINUE, w')"
  shows "params (nodes w' c) = params (nodes w c)"
proof -
  from assms obtain payload where "uplink_write E (uplink_end_cb E) (node_uplink (nodes w c)) payload False w = Inr (0, w')"
    by (auto simp: handle_uplink_payload_def bnd_simps split: sum.splits if_splits)
  with keptD [OF params_up.at.up_write this, of c "params (nodes w c)"] show ?thesis by (simp add: keeps_params_def)
qed

definition keeps_uplink :: "(addr \<rightharpoonup> uplink) \<Rightarrow> conn \<Rightarrow> ptr \<Rightarrow> 'a gw_world_scheme \<Rightarrow> bool" where
  "keeps_uplink us c p w \<longleftrightarrow> uplinks w = us \<and> node_uplink (nodes w c) = p"

interpretation uplink_dl: downlink_calculus E "keeps_uplink us c p" for E :: "'e env_scheme" and us c p
  by unfold_locales (auto simp: keeps_uplink_def kept_def put_downlink_def malloc_def ext_call_def block_alloc_def
      block_free_def block_append_def block_mark_last_def bnd_simps Let_def)

lemma write_keeps_uplink:
  assumes "write_downlink_characteristic E c w = Inr (rc, w')" and "packetizers w q = Some (Fill_downlink, arg)"
    and "packetizer (nodes w c) = Some q"
  shows "uplinks w' = uplinks w \<and> node_uplink (nodes w' c) = node_uplink (nodes w c)"
proof -
  let ?I = "keeps_uplink (uplinks w) c (node_uplink (nodes w c))"
  have start: "?I w" by (simp add: keeps_uplink_def)
  have fill: "kept ?I (\<lambda>r. snd (snd r)) (downlink_packet_fill_cb E dst arg w)" for dst
    supply uplink_dl.at.dl_get_data [keeps]
    unfolding downlink_packet_fill_cb_def by (rule start looks keeps kept_any | assumption | simp only: prod.sel)+
  have "kept ?I (\<lambda>r. snd (snd r)) (packetizer_get E (packetizer (nodes w c)) buf n w)" for buf n
    using assms(2,3) by (intro keptI) (auto elim!: packetizer_get_InrD simp: fill_cb_def dest!: keptD [OF fill])
  then have "?I w'"
    using assms(1) start
    by (auto simp: write_downlink_characteristic_def Let_def bnd_simps keeps_uplink_def set_node_def ext_call_def kept_def
        split: if_splits)
  then show ?thesis by (simp add: keeps_uplink_def)
qed

subsection \<open>The property\<close>

text \<open>
  C40: the parameters of the uplink are overwritten while they are in use.  They share their memory
  with those of a write of the downlink, which may go out before the uplink has ended.  From then
  on the uplink hands the parameters of that write to the host: the end of the uplink unsubscribes
  with them, and where the uplink is read, every further read is requested with them.
\<close>

theorem downlink_write_clobbers_uplink:
  assumes "dl_ready E a w" and "wired c a p m w" and "good_link E c m" and "faithful E"
  shows "\<exists>w1 prm out. write_downlink_characteristic E c w = Inr (0, w1)
    \<and> prm = Write_params Cb_downlink_write_response (value_handle w c ATTR_DOWNLINK) out
    \<and> (\<exists>w2. uplink_end_cb E UPLINK_SUCCESS c w1 = Inr w2 \<and> trace w2 = trace w1 @ [Gatt_unsubscribe c prm])
    \<and> (\<forall>packet w2. handle_uplink_payload E c packet w1 = Inr (ITER_CONTINUE, w2) \<longrightarrow>
         (\<exists>w3. uplink_read_cb E c 0 packet w1 = Inr (ITER_STOP, w3) \<and> trace w3 = trace w2 @ [Gatt_read c prm]))"
proof -
  from write_ready [OF assms] obtain w1 out where w1: "write_downlink_characteristic E c w = Inr (0, w1)"
    "params (nodes w1 c) = Write_params Cb_downlink_write_response (value_handle w c ATTR_DOWNLINK) out" by blast
  have "uplink_read_cb E c 0 packet w1 = Inr (ITER_STOP, snd (ext_call E (Gatt_read c (params (nodes w1 c))) w2))"
    if "handle_uplink_payload E c packet w1 = Inr (ITER_CONTINUE, w2)" for packet w2
    using that handle_params [OF that] by (simp add: uplink_read_cb_def)
  with w1 show ?thesis
    by (intro exI [of _ w1] exI [of _ "params (nodes w1 c)"] exI [of _ out]) (auto simp: uplink_end_cb_def Let_def ext_call_def)
qed

text \<open>A node whose uplink is read, with a block of the downlink waiting.\<close>

theorem downlink_write_clobbers_uplink_witness:
  "\<exists>(w :: gw_world) w1 w3 out. params (nodes w 0) = Read_params Cb_uplink_read 5
     \<and> write_downlink_characteristic small_env 0 w = Inr (0, w1) \<and> uplink_read_cb small_env 0 0 [0, 9] w1 = Inr (ITER_STOP, w3)
     \<and> last (trace w3) = Gatt_read 0 (Write_params Cb_downlink_write_response 5 out)"
proof -
  from gw_block [of "[1, 2]" True] obtain w0 :: gw_world and d where
    w0: "downlinks w0 = [1 \<mapsto> d]" "segs w0 d = [([1, 2], True)]" "\<not> complete d" "\<not> aborted d" "dl_inv small_env w0"
      "wired 0 1 2 23 w0" by auto
  define w where "w = put_uplink 9 (new_uplink 1 0) (set_node 0 (\<lambda>n. n\<lparr>params := Read_params Cb_uplink_read 5,
    node_uplink := Some 9, attr_handles := (\<lambda>_. \<lparr>attr_value = 5, attr_ccc = 0\<rparr>)\<rparr>) w0)"
  have "dl_ready small_env 1 w0" using w0 by (simp add: dl_ready_def)
  then have ready: "dl_ready small_env 1 w" by (rule dl_ready_frame(1) [rotated 4]) (simp_all add: w_def put_uplink_def set_node_def)
  have wired: "wired 0 1 2 23 w" using w0(6) by (simp add: w_def wired_def put_uplink_def set_node_def)
  have h: "value_handle w 0 ATTR_DOWNLINK = 5" by (simp add: w_def value_handle_def put_uplink_def set_node_def)
  from downlink_write_clobbers_uplink [OF ready wired small_env_link] obtain w1 prm out where
    w1: "write_downlink_characteristic small_env 0 w = Inr (0, w1)"
      "prm = Write_params Cb_downlink_write_response (value_handle w 0 ATTR_DOWNLINK) out"
      "\<forall>packet w2. handle_uplink_payload small_env 0 packet w1 = Inr (ITER_CONTINUE, w2) \<longrightarrow>
         (\<exists>w3. uplink_read_cb small_env 0 0 packet w1 = Inr (ITER_STOP, w3) \<and> trace w3 = trace w2 @ [Gatt_read 0 prm])"
    by blast
  from wired write_keeps_uplink [OF w1(1), of 2 "Some 1"] have "uplinks w1 9 = Some (new_uplink 1 0)"
    "node_uplink (nodes w1 0) = Some 9"
    by (auto simp: wired_def w_def put_uplink_def set_node_def)
  then have "\<exists>w2. handle_uplink_payload small_env 0 [0, 9] w1 = Inr (ITER_CONTINUE, w2)"
    by (simp add: handle_uplink_payload_def uplink_write_def small_env_def new_uplink_def write_loop.simps process_uplink_def)
  with w1(3) obtain w3 where "uplink_read_cb small_env 0 0 [0, 9] w1 = Inr (ITER_STOP, w3)" "last (trace w3) = Gatt_read 0 prm"
    by fastforce
  moreover have "params (nodes w 0) = Read_params Cb_uplink_read 5" by (simp add: w_def put_uplink_def set_node_def)
  ultimately show ?thesis using w1(1,2) h by metis
qed

end
