(* ===== verification/Conn_Inv.thy ===== *)
theory Conn_Inv
  imports Pointer_Calculus
begin

text \<open>
  What a handler of \<open>lib/bt/\<close> does on behalf of one connection.  Apart from its own record it
  only touches the objects that record points to, and the contexts that name the connection as
  their owner.  The locale states what is needed of those; its lemmas go once through the handlers,
  as \<open>Glue_Inv\<close> does for properties that do not depend on the connection.
\<close>

subsection \<open>Calls on a connection\<close>

fun call_conn :: "ext_call \<Rightarrow> conn option" where
  "call_conn (Gatt_discover c _) = Some c"
| "call_conn (Gatt_read c _) = Some c"
| "call_conn (Gatt_write c _) = Some c"
| "call_conn (Gatt_subscribe c _) = Some c"
| "call_conn (Gatt_unsubscribe c _) = Some c"
| "call_conn (Conn_disconnect c) = Some c"
| "call_conn (Conn_unref c) = Some c"
| "call_conn _ = None"

definition call_by :: "conn \<Rightarrow> ext_call \<Rightarrow> bool" where
  "call_by c x \<longleftrightarrow> call_conn x = None \<or> call_conn x = Some c"

lemma calls_by [keeps]:
  "call_by c (Gatt_discover c p)" "call_by c (Gatt_read c p)" "call_by c (Gatt_write c p)"
  "call_by c (Gatt_subscribe c p)" "call_by c (Gatt_unsubscribe c p)" "call_by c (Conn_disconnect c)"
  "call_by c (Conn_unref c)" "call_by c Scan_start" "call_by c (Packetizer_error q)"
  "call_by c (Packetizer_start q)" "call_by c (Packetizer_finish q)" "call_by c (Device_cert_set bs)"
  by (simp_all add: call_by_def)

subsection \<open>The contract\<close>

locale conn_invariant =
  fixes E :: "'e env_scheme" and c :: conn and I :: "'a gw_world_scheme \<Rightarrow> bool"
    and may :: "'a gw_world_scheme \<Rightarrow> ptr \<Rightarrow> bool" and may_pk :: "'a gw_world_scheme \<Rightarrow> ptr \<Rightarrow> bool"
  assumes may_null: "may w NULL" "may_pk w NULL"
    and may_node: "may w p \<Longrightarrow> may (set_node c f w) p"
    and ci_params: "I w \<Longrightarrow> I (set_node c (params_update pf) w)"
    and ci_handles: "I w \<Longrightarrow> I (set_node c (attr_handles_update hf) w)"
    and ci_clear: "I w \<Longrightarrow> I (set_node c (\<lambda>_. zero_node) w)"
    and ci_set: "I w \<Longrightarrow> may w p \<Longrightarrow> I (set_node c (downlink_ctx_update (\<lambda>_. p)) w)"
      "I w \<Longrightarrow> may w p \<Longrightarrow> I (set_node c (downlink_scratch_update (\<lambda>_. p)) w)"
      "I w \<Longrightarrow> may w p \<Longrightarrow> I (set_node c (server_cert_scratch_update (\<lambda>_. p)) w)"
      "I w \<Longrightarrow> may_pk w p \<Longrightarrow> I (set_node c (packetizer_update (\<lambda>_. p)) w)"
      "I w \<Longrightarrow> may w p \<Longrightarrow> I (set_node c (node_uplink_update (\<lambda>_. p)) w)"
      "I w \<Longrightarrow> may w p \<Longrightarrow> I (set_node c (device_cert_ctx_update (\<lambda>_. p)) w)"
      "I w \<Longrightarrow> may w p \<Longrightarrow> I (set_node c (server_cert_ctx_update (\<lambda>_. p)) w)"
    and ci_call: "I w \<Longrightarrow> call_by c x \<Longrightarrow> I (snd (ext_call E x w))"
    and ci_scratch: "I w \<Longrightarrow> I (snd (gatt_mtu_malloc E c w)) \<and> may (snd (gatt_mtu_malloc E c w)) (fst (gatt_mtu_malloc E c w))"
    and ci_free: "I w \<Longrightarrow> kept I (\<lambda>w. w) (free_scratch (downlink_scratch (nodes w c)) w)"
      "I w \<Longrightarrow> kept I (\<lambda>w. w) (free_scratch (server_cert_scratch (nodes w c)) w)"
    and ci_pk_start: "I w \<Longrightarrow> may w arg \<Longrightarrow> I (snd (packetizer_start E k arg w))
      \<and> may_pk (snd (packetizer_start E k arg w)) (fst (packetizer_start E k arg w))"
    and ci_pk_finish: "I w \<Longrightarrow> kept I (\<lambda>w. w) (packetizer_finish E (packetizer (nodes w c)) w)"
    and ci_dl_open: "I w \<Longrightarrow> I (snd (downlink_open E c w)) \<and> may (snd (downlink_open E c w)) (fst (downlink_open E c w))"
    and ci_dl_read: "I w \<Longrightarrow> packetizer (nodes w c) = Some a \<Longrightarrow> packetizers w a = Some (Fill_downlink, arg)
      \<Longrightarrow> kept I (\<lambda>r. snd (snd (snd (snd r)))) (downlink_get_data E arg dst (length dst) w)"
    and ci_dl_abort: "I w \<Longrightarrow> kept I (\<lambda>w. w) (downlink_abort (downlink_ctx (nodes w c)) w)"
    and ci_dl_close: "I w \<Longrightarrow> kept I (\<lambda>w. w) (downlink_close (downlink_ctx (nodes w c)) w)"
    and ci_up_open: "I w \<Longrightarrow> I (snd (uplink_open E p c w)) \<and> may (snd (uplink_open E p c w)) (fst (uplink_open E p c w))"
    and ci_up_write: "I w \<Longrightarrow> kept I snd (uplink_write E (uplink_end_cb E) (node_uplink (nodes w c)) payload lst w)"
    and ci_up_close: "I w \<Longrightarrow> kept I (\<lambda>w. w) (uplink_close E (uplink_end_cb E) (node_uplink (nodes w c)) w)"
    and ci_dc_start: "I w \<Longrightarrow> kept (\<lambda>(p, w). I w \<and> may w p) (\<lambda>r. r) (device_cert_start E w)"
    and ci_dc_push: "I w \<Longrightarrow> kept I snd (device_cert_push E (device_cert_ctx (nodes w c)) bs w)"
    and ci_dc_abort: "I w \<Longrightarrow> kept I (\<lambda>w. w) (device_cert_abort (device_cert_ctx (nodes w c)) w)"
    and ci_dc_finish: "I w \<Longrightarrow> kept I snd (device_cert_finish E (device_cert_ctx (nodes w c)) w)"
    and ci_sc_start: "I w \<Longrightarrow> kept (\<lambda>(p, w). I w \<and> may w p) (\<lambda>r. r) (server_cert_start E w)"
    and ci_sc_read: "I w \<Longrightarrow> packetizer (nodes w c) = Some a \<Longrightarrow> packetizers w a = Some (Fill_server_cert, arg)
      \<Longrightarrow> kept I (\<lambda>r. snd (snd (snd (snd r)))) (server_cert_get_data arg dst n w)"
    and ci_sc_abort: "I w \<Longrightarrow> kept I (\<lambda>w. w) (server_cert_abort (server_cert_ctx (nodes w c)) w)"
begin

declare may_null [keeps] may_node [keeps] ci_params [keeps] ci_handles [keeps] ci_clear [keeps] ci_set [keeps]
  ci_call [keeps] ci_free [keeps] ci_pk_finish [keeps] ci_dl_abort [keeps] ci_dl_close [keeps] ci_up_write [keeps]
  ci_up_close [keeps] ci_dc_push [keeps] ci_dc_abort [keeps] ci_dc_finish [keeps] ci_sc_abort [keeps]

text \<open>A pointer that has just been obtained may be stored in the record.\<close>

lemma case_may:
  assumes "I (snd m) \<and> may (snd m) (fst m)"
  shows "(\<And>p w. I w \<Longrightarrow> may w p \<Longrightarrow> kept I st (f p w)) \<Longrightarrow> kept I st (case m of (p, w) \<Rightarrow> f p w)"
    and "(\<And>p w. I w \<Longrightarrow> may w p \<Longrightarrow> I (f' p w)) \<Longrightarrow> I (case m of (p, w) \<Rightarrow> f' p w)"
    and "(\<And>p w. I w \<Longrightarrow> may w p \<Longrightarrow> I (snd (g p w))) \<Longrightarrow> I (snd (case m of (p, w) \<Rightarrow> g p w))"
  using assms by (simp_all add: case_prod_unfold)

lemma case_may_pk:
  assumes "I (snd m) \<and> may_pk (snd m) (fst m)"
  shows "(\<And>p w. I w \<Longrightarrow> may_pk w p \<Longrightarrow> kept I st (f p w)) \<Longrightarrow> kept I st (case m of (p, w) \<Rightarrow> f p w)"
    and "(\<And>p w. I w \<Longrightarrow> may_pk w p \<Longrightarrow> I (snd (g p w))) \<Longrightarrow> I (snd (case m of (p, w) \<Rightarrow> g p w))"
  using assms by (simp_all add: case_prod_unfold)

lemma bnd_may:
  assumes "kept (\<lambda>(p, w). I w \<and> may w p) (\<lambda>r. r) m" and "\<And>p w. I w \<Longrightarrow> may w p \<Longrightarrow> kept I st (f p w)"
  shows "kept I st (bnd m (\<lambda>(p, w). f p w))"
  using assms by (cases m) (auto simp: kept_def)

text \<open>The results of the handlers are the world, or a pair with the world behind.\<close>

lemma bnd_world:
  assumes "kept I (\<lambda>w. w) m" and "\<And>w. I w \<Longrightarrow> kept I st (f w)"
  shows "kept I st (bnd m f)"
  using assms by (cases m) (simp_all add: kept_def)

lemma bnd_pair:
  assumes "kept I snd m" and "\<And>x w. I w \<Longrightarrow> kept I st (f x w)"
  shows "kept I st (bnd m (\<lambda>(x, w). f x w))"
  using assms by (cases m) (auto simp: kept_def)

lemmas news = bnd_may [OF ci_dc_start] bnd_may [OF ci_sc_start] bnd_world bnd_pair
  case_may [OF ci_scratch] case_may [OF ci_dl_open] case_may [OF ci_up_open] case_may_pk [OF ci_pk_start]

lemma ci_pure [keeps]:
  "(b \<Longrightarrow> I w) \<Longrightarrow> (\<not> b \<Longrightarrow> I w') \<Longrightarrow> I (if b then w else w')"
  "(b \<Longrightarrow> I (snd x)) \<Longrightarrow> (\<not> b \<Longrightarrow> I (snd y)) \<Longrightarrow> I (snd (if b then x else y))"
  "I (snd m) \<Longrightarrow> (\<And>a w. I w \<Longrightarrow> I (f a w)) \<Longrightarrow> I (case m of (a, w) \<Rightarrow> f a w)"
  "I (snd m) \<Longrightarrow> (\<And>a w. I w \<Longrightarrow> I (snd (g a w))) \<Longrightarrow> I (snd (case m of (a, w) \<Rightarrow> g a w))"
  "I w \<Longrightarrow> (\<And>y. I (h y)) \<Longrightarrow> I (case opt of None \<Rightarrow> w | Some y \<Rightarrow> h y)"
  by (simp_all add: case_prod_unfold split: option.split)

subsection \<open>Streams\<close>

lemma own_finished [keeps]: "I w \<Longrightarrow> I (bt_finished E c w)"
  unfolding bt_finished_def by (rule keeps | assumption)+

lemma own_fill:
  assumes "I w" and "packetizer (nodes w c) = Some a" and "packetizers w a = Some (k, arg)"
  shows "kept I (\<lambda>r. snd (snd r)) (fill_cb E k dst arg w)"
  using assms ci_dl_read [of w a arg dst] ci_sc_read [of w a arg dst]
  by (cases k) (auto simp: fill_cb_def downlink_packet_fill_cb_def server_cert_fill_cb_def kept_def elim!: bnd_InrE split: if_splits)

lemma own_packet [keeps]: "I w \<Longrightarrow> kept I (\<lambda>r. snd (snd r)) (packetizer_get E (packetizer (nodes w c)) buf n w)"
  by (rule keptI) (auto elim!: packetizer_get_InrD dest: keptD [OF own_fill])

lemma own_write_downlink [keeps]: "I w \<Longrightarrow> kept I snd (write_downlink_characteristic E c w)"
  unfolding write_downlink_characteristic_def Let_def by (rule looks news keeps kept_any | assumption | simp only: prod.sel)+

lemma own_give_up [keeps]: "I w \<Longrightarrow> kept I (\<lambda>w. w) (downlink_give_up E c w)"
  unfolding downlink_give_up_def by (rule looks news keeps | assumption)+

lemma own_response [keeps]: "I w \<Longrightarrow> kept I (\<lambda>w. w) (downlink_write_response_cb E c err w)"
  unfolding downlink_write_response_cb_def by (rule looks news keeps | assumption)+

lemma own_data_available [keeps]: "I w \<Longrightarrow> kept I (\<lambda>w. w) (downlink_data_available E c w)"
  unfolding downlink_data_available_def by (rule looks news keeps | assumption)+

lemma own_downlink_start [keeps]: "I w \<Longrightarrow> I (snd (downlink_start E c w))"
  unfolding downlink_start_def Let_def by (rule looks news keeps | assumption | simp only: prod.sel)+

lemma own_downlink_cleanup [keeps]: "I w \<Longrightarrow> kept I (\<lambda>w. w) (downlink_cleanup c w)"
  unfolding downlink_cleanup_def by (rule looks news keeps | assumption)+

lemma own_payload [keeps]: "I w \<Longrightarrow> kept I snd (handle_uplink_payload E c packet w)"
  unfolding handle_uplink_payload_def Let_def by (rule looks news keeps kept_any | assumption | simp only: prod.sel)+

lemma own_read [keeps]: "I w \<Longrightarrow> kept I snd (uplink_read_cb E c err packet w)"
  unfolding uplink_read_cb_def Let_def by (rule looks news keeps kept_any | assumption | simp only: prod.sel)+

lemma own_indicate [keeps]: "I w \<Longrightarrow> kept I snd (uplink_indicate_cb E c pkt w)"
  unfolding uplink_indicate_cb_def Let_def by (rule looks news keeps kept_any | assumption | simp only: prod.sel)+

lemma own_uplink_start [keeps]: "I w \<Longrightarrow> I (uplink_start E c w)"
  unfolding uplink_start_def Let_def by (rule looks news keeps | assumption | simp only: prod.sel)+

lemma own_uplink_cleanup [keeps]: "I w \<Longrightarrow> kept I (\<lambda>w. w) (uplink_cleanup E c w)"
  unfolding uplink_cleanup_def Let_def by (rule looks news keeps kept_any | assumption | simp only: prod.sel)+

subsection \<open>Certificates\<close>

lemma own_server_cleanup [keeps]: "I w \<Longrightarrow> kept I (\<lambda>w. w) (server_cert_cleanup E c w)"
  unfolding server_cert_cleanup_def Let_def by (rule looks news keeps kept_any | assumption | simp only: prod.sel)+

lemma own_server_fail [keeps]: "I w \<Longrightarrow> kept I (\<lambda>w. w) (server_cert_fail E c w)"
  unfolding server_cert_fail_def Let_def by (rule looks news keeps kept_any | assumption | simp only: prod.sel)+

lemma own_device_cleanup [keeps]: "I w \<Longrightarrow> kept I (\<lambda>w. w) (device_cert_cleanup c w)"
  unfolding device_cert_cleanup_def Let_def by (rule looks news keeps kept_any | assumption | simp only: prod.sel)+

lemma own_device_fail [keeps]: "I w \<Longrightarrow> kept I (\<lambda>w. w) (device_cert_fail E c w)"
  unfolding device_cert_fail_def Let_def by (rule looks news keeps kept_any | assumption | simp only: prod.sel)+

lemma own_write_cert [keeps]: "I w \<Longrightarrow> kept I snd (write_server_cert_characteristic E c w)"
  unfolding write_server_cert_characteristic_def Let_def by (rule looks news keeps kept_any | assumption | simp only: prod.sel)+

lemma own_device_start [keeps]: "I w \<Longrightarrow> kept I (\<lambda>w. w) (device_cert_read_start E c w)"
  unfolding device_cert_read_start_def Let_def by (rule looks news keeps kept_any | assumption | simp only: prod.sel)+

lemma own_server_start [keeps]: "I w \<Longrightarrow> kept I (\<lambda>w. w) (server_cert_write_start E c w)"
  unfolding server_cert_write_start_def Let_def by (rule looks news keeps kept_any | assumption | simp only: prod.sel)+

lemma own_cert_response [keeps]: "I w \<Longrightarrow> kept I (\<lambda>w. w) (server_cert_write_response_cb E c err w)"
  unfolding server_cert_write_response_cb_def Let_def by (rule looks news keeps kept_any | assumption | simp only: prod.sel)+

lemma own_server_read [keeps]: "I w \<Longrightarrow> kept I (\<lambda>w. w) (server_cert_read_cb E c err packet w)"
  unfolding server_cert_read_cb_def Let_def by (rule looks news keeps kept_any | assumption | simp only: prod.sel)+

lemma own_device_read [keeps]: "I w \<Longrightarrow> kept I (\<lambda>w. w) (device_cert_read_cb E c err packet w)"
  unfolding device_cert_read_cb_def Let_def by (rule looks news keeps kept_any | assumption | simp only: prod.sel)+

lemma own_exchange_start [keeps]: "I w \<Longrightarrow> kept I (\<lambda>w. w) (cert_exchange_start E c w)"
  unfolding cert_exchange_start_def server_cert_serial_read_start_def Let_def
  by (rule looks news keeps kept_any | assumption | simp only: prod.sel)+

subsection \<open>Discovery and connections\<close>

lemma own_discover [keeps]: "I w \<Longrightarrow> I (discover E c prm w)"
  unfolding discover_def Let_def by (rule looks news keeps kept_any | assumption | simp only: prod.sel)+

lemma own_descriptors [keeps]: "I w \<Longrightarrow> kept I snd (discover_descriptors E c attr w)"
  unfolding discover_descriptors_def set_ccc_def Let_def by (rule looks news keeps kept_any | assumption | simp only: prod.sel)+

lemma own_characteristics [keeps]: "I w \<Longrightarrow> kept I snd (discover_characteristics E U c x w)"
  unfolding discover_characteristics_def set_value_def Let_def by (rule looks news keeps kept_any | assumption | simp only: prod.sel)+

lemma own_services [keeps]: "I w \<Longrightarrow> kept I snd (discover_services E U c x w)"
  unfolding discover_services_def Let_def by (rule looks news keeps kept_any | assumption | simp only: prod.sel)+

lemma own_start [keeps]: "I w \<Longrightarrow> I (bt_start E U c w)"
  unfolding bt_start_def Let_def by (rule looks news keeps kept_any | assumption | simp only: prod.sel)+

lemma own_stop [keeps]: "I w \<Longrightarrow> kept I (\<lambda>w. w) (bt_stop E c w)"
  unfolding bt_stop_def Let_def by (rule looks news keeps kept_any | assumption | simp only: prod.sel)+

lemma own_scan [keeps]: "I w \<Longrightarrow> I (scan_start E w)"
  unfolding scan_start_def Let_def by (rule looks news keeps kept_any | assumption | simp only: prod.sel)+

lemma own_connected [keeps]: "I w \<Longrightarrow> I (bt_connected E U c err w)"
  unfolding bt_connected_def Let_def by (rule looks news keeps kept_any | assumption | simp only: prod.sel)+

lemma own_disconnected [keeps]: "I w \<Longrightarrow> kept I (\<lambda>w. w) (bt_disconnected E c w)"
  unfolding bt_disconnected_def Let_def by (rule looks news keeps kept_any | assumption | simp only: prod.sel)+

end

end
