(* ===== verification/Ownership.thy ===== *)
theory Ownership
  imports Conn_Inv
begin

text \<open>
  Which addresses belong to which connection: those its record points to, the one its packetizer
  works on, and the contexts that name it.  A handler that runs on behalf of a connection changes
  what lives at addresses of its own or at new ones only (\<open>iso\<close>); the basic changes keep this,
  hence the operations of the libraries (\<open>Pointer_Calculus\<close>) and the handlers (\<open>Conn_Inv\<close>).
\<close>

subsection \<open>Ownership of addresses\<close>

definition pointers :: "node_info \<Rightarrow> ptr list" where
  "pointers n = [downlink_ctx n, downlink_scratch n, server_cert_scratch n, packetizer n, node_uplink n,
     device_cert_ctx n, server_cert_ctx n]"

definition packetizer_arg :: "'a gw_world_scheme \<Rightarrow> conn \<Rightarrow> ptr" where
  "packetizer_arg w c = (case packetizer (nodes w c) of None \<Rightarrow> NULL
     | Some p \<Rightarrow> (case packetizers w p of None \<Rightarrow> NULL | Some (_, arg) \<Rightarrow> arg))"

definition owns :: "'a gw_world_scheme \<Rightarrow> conn \<Rightarrow> addr \<Rightarrow> bool" where
  "owns w c a \<longleftrightarrow> Some a \<in> set (packetizer_arg w c # pointers (nodes w c))
     \<or> (case downlinks w a of None \<Rightarrow> False | Some d \<Rightarrow> cb_arg d = c)
     \<or> (case uplinks w a of None \<Rightarrow> False | Some u \<Rightarrow> end_cb_arg u = c)"

definition separate :: "'a gw_world_scheme \<Rightarrow> bool" where
  "separate w \<longleftrightarrow> (\<forall>c a. owns w c a \<longrightarrow> a < next_addr w) \<and> (\<forall>c c' a. owns w c a \<longrightarrow> owns w c' a \<longrightarrow> c = c')"

text \<open>The blocks of the downlink contexts of a connection.\<close>

definition holds :: "'a gw_world_scheme \<Rightarrow> conn \<Rightarrow> addr \<Rightarrow> bool" where
  "holds w c b \<longleftrightarrow> (\<exists>a d. downlinks w a = Some d \<and> cb_arg d = c \<and> b \<in> set (held d))"

text \<open>What lives at an address.\<close>

definition object_at :: "'a gw_world_scheme \<Rightarrow> addr \<Rightarrow> _" where
  "object_at w a = (downlinks w a, uplinks w a, packetizers w a, scratches w a, device_ctxs w a, server_ctxs w a)"

definition undisturbed :: "conn \<Rightarrow> 'a gw_world_scheme \<Rightarrow> 'a gw_world_scheme \<Rightarrow> bool" where
  "undisturbed c w w' \<longleftrightarrow> nodes w' c = nodes w c
     \<and> (\<forall>a. owns w c a \<longrightarrow> object_at w' a = object_at w a)
     \<and> (\<forall>b. holds w c b \<longrightarrow> slab w' b = slab w b)
     \<and> (\<exists>xs. trace w' = trace w @ xs \<and> (\<forall>x \<in> set xs. call_conn x \<noteq> Some c))"

subsection \<open>During a step of one connection\<close>

text \<open>\<open>w0\<close> is the state at its beginning.\<close>

definition elsewhere :: "conn \<Rightarrow> 'a gw_world_scheme \<Rightarrow> addr \<Rightarrow> bool" where
  "elsewhere c w0 a \<longleftrightarrow> (\<exists>c'. c' \<noteq> c \<and> owns w0 c' a)"

definition foreign :: "conn \<Rightarrow> 'a gw_world_scheme \<Rightarrow> addr \<Rightarrow> bool" where
  "foreign c w0 b \<longleftrightarrow> (\<exists>c'. c' \<noteq> c \<and> holds w0 c' b)"

definition okp :: "conn \<Rightarrow> 'a gw_world_scheme \<Rightarrow> addr \<Rightarrow> ptr \<Rightarrow> bool" where
  "okp c w0 n p \<longleftrightarrow> (\<forall>a. p = Some a \<longrightarrow> a < n \<and> \<not> elsewhere c w0 a)"

definition good :: "conn \<Rightarrow> 'a gw_world_scheme \<Rightarrow> downlink \<Rightarrow> bool" where
  "good c w0 d \<longleftrightarrow> cb_arg d = c \<and> (\<forall>b \<in> set (held d). \<not> foreign c w0 b)"

definition others_same :: "conn \<Rightarrow> 'a gw_world_scheme \<Rightarrow> 'a gw_world_scheme \<Rightarrow> bool" where
  "others_same c w0 w \<longleftrightarrow> (\<forall>c'. c' \<noteq> c \<longrightarrow> nodes w c' = nodes w0 c')
     \<and> (\<forall>a. elsewhere c w0 a \<longrightarrow> a < next_addr w0 \<and> object_at w a = object_at w0 a)
     \<and> (\<forall>b. foreign c w0 b \<longrightarrow> b < next_addr w0 \<and> slab w b = slab w0 b)
     \<and> next_addr w0 \<le> next_addr w \<and> (\<exists>xs. trace w = trace w0 @ xs \<and> (\<forall>x \<in> set xs. call_by c x))"

definition own_ok :: "conn \<Rightarrow> 'a gw_world_scheme \<Rightarrow> 'a gw_world_scheme \<Rightarrow> bool" where
  "own_ok c w0 w \<longleftrightarrow> list_all (okp c w0 (next_addr w)) (packetizer_arg w c # pointers (nodes w c))
     \<and> (\<forall>a d. downlinks w a = Some d \<longrightarrow> \<not> elsewhere c w0 a \<longrightarrow> a < next_addr w \<and> good c w0 d)
     \<and> (\<forall>a u. uplinks w a = Some u \<longrightarrow> \<not> elsewhere c w0 a \<longrightarrow> a < next_addr w \<and> end_cb_arg u = c)"

text \<open>\<open>n\<close> is a bound below which pointers stay in bounds.\<close>

definition iso :: "conn \<Rightarrow> 'a gw_world_scheme \<Rightarrow> addr \<Rightarrow> 'a gw_world_scheme \<Rightarrow> bool" where
  "iso c w0 n w \<longleftrightarrow> n \<le> next_addr w \<and> others_same c w0 w \<and> own_ok c w0 w"

lemma isoD:
  assumes "iso c w0 n w"
  shows "n \<le> next_addr w" and "others_same c w0 w" and "own_ok c w0 w" and "iso c w0 (next_addr w) w"
  using assms by (simp_all add: iso_def)

lemma iso_mono: "iso c w0 n w \<Longrightarrow> m \<le> n \<Longrightarrow> iso c w0 m w"
  by (simp add: iso_def)

lemma okp_mono: "okp c w0 n p \<Longrightarrow> n \<le> m \<Longrightarrow> okp c w0 m p"
  by (auto simp: okp_def)

lemma okp_NULL [simp]: "okp c w0 n NULL"
  by (simp add: okp_def)

lemma okp_Some: "okp c w0 n (Some a) \<longleftrightarrow> a < n \<and> \<not> elsewhere c w0 a"
  by (simp add: okp_def)

text \<open>A new address is nobody's.\<close>

lemma okp_fresh: "iso c w0 n w \<Longrightarrow> okp c w0 (Suc (next_addr w)) (Some (next_addr w))"
  by (auto simp: iso_def others_same_def okp_def)

lemma fresh_mine: "iso c w0 n w \<Longrightarrow> \<not> foreign c w0 (next_addr w)" "iso c w0 n w \<Longrightarrow> \<not> elsewhere c w0 (next_addr w)"
  by (auto simp: iso_def others_same_def)

subsection \<open>Basic changes\<close>

text \<open>A change at addresses of the connection only.\<close>

definition changes_at :: "ptr \<Rightarrow> 'a gw_world_scheme \<Rightarrow> 'a gw_world_scheme \<Rightarrow> bool" where
  "changes_at p w w' \<longleftrightarrow> nodes w' = nodes w \<and> next_addr w \<le> next_addr w' \<and> (\<forall>a. p \<noteq> Some a \<longrightarrow> object_at w' a = object_at w a)"

lemma iso_change:
  assumes iso: "iso c w0 n w" and ch: "changes_at p w w'" and p: "okp c w0 (next_addr w') p"
    and slab: "\<And>b. foreign c w0 b \<Longrightarrow> slab w' b = slab w b"
    and tr: "trace w' = trace w @ xs" "\<And>x. x \<in> set xs \<Longrightarrow> call_by c x"
    and dl: "\<And>a d. p = Some a \<Longrightarrow> downlinks w' a = Some d \<Longrightarrow> downlinks w a \<noteq> Some d \<Longrightarrow> good c w0 d"
    and up: "\<And>a u. p = Some a \<Longrightarrow> uplinks w' a = Some u \<Longrightarrow> uplinks w a \<noteq> Some u \<Longrightarrow> end_cb_arg u = c"
    and pk: "\<And>a k arg. p = Some a \<Longrightarrow> packetizers w' a = Some (k, arg) \<Longrightarrow> packetizers w a \<noteq> Some (k, arg) \<Longrightarrow> okp c w0 (next_addr w') arg"
  shows "iso c w0 n w'"
proof -
  note parts = isoD [OF iso]
  have same: "object_at w' a = object_at w a" if "elsewhere c w0 a" for a
    using that p ch by (auto simp: okp_def changes_at_def)
  have others: "others_same c w0 w'"
    using parts(2) ch same slab tr by (auto simp: others_same_def changes_at_def)
  have at: "p = Some a \<or> downlinks w' a = downlinks w a \<and> uplinks w' a = uplinks w a \<and> packetizers w' a = packetizers w a" for a
    using ch by (auto simp: changes_at_def object_at_def)
  have "okp c w0 (next_addr w') (packetizer_arg w' c)"
  proof (cases "packetizer (nodes w c)")
    case (Some q)
    have "okp c w0 (next_addr w) (packetizer_arg w c)" using parts(3) by (simp add: own_ok_def)
    with ch have old: "okp c w0 (next_addr w') (packetizer_arg w c)" by (auto simp: changes_at_def intro: okp_mono)
    have "p = Some q" if "packetizers w' q \<noteq> packetizers w q" using that at [of q] by auto
    with ch pk [of q] Some old show ?thesis
      by (cases "packetizers w' q = packetizers w q") (auto simp: packetizer_arg_def changes_at_def split: option.split)
  qed (use ch in \<open>simp add: packetizer_arg_def changes_at_def\<close>)
  moreover have "list_all (okp c w0 (next_addr w')) (pointers (nodes w' c))"
    using parts(3) ch by (auto simp: own_ok_def changes_at_def list_all_iff intro: okp_mono)
  moreover have "a < next_addr w' \<and> good c w0 d" if a: "downlinks w' a = Some d" "\<not> elsewhere c w0 a" for a d
  proof (cases "downlinks w a = Some d")
    case True
    with a(2) parts(3) ch show ?thesis by (force simp: own_ok_def changes_at_def)
  qed (use a at [of a] dl p in \<open>auto simp: okp_def\<close>)
  moreover have "a < next_addr w' \<and> end_cb_arg u = c" if a: "uplinks w' a = Some u" "\<not> elsewhere c w0 a" for a u
  proof (cases "uplinks w a = Some u")
    case True
    with a(2) parts(3) ch show ?thesis by (force simp: own_ok_def changes_at_def)
  qed (use a at [of a] up p in \<open>auto simp: okp_def\<close>)
  ultimately have "own_ok c w0 w'" by (simp add: own_ok_def)
  with others parts(1) ch show ?thesis by (simp add: iso_def changes_at_def)
qed

lemma iso_node:
  assumes "iso c w0 n w" and "list_all (okp c w0 (next_addr w)) (packetizer_arg (set_node c f w) c # pointers (f (nodes w c)))"
  shows "iso c w0 n (set_node c f w)"
  using assms by (simp add: iso_def others_same_def own_ok_def object_at_def)

lemma iso_call: "iso c w0 n w \<Longrightarrow> call_by c x \<Longrightarrow> iso c w0 n (snd (ext_call E x w))"
  by (rule iso_change [where p = NULL and xs = "[x]"]) (auto simp: changes_at_def object_at_def ext_call_def)

text \<open>The pointers a connection has got.\<close>

lemma iso_pointer: "iso c w0 n w \<Longrightarrow> p \<in> set (packetizer_arg w c # pointers (nodes w c)) \<Longrightarrow> okp c w0 (next_addr w) p"
  by (auto simp: iso_def own_ok_def list_all_iff)

lemma call_by_quiet: "call_by c Malloc" "call_by c (Uplink_start p)" "call_by c (Uplink_block k i bs lst)" "call_by c (Uplink_finish k)"
  by (simp_all add: call_by_def)

lemma iso_malloc:
  assumes "iso c w0 n w"
  shows "iso c w0 n (snd (malloc E w)) \<and> okp c w0 (next_addr (snd (malloc E w))) (fst (malloc E w))"
proof -
  have "iso c w0 n (w\<lparr>trace := trace w @ [Malloc], next_addr := k\<rparr>)" if "next_addr w \<le> k" for k
    using assms that
    by (elim iso_change [where p = NULL and xs = "[Malloc]"]) (auto simp: changes_at_def object_at_def call_by_quiet)
  from this [of "next_addr w"] this [of "Suc (next_addr w)"] okp_fresh [OF assms] show ?thesis
    by (cases E w rule: malloc_cases) auto
qed

subsection \<open>The libraries\<close>

text \<open>Updates of the heaps at one address.\<close>

lemma changes_at_simps:
  "changes_at (Some a) w (put_uplink a u w)"
  "changes_at (Some a) w (w\<lparr>uplinks := (uplinks w)(a := None), pblocks_live := k\<rparr>)"
  "changes_at (Some a) w (put_downlink a d w)"
  "changes_at (Some a) w (w\<lparr>downlinks := (downlinks w)(a := None)\<rparr>)"
  "changes_at NULL w (w\<lparr>pblocks_live := k\<rparr>)"
  "changes_at NULL w (w\<lparr>slab := s, slab_used := k\<rparr>)"
  "changes_at NULL w (w\<lparr>slab := s\<rparr>)"
  "next_addr w \<le> k \<Longrightarrow> changes_at NULL w (w\<lparr>next_addr := k, slab := s, slab_used := l\<rparr>)"
  by (auto simp: changes_at_def object_at_def put_uplink_def put_downlink_def)

lemma iso_own:
  assumes "iso c w0 n w"
  shows "downlinks w a = Some d \<Longrightarrow> \<not> elsewhere c w0 a \<Longrightarrow> good c w0 d"
    and "uplinks w a = Some u \<Longrightarrow> \<not> elsewhere c w0 a \<Longrightarrow> end_cb_arg u = c"
    and "packetizer (nodes w c) = Some p \<Longrightarrow> packetizers w p = Some (k, arg) \<Longrightarrow> okp c w0 (next_addr w) arg"
  using assms by (auto simp: iso_def own_ok_def packetizer_arg_def)

text \<open>Storing a pointer in the record.\<close>

lemma iso_old:
  "iso c w0 n w \<Longrightarrow> okp c w0 (next_addr w) (packetizer_arg w c)"
  "iso c w0 n w \<Longrightarrow> list_all (okp c w0 (next_addr w)) (pointers (nodes w c))"
  by (simp_all add: iso_def own_ok_def)

lemma iso_field:
  assumes "iso c w0 n w" and "packetizer (f (nodes w c)) = packetizer (nodes w c)"
    and "list_all (okp c w0 (next_addr w)) (pointers (f (nodes w c)))"
  shows "iso c w0 n (set_node c f w)"
proof (rule iso_node [OF assms(1)])
  have "packetizer_arg (set_node c f w) c = packetizer_arg w c"
    using assms(2) by (simp add: packetizer_arg_def split: option.split)
  then show "list_all (okp c w0 (next_addr w)) (packetizer_arg (set_node c f w) c # pointers (f (nodes w c)))"
    using iso_old(1) [OF assms(1)] assms(3) by simp
qed

lemma iso_fields:
  assumes "iso c w0 n w"
  shows "okp c w0 (next_addr w) p \<Longrightarrow> iso c w0 n (set_node c (node_uplink_update (\<lambda>_. p)) w)"
    and "okp c w0 (next_addr w) p \<Longrightarrow> iso c w0 n (set_node c (downlink_ctx_update (\<lambda>_. p)) w)"
    and "okp c w0 (next_addr w) p \<Longrightarrow> iso c w0 n (set_node c (downlink_scratch_update (\<lambda>_. p)) w)"
    and "okp c w0 (next_addr w) p \<Longrightarrow> iso c w0 n (set_node c (server_cert_scratch_update (\<lambda>_. p)) w)"
    and "okp c w0 (next_addr w) p \<Longrightarrow> iso c w0 n (set_node c (device_cert_ctx_update (\<lambda>_. p)) w)"
    and "okp c w0 (next_addr w) p \<Longrightarrow> iso c w0 n (set_node c (server_cert_ctx_update (\<lambda>_. p)) w)"
    and "okp c w0 (next_addr w) p \<Longrightarrow> (\<And>a k arg. p = Some a \<Longrightarrow> packetizers w a = Some (k, arg) \<Longrightarrow> okp c w0 (next_addr w) arg)
      \<Longrightarrow> iso c w0 n (set_node c (packetizer_update (\<lambda>_. p)) w)"
    and "iso c w0 n (set_node c (params_update pf) w)" and "iso c w0 n (set_node c (attr_handles_update hf) w)"
    and "iso c w0 n (set_node c (\<lambda>_. zero_node) w)"
proof -
  note old = iso_old [OF assms]
  show "okp c w0 (next_addr w) p \<Longrightarrow> (\<And>a k arg. p = Some a \<Longrightarrow> packetizers w a = Some (k, arg) \<Longrightarrow> okp c w0 (next_addr w) arg)
      \<Longrightarrow> iso c w0 n (set_node c (packetizer_update (\<lambda>_. p)) w)"
    using old(2) by (intro iso_node [OF assms]) (auto simp: packetizer_arg_def pointers_def split: option.split)
  show "iso c w0 n (set_node c (\<lambda>_. zero_node) w)"
    by (rule iso_node [OF assms]) (simp add: packetizer_arg_def pointers_def zero_node_def)
qed (rule iso_field [OF assms], use iso_old(2) [OF assms] in \<open>simp_all add: pointers_def\<close>)+

lemma iso_uplink:
  assumes "okp c w0 n p"
  shows "uplink_at E (iso c w0 n) p (\<lambda>c'. c' = c) (call_by c) (uplink_end_cb E)"
proof -
  have p: "iso c w0 n w \<Longrightarrow> okp c w0 (next_addr w) p" for w
    using assms by (auto simp: iso_def intro: okp_mono)
  show ?thesis
  proof (unfold_locales, goal_cases)
    case (3 w c' r)
    have "iso c w0 n v \<Longrightarrow> iso c w0 n (set_node c (node_uplink_update (\<lambda>_. NULL)) v)" for v
      using iso_fields(1) [of c w0 n v NULL] by (simp only: okp_NULL)
    then show ?case unfolding 3(2)
      by (rule end_cb_kept [where ok = "call_by c"]) (rule iso_call 3(1) | assumption | simp add: call_by_def)+
  next
    case (4 w a u)
    then show ?case using assms iso_own(2) by (auto simp: okp_def)
  next
    case (5 w a u)
    with p [OF 5(1)] show ?case
      by (intro iso_change [OF 5(1) changes_at_simps(1), where xs = "[]"]) (auto simp: put_uplink_def dest: iso_own)
  next
    case (6 w k)
    then show ?case by (rule iso_change [OF _ changes_at_simps(5), where xs = "[]"]) auto
  next
    case (7 w a k)
    with p [OF 7(1)] show ?case
      by (intro iso_change [OF 7(1) changes_at_simps(2), where xs = "[]"]) auto
  next
    case (8 w x)
    then show ?case by (rule iso_call)
  next
    case (9 w)
    then show ?case using iso_malloc by blast
  qed (simp_all add: call_by_def)
qed

text \<open>Blocks a connection may touch.\<close>

lemma iso_slab:
  assumes "iso c w0 n w" and "next_addr w \<le> next_addr w'" and "changes_at NULL w w'" and "trace w' = trace w"
    and "\<And>b. foreign c w0 b \<Longrightarrow> slab w' b = slab w b"
  shows "iso c w0 n w'"
  by (rule iso_change [OF assms(1,3), where xs = "[]"]) (use assms(4,5) in auto)

lemma good_less:
  "good c w0 d \<Longrightarrow> set (held d') \<subseteq> set (held d) \<Longrightarrow> cb_arg d' = cb_arg d \<Longrightarrow> good c w0 d'"
  by (auto simp: good_def)

lemma iso_downlink:
  assumes "okp c w0 n p"
  shows "downlink_at E (iso c w0 n) p (good c w0) (\<lambda>b. \<not> foreign c w0 b) (\<lambda>c'. c' = c)"
proof -
  have p: "iso c w0 n w \<Longrightarrow> okp c w0 (next_addr w) p" for w
    using assms by (auto simp: iso_def intro: okp_mono)
  show ?thesis
  proof (unfold_locales, goal_cases)
    case (1 w a d)
    then show ?case using assms iso_own(1) by (auto simp: okp_def)
  next
    case (4 d d')
    then show ?case by (rule good_less)
  next
    case (5 d b)
    then show ?case by (auto simp: good_def held_def)
  next
    case (6 w a d)
    with p [OF 6(1)] show ?case
      by (intro iso_change [OF 6(1) changes_at_simps(3), where xs = "[]"]) (auto simp: put_downlink_def dest: iso_own)
  next
    case (7 w a)
    with p [OF 7(1)] show ?case
      by (intro iso_change [OF 7(1) changes_at_simps(4), where xs = "[]"]) auto
  next
    case (8 w ud)
    with fresh_mine(1) [OF 8] show ?case
      by (auto simp: block_alloc_def intro!: iso_slab [OF 8] changes_at_simps)
  next
    case (9 w ud b)
    with fresh_mine show ?case by (auto simp: block_alloc_def split: if_splits)
  next
    case (10 w b)
    then show ?case by (auto simp: kept_def block_free_def bnd_simps intro!: iso_slab [OF 10(1)] changes_at_simps)
  next
    case (11 w b bs)
    then show ?case by (auto simp: kept_def block_append_def bnd_simps intro!: iso_slab [OF 11(1)] changes_at_simps)
  next
    case (12 w b)
    then show ?case by (auto simp: kept_def block_mark_last_def bnd_simps intro!: iso_slab [OF 12(1)] changes_at_simps)
  qed (simp_all add: good_def)
qed

subsection \<open>The handlers\<close>

lemma iso_lift:
  assumes "iso c w0 n w" and "iso c w0 (next_addr w) w \<Longrightarrow> kept (iso c w0 (next_addr w)) st m"
  shows "kept (iso c w0 n) st m"
  using assms(2) [OF isoD(4) [OF assms(1)]] isoD(1) [OF assms(1)] by (auto simp: kept_def intro: iso_mono)

text \<open>Objects of the certificate library, scratch buffers and packetizers.\<close>

lemma iso_objects:
  assumes "iso c w0 n w" and "okp c w0 (next_addr w) p"
  shows "kept (iso c w0 n) (\<lambda>w. w) (free_scratch p w)"
    and "kept (iso c w0 n) (\<lambda>w. w) (packetizer_finish E p w)"
    and "kept (iso c w0 n) snd (device_cert_push E p bs w)"
    and "kept (iso c w0 n) (\<lambda>w. w) (device_cert_abort p w)"
    and "kept (iso c w0 n) (\<lambda>r. snd (snd (snd (snd r)))) (server_cert_get_data p dst k w)"
    and "kept (iso c w0 n) (\<lambda>w. w) (server_cert_abort p w)"
proof -
  have heap: "iso c w0 n w'" if "trace w' = trace w \<or> trace w' = trace w @ [Packetizer_finish p]" and "slab w' = slab w"
    and "changes_at p w w'" and "\<And>a. p = Some a \<Longrightarrow> downlinks w' a = downlinks w a \<and> uplinks w' a = uplinks w a
      \<and> (packetizers w' a = packetizers w a \<or> packetizers w' a = None)" for w'
    using that(1)
  proof
    assume "trace w' = trace w"
    then show ?thesis using that assms(2) by (intro iso_change [OF assms(1) that(3), where xs = "[]"])
      (auto simp: changes_at_def intro: okp_mono)
  next
    assume "trace w' = trace w @ [Packetizer_finish p]"
    then show ?thesis using that assms(2) by (intro iso_change [OF assms(1) that(3), where xs = "[Packetizer_finish p]"])
      (auto simp: changes_at_def call_by_def intro: okp_mono)
  qed
  show "kept (iso c w0 n) (\<lambda>w. w) (free_scratch p w)"
    and "kept (iso c w0 n) (\<lambda>w. w) (packetizer_finish E p w)"
    and "kept (iso c w0 n) snd (device_cert_push E p bs w)"
    and "kept (iso c w0 n) (\<lambda>w. w) (device_cert_abort p w)"
    and "kept (iso c w0 n) (\<lambda>r. snd (snd (snd (snd r)))) (server_cert_get_data p dst k w)"
    and "kept (iso c w0 n) (\<lambda>w. w) (server_cert_abort p w)"
    using assms(1)
    by (auto simp: kept_def free_scratch_def packetizer_finish_def device_cert_push_def device_cert_abort_def
        server_cert_get_data_def server_cert_abort_def bnd_simps ext_call_def changes_at_def object_at_def Let_def
        intro!: heap split: if_splits)
qed

text \<open>New objects.\<close>

lemma iso_new:
  assumes "iso c w0 n w" and "changes_at (Some (next_addr w)) w w'" and "next_addr w' = Suc (next_addr w)"
    and "slab w' = slab w" and "trace w' = trace w @ xs" and "\<And>x. x \<in> set xs \<Longrightarrow> call_by c x"
    and "\<And>d. downlinks w' (next_addr w) = Some d \<Longrightarrow> good c w0 d \<or> downlinks w (next_addr w) = Some d"
    and "\<And>u. uplinks w' (next_addr w) = Some u \<Longrightarrow> end_cb_arg u = c \<or> uplinks w (next_addr w) = Some u"
    and "\<And>k arg. packetizers w' (next_addr w) = Some (k, arg) \<Longrightarrow> okp c w0 (next_addr w) arg \<or> packetizers w (next_addr w) = Some (k, arg)"
  shows "iso c w0 n w' \<and> okp c w0 (next_addr w') (Some (next_addr w))"
proof -
  have fresh: "okp c w0 (next_addr w') (Some (next_addr w))" using okp_fresh [OF assms(1)] assms(3) by simp
  have "iso c w0 n w'"
    by (rule iso_change [OF assms(1,2) fresh _ assms(5,6)])
      (use assms(3,4,7-9) in \<open>auto intro: okp_mono\<close>)
  with fresh show ?thesis by simp
qed

lemma iso_finish:
  assumes "iso c w0 n w" and "okp c w0 (next_addr w) p"
  shows "kept (iso c w0 n) snd (device_cert_finish E p w)"
proof -
  let ?w = "\<lambda>crt. w\<lparr>trace := trace w @ [Device_cert_set crt]\<rparr>"
  have "iso c w0 n (?w crt)" for crt
    using iso_call [OF assms(1), of "Device_cert_set crt"] by (simp add: call_by_def)
  then have "kept (iso c w0 n) (\<lambda>w. w) (device_cert_abort p (?w crt))" for crt
    by (rule iso_objects(4)) (use assms(2) in simp)
  with \<open>\<And>crt. iso c w0 n (?w crt)\<close> iso_objects(4) [OF assms] show ?thesis
    by (auto simp: kept_def device_cert_finish_def ext_call_def bnd_simps Let_def split: if_splits)
qed

lemma iso_quiet: "iso c w0 n w \<Longrightarrow> iso c w0 n (w\<lparr>trace := trace w @ [Malloc]\<rparr>)"
  using iso_call [of c w0 n w Malloc] by (simp add: call_by_def)

lemma iso_opens:
  assumes "iso c w0 n w"
  shows "iso c w0 n (snd (gatt_mtu_malloc E c w)) \<and> okp c w0 (next_addr (snd (gatt_mtu_malloc E c w))) (fst (gatt_mtu_malloc E c w))"
    and "iso c w0 n (snd (downlink_open E c w)) \<and> okp c w0 (next_addr (snd (downlink_open E c w))) (fst (downlink_open E c w))"
    and "kept (\<lambda>(p, w). iso c w0 n w \<and> okp c w0 (next_addr w) p) (\<lambda>r. r) (device_cert_start E w)"
    and "kept (\<lambda>(p, w). iso c w0 n w \<and> okp c w0 (next_addr w) p) (\<lambda>r. r) (server_cert_start E w)"
proof -
  have g: "good c w0 (new_downlink c)" by (simp add: good_def)
  note new = iso_quiet [OF assms] okp_fresh [OF assms] iso_new [OF assms, where xs = "[Malloc]", THEN conjunct1]
  note defs = changes_at_def object_at_def call_by_quiet Let_def
  show "iso c w0 n (snd (gatt_mtu_malloc E c w)) \<and> okp c w0 (next_addr (snd (gatt_mtu_malloc E c w))) (fst (gatt_mtu_malloc E c w))"
    by (cases E w rule: malloc_cases) (auto simp: gatt_mtu_malloc_def defs assms intro!: new)
  show "iso c w0 n (snd (downlink_open E c w)) \<and> okp c w0 (next_addr (snd (downlink_open E c w))) (fst (downlink_open E c w))"
    by (cases E w rule: malloc_cases) (auto simp: downlink_open_def put_downlink_def g defs intro!: new)
  show "kept (\<lambda>(p, w). iso c w0 n w \<and> okp c w0 (next_addr w) p) (\<lambda>r. r) (device_cert_start E w)"
    by (cases E w rule: malloc_cases) (auto simp: kept_def device_cert_start_def defs intro!: new)
  show "kept (\<lambda>(p, w). iso c w0 n w \<and> okp c w0 (next_addr w) p) (\<lambda>r. r) (server_cert_start E w)"
    by (cases E w rule: malloc_cases) (auto simp: kept_def server_cert_start_def defs intro!: new)
qed

lemma iso_packetizer:
  assumes "iso c w0 n w" and "okp c w0 (next_addr w) arg" and "packetizer_start E k arg w = (p, w')"
  shows "iso c w0 n w'" and "okp c w0 (next_addr w') p"
    and "p = Some a \<Longrightarrow> packetizers w' a = Some (k', arg') \<Longrightarrow> okp c w0 (next_addr w') arg'"
proof -
  have own: "call_by c (Packetizer_start arg)" by (simp add: call_by_def)
  have "iso c w0 n w' \<and> okp c w0 (next_addr w') p
    \<and> (p = Some a \<longrightarrow> packetizers w' a = Some (k', arg') \<longrightarrow> okp c w0 (next_addr w') arg')"
    using assms(2,3) iso_call [OF assms(1) own, of E]
    by (auto simp: packetizer_start_def ext_call_def changes_at_def object_at_def own Let_def split: if_splits
        intro!: okp_fresh [OF assms(1)] iso_new [OF assms(1), where xs = "[Packetizer_start arg]", THEN conjunct1] intro: okp_mono)
  then show "iso c w0 n w'" and "okp c w0 (next_addr w') p"
    and "p = Some a \<Longrightarrow> packetizers w' a = Some (k', arg') \<Longrightarrow> okp c w0 (next_addr w') arg'" by blast+
qed

lemma iso_uplink_open:
  assumes "iso c w0 n w"
  shows "iso c w0 n (snd (uplink_open E p c w)) \<and> okp c w0 (next_addr (snd (uplink_open E p c w))) (fst (uplink_open E p c w))"
proof (cases E w rule: malloc_cases)
  case NULL
  then show ?thesis using iso_quiet [OF assms] by (simp add: uplink_open_def)
next
  case fresh
  define w1 where "w1 = w\<lparr>trace := trace w @ [Malloc], next_addr := Suc (next_addr w)\<rparr>"
  have w1: "iso c w0 n w1" "okp c w0 (next_addr w1) (Some (next_addr w))"
    using iso_malloc [OF assms, of E] fresh by (simp_all add: w1_def)
  obtain q w2 where w2: "pouch_block_alloc E w1 = (q, w2)" by (cases "pouch_block_alloc E w1")
  have i2: "iso c w0 n w2"
    using uplink_at.up_alloc [OF iso_uplink [OF okp_NULL] w1(1), of E] w2 by simp
  have le: "next_addr w1 \<le> next_addr w2"
    using w2 by (cases E w1 rule: malloc_cases) (auto simp: pouch_block_alloc_def)
  define w3 where "w3 = (if cloud E then snd (ext_call E (Uplink_start p) w2) else w2)"
  have i3: "iso c w0 n w3" using iso_call [OF i2 call_by_quiet(2)] i2 by (simp add: w3_def)
  have okp3: "okp c w0 (next_addr w3) (Some (next_addr w))"
    using okp_mono [OF w1(2) le] by (simp add: w3_def)
  have put: "iso c w0 n (put_uplink (next_addr w) (new_uplink s c) w3)" for s
    using okp3 by (intro iso_change [OF i3 changes_at_simps(1), where xs = "[]"]) (auto simp: put_uplink_def new_uplink_def)
  have undo: "iso c w0 n (w3\<lparr>pblocks_live := k\<rparr>)" for k
    by (rule iso_change [OF i3 changes_at_simps(5), where xs = "[]"]) auto
  show ?thesis
    using i2 put undo okp3 fresh w2
    by (auto simp: uplink_open_def w1_def [symmetric] w3_def ext_call_def put_uplink_def Let_def split: option.split)
qed

definition okpk :: "conn \<Rightarrow> 'a gw_world_scheme \<Rightarrow> 'a gw_world_scheme \<Rightarrow> ptr \<Rightarrow> bool" where
  "okpk c w0 w p \<longleftrightarrow> okp c w0 (next_addr w) p
     \<and> (\<forall>a k arg. p = Some a \<longrightarrow> packetizers w a = Some (k, arg) \<longrightarrow> okp c w0 (next_addr w) arg)"

lemma iso_streams:
  assumes "iso c w0 n w" and "okp c w0 (next_addr w) p"
  shows "kept (iso c w0 n) (\<lambda>r. snd (snd (snd (snd r)))) (downlink_get_data E p dst m w)"
    and "kept (iso c w0 n) (\<lambda>w. w) (downlink_abort p w)" and "kept (iso c w0 n) (\<lambda>w. w) (downlink_close p w)"
    and "kept (iso c w0 n) snd (uplink_write E (uplink_end_cb E) p payload lst w)"
    and "kept (iso c w0 n) (\<lambda>w. w) (uplink_close E (uplink_end_cb E) p w)"
    and "kept (iso c w0 n) (\<lambda>w. w) (block_upload_callback E (uplink_end_cb E) status p w)"
  by (rule iso_lift [OF assms(1)], rule downlink_at.dl_ops [OF iso_downlink [OF assms(2)]] uplink_at.up_ops [OF iso_uplink [OF assms(2)]],
    assumption)+

interpretation own: conn_invariant E c "iso c w0 n" "\<lambda>w. okp c w0 (next_addr w)" "okpk c w0"
  for E :: "'e env_scheme" and c w0 n
proof (unfold_locales, goal_cases)
  case (14 w x)
  then show ?case by (intro iso_call) (simp_all add: call_by_def)
next
  case (18 w arg k)
  obtain p w' where start: "packetizer_start E k arg w = (p, w')" by (cases "packetizer_start E k arg w")
  with iso_packetizer [OF 18 start] show ?case by (auto simp: okpk_def)
next
  case (21 w a arg dst)
  then show ?case by (intro iso_streams(1) iso_own(3))
next
  case (32 w a arg dst m)
  then show ?case by (intro iso_objects(5) iso_own(3))
qed (simp_all add: okpk_def iso_fields iso_opens iso_uplink_open iso_objects iso_streams iso_finish iso_pointer pointers_def)

end
