(* ===== verification/Isolation.thy ===== *)
theory Isolation
  imports Ownership Gateway_App
begin

text \<open>
  Connections do not disturb each other.  In every reachable state no address has two owners, and
  whatever runs on behalf of one connection leaves alone the record of any other, the objects at
  the addresses it owns and the downlink blocks its contexts hold.
\<close>

subsection \<open>Steps of one connection\<close>

text \<open>
  The entries of \<open>gw_step\<close>, each with the connection it belongs to: callbacks of the Bluetooth host
  are given it, those of the cloud client are given a context, which names it.
\<close>

inductive conn_step :: "'e env_scheme \<Rightarrow> uuids \<Rightarrow> conn \<Rightarrow> 'a gw_world_scheme \<Rightarrow> 'a gw_world_scheme \<Rightarrow> bool"
  for E U c where
  conn_connected: "conn_step E U c w (bt_connected E U c err w)"
| conn_disconnected: "bt_disconnected E c w = Inr w' \<Longrightarrow> conn_step E U c w w'"
| conn_service: "discover_services E U c svc w = Inr (it, w') \<Longrightarrow> conn_step E U c w w'"
| conn_characteristic: "discover_characteristics E U c chrc w = Inr (it, w') \<Longrightarrow> conn_step E U c w w'"
| conn_descriptor: "discover_descriptors E c ccc w = Inr (it, w') \<Longrightarrow> conn_step E U c w w'"
| conn_serial: "server_cert_read_cb E c err packet w = Inr w' \<Longrightarrow> conn_step E U c w w'"
| conn_device_cert: "device_cert_read_cb E c err packet w = Inr w' \<Longrightarrow> conn_step E U c w w'"
| conn_server_cert: "server_cert_write_response_cb E c err w = Inr w' \<Longrightarrow> conn_step E U c w w'"
| conn_uplink_read: "uplink_read_cb E c err packet w = Inr (it, w') \<Longrightarrow> conn_step E U c w w'"
| conn_uplink_indicate: "uplink_indicate_cb E c pkt w = Inr (it, w') \<Longrightarrow> conn_step E U c w w'"
| conn_downlink_written: "downlink_write_response_cb E c err w = Inr w' \<Longrightarrow> conn_step E U c w w'"
| conn_acknowledged: "uplinks w a = Some u \<Longrightarrow> end_cb_arg u = c
    \<Longrightarrow> block_upload_callback E (uplink_end_cb E) status (Some a) w = Inr w' \<Longrightarrow> conn_step E U c w w'"
| conn_block: "downlinks w a = Some d \<Longrightarrow> cb_arg d = c
    \<Longrightarrow> downlink_block_cb E (downlink_data_available E) src lst (Some a) w = Inr (gs, w')
    \<Longrightarrow> length src \<le> max_block_size E \<Longrightarrow> conn_step E U c w w'"
| conn_end: "downlinks w a = Some d \<Longrightarrow> cb_arg d = c
    \<Longrightarrow> downlink_end_cb (downlink_data_available E) status (Some a) w = Inr w' \<Longrightarrow> conn_step E U c w w'"
| conn_end_ok: "downlink_end_cb (downlink_data_available E) GOLIOTH_OK p w = Inr w' \<Longrightarrow> conn_step E U c w w'"

lemma gw_step_conn:
  assumes "gw_step E U A w w'"
  shows "(\<exists>c. conn_step E U c w w') \<or> (\<exists>peer t ads. w' = device_found E A peer t ads w)"
  using assms
proof cases
  case (step_acknowledged status p)
  then obtain a u where a: "p = Some a" "uplinks w a = Some u"
    unfolding block_upload_callback_def by (elim deref_InrE)
  with step_acknowledged conn_acknowledged [OF a(2) refl] show ?thesis by blast
next
  case (step_block src lst p gs)
  then obtain a d where a: "p = Some a" "downlinks w a = Some d"
    unfolding downlink_block_cb_def by (elim deref_InrE)
  with step_block conn_block [OF a(2) refl] show ?thesis by blast
next
  case (step_end status p)
  show ?thesis
  proof (cases "status = GOLIOTH_OK")
    case True
    with step_end conn_end_ok show ?thesis by blast
  next
    case False
    with step_end obtain w1 where "downlink_abort p w = Inr w1"
      by (auto simp: downlink_end_cb_def elim: bnd_InrE)
    then obtain a d where a: "p = Some a" "downlinks w a = Some d"
      unfolding downlink_abort_def by (elim deref_InrE)
    with step_end conn_end [OF a(2) refl] show ?thesis by blast
  qed
qed (blast intro: conn_step.intros)+

lemma conn_step_iso:
  assumes step: "conn_step E U c w w'" and iso: "iso c w0 n w"
    and mine: "\<And>a d. downlinks w a = Some d \<Longrightarrow> cb_arg d = c \<Longrightarrow> okp c w0 (next_addr w) (Some a)"
      "\<And>a u. uplinks w a = Some u \<Longrightarrow> end_cb_arg u = c \<Longrightarrow> okp c w0 (next_addr w) (Some a)"
  shows "iso c w0 n w'"
  using step
proof cases
  case (conn_connected err)
  then show ?thesis using own.own_connected [OF iso] by simp
next
  case (conn_acknowledged a u status)
  from keptD [OF iso_streams(6) [OF iso mine(2)] conn_acknowledged(3)] conn_acknowledged show ?thesis by simp
next
  case (conn_block a d src lst gs)
  from mine(1) [OF conn_block(1,2)] have at: "downlink_at E (iso c w0 (next_addr w)) (Some a) (good c w0) (\<lambda>b. \<not> foreign c w0 b) (\<lambda>c'. c' = c)"
    by (rule iso_downlink)
  have "kept (iso c w0 n) snd (downlink_block_cb E (downlink_data_available E) src lst (Some a) w)"
    by (rule iso_lift [OF iso], rule downlink_at.dl_block [OF at]) (use own.own_data_available in auto)
  from keptD [OF this conn_block(3)] show ?thesis by simp
next
  case (conn_end a d status)
  from mine(1) [OF conn_end(1,2)] have at: "downlink_at E (iso c w0 (next_addr w)) (Some a) (good c w0) (\<lambda>b. \<not> foreign c w0 b) (\<lambda>c'. c' = c)"
    by (rule iso_downlink)
  have "kept (iso c w0 n) (\<lambda>w. w) (downlink_end_cb (downlink_data_available E) status (Some a) w)"
    by (rule iso_lift [OF iso], rule downlink_at.dl_end [OF at]) (use own.own_data_available in auto)
  from keptD [OF this conn_end(3)] show ?thesis by simp
next
  case (conn_end_ok p)
  with iso show ?thesis by (simp add: downlink_end_cb_def)
next
  case conn_disconnected
  from keptD [OF own.own_disconnected [OF iso] this] show ?thesis by simp
next
  case (conn_service svc it)
  from keptD [OF own.own_services [OF iso] this] show ?thesis by simp
next
  case (conn_characteristic chrc it)
  from keptD [OF own.own_characteristics [OF iso] this] show ?thesis by simp
next
  case (conn_descriptor ccc it)
  from keptD [OF own.own_descriptors [OF iso] this] show ?thesis by simp
next
  case (conn_serial err packet)
  from keptD [OF own.own_server_read [OF iso] this] show ?thesis by simp
next
  case (conn_device_cert err packet)
  from keptD [OF own.own_device_read [OF iso] this] show ?thesis by simp
next
  case (conn_server_cert err)
  from keptD [OF own.own_cert_response [OF iso] this] show ?thesis by simp
next
  case (conn_uplink_read err packet it)
  from keptD [OF own.own_read [OF iso] this] show ?thesis by simp
next
  case (conn_uplink_indicate pkt it)
  from keptD [OF own.own_indicate [OF iso] this] show ?thesis by simp
next
  case (conn_downlink_written err)
  from keptD [OF own.own_response [OF iso] this] show ?thesis by simp
qed

subsection \<open>Steps keep connections apart\<close>

lemma separateD:
  assumes "separate w" and "owns w c a"
  shows "a < next_addr w" and "\<not> elsewhere c w a" and "okp c w (next_addr w) (Some a)"
  using assms by (auto simp: separate_def elsewhere_def okp_def)

lemma owns_simps:
  "Some a = packetizer_arg w c \<Longrightarrow> owns w c a" "Some a \<in> set (pointers (nodes w c)) \<Longrightarrow> owns w c a"
  "downlinks w a = Some d \<Longrightarrow> cb_arg d = c \<Longrightarrow> owns w c a"
  "uplinks w a = Some u \<Longrightarrow> end_cb_arg u = c \<Longrightarrow> owns w c a"
  by (auto simp: owns_def)

lemma holds_live:
  assumes "dl_inv E w" and "holds w c b"
  shows "b < next_addr w"
  using assms dl_invD(1,3) [OF assms(1)]
  by (force simp: holds_def wf_downlink_def slab_inv_def dest: fresh_aboveD)

lemma iso_begin:
  assumes sep: "separate w" and inv: "dl_inv E w"
  shows "iso c w 0 w"
proof -
  have "others_same c w w"
    using holds_live [OF inv] separateD(1) [OF sep] by (auto simp: others_same_def elsewhere_def foreign_def)
  moreover have "okp c w (next_addr w) p" if "p \<in> set (packetizer_arg w c # pointers (nodes w c))" for p
  proof (cases p)
    case (Some a)
    with that have "owns w c a" by (simp add: owns_def)
    from separateD(3) [OF sep this] Some show ?thesis by simp
  qed simp
  moreover have "a < next_addr w \<and> good c w d" if a: "downlinks w a = Some d" "\<not> elsewhere c w a" for a d
  proof -
    have d: "owns w (cb_arg d) a" using a(1) by (simp add: owns_def)
    with a(2) have own: "cb_arg d = c" by (auto simp: elsewhere_def)
    have "\<not> foreign c w b" if "b \<in> set (held d)" for b
      using that own a(1) dl_invD(4) [OF inv] by (fastforce simp: foreign_def holds_def)
    with own separateD(1) [OF sep d] show ?thesis by (simp add: good_def)
  qed
  moreover have "a < next_addr w \<and> end_cb_arg u = c" if a: "uplinks w a = Some u" "\<not> elsewhere c w a" for a u
  proof -
    have u: "owns w (end_cb_arg u) a" using a(1) by (simp add: owns_def)
    with a(2) separateD(1) [OF sep u] show ?thesis by (auto simp: elsewhere_def)
  qed
  ultimately show ?thesis by (auto simp: iso_def own_ok_def list_all_iff)
qed

lemma conn_step_isolated:
  assumes "separate w" and "dl_inv E w" and "conn_step E U c w w'"
  shows "iso c w 0 w'"
  using conn_step_iso [OF assms(3) iso_begin [OF assms(1,2)]] separateD(3) [OF assms(1)] owns_simps(3,4) by metis

lemma iso_owns:
  assumes iso: "iso c w n w'" and "c' \<noteq> c"
  shows "owns w' c' a \<longleftrightarrow> owns w c' a"
proof -
  have node: "nodes w' c' = nodes w c'" and same: "\<And>a. elsewhere c w a \<Longrightarrow> object_at w' a = object_at w a"
    using iso assms(2) by (auto simp: iso_def others_same_def)
  have arg: "packetizer_arg w' c' = packetizer_arg w c'"
  proof (cases "packetizer (nodes w c')")
    case (Some q)
    then have "owns w c' q" by (auto simp: owns_def pointers_def)
    with same [of q] assms(2) have "packetizers w' q = packetizers w q" by (auto simp: elsewhere_def object_at_def)
    then show ?thesis using Some node by (simp add: packetizer_arg_def)
  qed (simp add: packetizer_arg_def node)
  show ?thesis
  proof (cases "elsewhere c w a")
    case True
    with same [OF this] show ?thesis by (simp add: owns_def arg node object_at_def)
  next
    case False
    with iso_own(1,2) [OF iso, of a] have "owns w' c' a \<Longrightarrow> owns w c' a"
      using assms(2) by (auto simp: owns_def arg node good_def split: option.splits)
    moreover from False assms(2) have "\<not> owns w c' a" by (auto simp: elsewhere_def)
    ultimately show ?thesis by blast
  qed
qed

lemma iso_separate:
  assumes iso: "iso c w n w'" and sep: "separate w"
  shows "separate w'"
proof -
  have own: "a < next_addr w' \<and> \<not> elsewhere c w a" if o: "owns w' c a" for a
  proof (cases "Some a \<in> set (packetizer_arg w' c # pointers (nodes w' c))")
    case True
    from iso_pointer [OF iso this] show ?thesis by (simp add: okp_def)
  next
    case False
    have "\<not> elsewhere c w a"
    proof
      assume "elsewhere c w a"
      with iso have "object_at w' a = object_at w a" by (simp add: iso_def others_same_def)
      with o False have "owns w c a" by (auto simp: owns_def object_at_def)
      with separateD(2) [OF sep this] \<open>elsewhere c w a\<close> show False by simp
    qed
    with o False iso show ?thesis
      by (auto simp: iso_def own_ok_def owns_def split: option.splits)
  qed
  have other: "owns w' c' a \<longleftrightarrow> owns w c' a" if "c' \<noteq> c" for c' a
    using iso_owns [OF iso that] .
  have "next_addr w \<le> next_addr w'" using iso by (simp add: iso_def others_same_def)
  with other separateD(1) [OF sep] own have bound: "owns w' c' a \<Longrightarrow> a < next_addr w'" for c' a
    by (cases "c' = c") (auto dest!: separateD(1) [OF sep])
  have "c1 = c2" if "owns w' c1 a" "owns w' c2 a" for c1 c2 a
  proof (cases "c1 = c \<or> c2 = c")
    case True
    with that own other show ?thesis by (metis elsewhere_def)
  next
    case False
    with that other sep show ?thesis unfolding separate_def by blast
  qed
  with bound show ?thesis by (simp add: separate_def)
qed

lemma iso_undisturbed: "iso c w n w' \<Longrightarrow> c' \<noteq> c \<Longrightarrow> undisturbed c' w w'"
  by (fastforce simp: iso_def others_same_def undisturbed_def elsewhere_def foreign_def call_by_def)

subsection \<open>The whole application\<close>

definition apart :: "'e env_scheme \<Rightarrow> 'a gw_world_scheme \<Rightarrow> bool" where
  "apart E w \<longleftrightarrow> gw_inv E w \<and> separate w"

lemma separate_frame:
  assumes "separate w" and "next_addr w \<le> next_addr w'" and "nodes w' = nodes w" and "packetizers w' = packetizers w"
    and "downlinks w' = downlinks w" and "uplinks w' = uplinks w"
  shows "separate w'"
proof -
  have "owns w' c a = owns w c a" for c a
    unfolding owns_def packetizer_arg_def assms(3-6) ..
  with assms(1,2) show ?thesis by (fastforce simp: separate_def)
qed

lemma separate_booted: "booted E w \<Longrightarrow> separate w"
  by (simp add: booted_def separate_def owns_def packetizer_arg_def pointers_def zero_node_def)

lemma refresh_frame:
  "kept (\<lambda>w'. next_addr w' = next_addr w \<and> nodes w' = nodes w \<and> packetizers w' = packetizers w
     \<and> downlinks w' = downlinks w \<and> uplinks w' = uplinks w) (\<lambda>w. w) (cert_module_on_connected E w)"
  by (auto simp: kept_def cert_module_on_connected_def server_crt_update_def bnd_simps ext_call_def Let_def split: if_splits option.splits)

interpretation apart_app: app_invariant E U A "apart E" for E :: "'e env_scheme" and U A
proof
  show "apart E w'" if "gw_step E U A w w'" and "apart E w" for w w' :: "'a gw_world_scheme"
  proof -
    note step = that(1)
    have inv: "gw_inv E w'" using inv_app.inv_radio that by (auto simp: apart_def)
    consider (one) c where "conn_step E U c w w'" | (found) peer t ads where "w' = device_found E A peer t ads w"
      using gw_step_conn [OF step] by blast
    then have "separate w'"
    proof cases
      case (one c)
      from that(2) have "separate w" "dl_inv E w" by (auto simp: apart_def gw_inv_def owners_ok_def)
      from iso_separate [OF conn_step_isolated [OF this one] this(1)] show ?thesis .
    next
      case found
      with that(2) show ?thesis
        by (auto simp: apart_def device_found_def stop_and_connect_def scan_start_def ext_call_def Let_def
            intro: separate_frame split: if_splits)
    qed
    with inv show ?thesis by (simp add: apart_def)
  qed
  show "kept (apart E) (\<lambda>w. w) (cert_module_on_connected E w)" if "apart E w" for w :: "'a gw_world_scheme"
    using that keptD [OF inv_app.inv_refresh] keptD [OF refresh_frame [of w E]]
    by (auto simp: apart_def kept_def intro!: separate_frame [of w])
qed (auto simp: apart_def intro: gw_inv_trace separate_frame)

subsection \<open>Isolation\<close>

lemma apart_reach:
  assumes "app_reach E U A C s b" and "max_block_size E < 2 ^ 31"
  shows "apart E (gw s)"
  by (rule apart_app.app_inv [OF _ assms(1)])
    (use gw_inv_booted [OF _ assms(2)] separate_booted in \<open>auto simp: apart_def\<close>)

text \<open>
  C9: connections stay apart.  In every state the application can reach, an address belongs to one
  connection at most: no record points to an object of another connection, no packetizer of one
  works on a context of another, and the contexts the cloud client knows name the connection whose
  record may point to them.  Pointers that are left behind in a record do not matter: no address they
  hold is ever owned by another connection.
\<close>

theorem connections_stay_apart:
  assumes "app_reach E U A C s b" and "max_block_size E < 2 ^ 31"
    and "owns (gw s) c a" and "owns (gw s) c' a"
  shows "c = c' \<and> a < next_addr (gw s)"
  using apart_reach [OF assms(1,2)] assms(3,4) by (auto simp: apart_def separate_def)

text \<open>
  C4: connections are isolated.  A callback of the Bluetooth host for connection \<open>c\<close>, or of the cloud
  client for a context of \<open>c\<close>, when it returns, leaves every other connection as it was: its node
  record, the objects at all addresses it owns (contexts, packetizer, scratch buffers), and the
  blocks its downlinks hold; and it makes no request on the other connection.
\<close>

theorem connections_isolated:
  assumes "app_reach E U A C s b" and "max_block_size E < 2 ^ 31"
    and "conn_step E U c (gw s) w'" and "c' \<noteq> c"
  shows "undisturbed c' (gw s) w'"
proof -
  from apart_reach [OF assms(1,2)] have "separate (gw s)" "dl_inv E (gw s)" by (simp_all add: apart_def gw_inv_def owners_ok_def)
  from iso_undisturbed [OF conn_step_isolated [OF this assms(3)] assms(4)] show ?thesis .
qed

text \<open>Node 0, which has no certificates, is sending its uplink when node 1 connects.\<close>

definition small_linked :: "gw_world app" where
  "small_linked = small_busy\<lparr>gw := uplink_start small_env 0 (gw small_busy)\<rparr>"

lemma small_busy_node: "attr_handles (nodes (gw small_busy) 0) i = \<lparr>attr_value = 0, attr_ccc = 0\<rparr>"
  by (simp add: small_busy_def bt_connected_def bt_start_def discover_def ext_call_def set_node_def zero_node_def Let_def)

lemma small_linked_reach: "app_reach small_env small_uuids A small_cfg small_linked False"
proof -
  have "discover_descriptors small_env 0 None (gw small_busy) = Inr (ITER_STOP, gw small_linked)"
    by (simp add: discover_descriptors_def value_handle_def small_busy_node small_linked_def)
  moreover have "bt_up small_busy" using small_up_step(2) by (simp add: small_busy_def bt_up_def)
  ultimately show ?thesis
    using reach_step [OF small_busy_reach step_radio [OF _ step_descriptor]] by (simp add: small_linked_def)
qed

lemma small_linked_uplink: "\<exists>a. node_uplink (nodes (gw small_linked) 0) = Some a \<and> uplinks (gw small_linked) a \<noteq> None"
  by (simp add: small_linked_def uplink_start_def downlink_start_def value_handle_def small_busy_node uplink_open_def
      pouch_block_alloc_def malloc_def ext_call_def put_uplink_def set_node_def Let_def)

theorem connections_stay_apart_witness:
  "\<exists>a. owns (gw small_linked) 0 a \<and> a < next_addr (gw small_linked) \<and> \<not> owns (gw small_linked) 1 a"
proof -
  from small_linked_uplink obtain a where "node_uplink (nodes (gw small_linked) 0) = Some a" by blast
  then have a: "owns (gw small_linked) 0 a" by (simp add: owns_def pointers_def)
  have "max_block_size small_env < 2 ^ 31" by simp
  note apart = connections_stay_apart [OF small_linked_reach [of upper_adv] this a]
  show ?thesis
    using a apart [OF a] apart [of 1] by (intro exI [of _ a]) auto
qed

theorem connections_isolated_witness:
  "\<exists>a u. node_uplink (nodes (bt_connected small_env small_uuids 1 0 (gw small_linked)) 0) = Some a
     \<and> uplinks (bt_connected small_env small_uuids 1 0 (gw small_linked)) a = Some u"
proof -
  from small_linked_uplink obtain a u where a: "node_uplink (nodes (gw small_linked) 0) = Some a" "uplinks (gw small_linked) a = Some u"
    by auto
  have "max_block_size small_env < 2 ^ 31" by simp
  from connections_isolated [OF small_linked_reach [of upper_adv] this conn_connected [of small_env small_uuids 1 _ 0], of 0] a
  show ?thesis by (auto simp: undisturbed_def owns_def pointers_def object_at_def)
qed

end
