(* ===== verification/Connecting.thy ===== *)
theory Connecting
  imports Isolation
begin

text \<open>
  The set-up of a connection: discovery and certificate exchange, from the connection event to the
  start of the uplink.  The host answers the request that is outstanding, whatever the peer
  sends; between the answers the other connections, the cloud, the client and the main thread
  take any steps.  As long as memory can be allocated, no answer runs into undefined behaviour.
\<close>

subsection \<open>Requests and their answers\<close>

text \<open>The request a list of calls leaves outstanding on a connection: the last one, unless it was dropped.\<close>

fun request_of :: "conn \<Rightarrow> ext_call \<Rightarrow> gatt_cb option" where
  "request_of c (Gatt_discover c' (Discover_params cb _ _ _ _)) = (if c' = c then Some cb else None)"
| "request_of c (Gatt_read c' (Read_params cb _)) = (if c' = c then Some cb else None)"
| "request_of c (Gatt_write c' (Write_params cb _ _)) = (if c' = c then Some cb else None)"
| "request_of c (Gatt_subscribe c' (Subscribe_params cb _ _)) = (if c' = c then Some cb else None)"
| "request_of c _ = None"

definition awaited :: "conn \<Rightarrow> ext_call list \<Rightarrow> gatt_cb option" where
  "awaited c xs = (if Conn_disconnect c \<in> set xs then None
     else foldl (\<lambda>q x. case request_of c x of None \<Rightarrow> q | Some cb \<Rightarrow> Some cb) None xs)"

text \<open>
  The callback a request names, with whatever the host reports; the boolean tells whether the
  same request goes on.  Lengths of packets are \<open>uint16_t\<close>.
\<close>

definition goes_on :: "fault + (iter \<times> 'w) \<Rightarrow> fault + (bool \<times> 'w)" where
  "goes_on r = bnd r (\<lambda>(it, w). Inr (it = ITER_CONTINUE, w))"

definition ends :: "fault + 'w \<Rightarrow> fault + (bool \<times> 'w)" where
  "ends r = bnd r (\<lambda>w. Inr (False, w))"

inductive answered :: "'e env_scheme \<Rightarrow> uuids \<Rightarrow> conn \<Rightarrow> gatt_cb \<Rightarrow> 'a gw_world_scheme
    \<Rightarrow> fault + (bool \<times> 'a gw_world_scheme) \<Rightarrow> bool" for E U c where
  "answered E U c Cb_discover_services w (goes_on (discover_services E U c svc w))"
| "answered E U c Cb_discover_characteristics w (goes_on (discover_characteristics E U c chrc w))"
| "answered E U c Cb_discover_descriptors w (goes_on (discover_descriptors E c ccc w))"
| "length packet < 2 ^ 16 \<Longrightarrow> answered E U c Cb_server_cert_read w (ends (server_cert_read_cb E c err packet w))"
| "answered E U c Cb_server_cert_write_response w (ends (server_cert_write_response_cb E c err w))"
| "length packet < 2 ^ 16 \<Longrightarrow> answered E U c Cb_device_cert_read w (ends (device_cert_read_cb E c err packet w))"

subsection \<open>Steps that do not belong to the connection\<close>

text \<open>The callbacks of the cloud client, for any context.\<close>

inductive cloud_step :: "'e env_scheme \<Rightarrow> 'a gw_world_scheme \<Rightarrow> 'a gw_world_scheme \<Rightarrow> bool" for E where
  "block_upload_callback E (uplink_end_cb E) status p w = Inr w' \<Longrightarrow> cloud_step E w w'"
| "downlink_block_cb E (downlink_data_available E) src lst p w = Inr (gs, w') \<Longrightarrow> length src \<le> max_block_size E
    \<Longrightarrow> cloud_step E w w'"
| "downlink_end_cb (downlink_data_available E) status p w = Inr w' \<Longrightarrow> cloud_step E w w'"

text \<open>Everything but the Bluetooth callbacks of the connection.\<close>

inductive other_step :: "'e env_scheme \<Rightarrow> uuids \<Rightarrow> adv \<Rightarrow> app_cfg \<Rightarrow> conn \<Rightarrow> ('a gw_world_scheme, 's) app_scheme
    \<Rightarrow> ('a gw_world_scheme, 's) app_scheme \<Rightarrow> bool" for E U A C c where
  other_conn: "bt_up s \<Longrightarrow> conn_step E U c' (gw s) w' \<Longrightarrow> c' \<noteq> c \<Longrightarrow> other_step E U A C c s (s\<lparr>gw := w'\<rparr>)"
| other_cloud: "bt_up s \<Longrightarrow> cloud_step E (gw s) w' \<Longrightarrow> other_step E U A C c s (s\<lparr>gw := w'\<rparr>)"
| other_found: "bt_up s \<Longrightarrow> other_step E U A C c s (s\<lparr>gw := device_found E A peer t ads (gw s)\<rparr>)"
| other_main: "main_step E C s = Some (Inr s') \<Longrightarrow> other_step E U A C c s s'"
| other_client: "Client_register True \<in> set (trace (gw s)) \<Longrightarrow> other_step E U A C c s (on_client_event ev s)"
| other_lte: "Lte_connect \<in> set (trace (gw s)) \<Longrightarrow> other_step E U A C c s (lte_handler E C ev s)"
| other_network: "Net_callback \<in> set (trace (gw s)) \<Longrightarrow> other_step E U A C c s (net_mgmt_cb ev s)"

subsection \<open>The set-up as a state machine\<close>

text \<open>
  The second component is the request whose answer the connection waits for.  The record is taken
  over by a new connection when no context of an earlier one is left.
\<close>

definition unused :: "conn \<Rightarrow> 'a gw_world_scheme \<Rightarrow> bool" where
  "unused c w \<longleftrightarrow> (\<forall>d \<in> ran (downlinks w). cb_arg d \<noteq> c) \<and> (\<forall>u \<in> ran (uplinks w). end_cb_arg u \<noteq> c)"

definition new_calls :: "'a gw_world_scheme \<Rightarrow> 'a gw_world_scheme \<Rightarrow> ext_call list" where
  "new_calls w w' = drop (length (trace w)) (trace w')"

inductive connecting :: "'e env_scheme \<Rightarrow> uuids \<Rightarrow> adv \<Rightarrow> app_cfg \<Rightarrow> conn \<Rightarrow> ('a gw_world_scheme, 's) app_scheme
    \<Rightarrow> gatt_cb option \<Rightarrow> bool" for E U A C c where
  connecting_connected: "app_reach E U A C s b \<Longrightarrow> bt_up s \<Longrightarrow> unused c (gw s) \<Longrightarrow> w' = bt_connected E U c 0 (gw s)
    \<Longrightarrow> connecting E U A C c (s\<lparr>gw := w'\<rparr>) (awaited c (new_calls (gw s) w'))"
| connecting_answered: "connecting E U A C c s (Some cb) \<Longrightarrow> bt_up s \<Longrightarrow> answered E U c cb (gw s) (Inr (again, w'))
    \<Longrightarrow> connecting E U A C c (s\<lparr>gw := w'\<rparr>) (if again then Some cb else awaited c (new_calls (gw s) w'))"
| connecting_other: "connecting E U A C c s p \<Longrightarrow> other_step E U A C c s s' \<Longrightarrow> connecting E U A C c s' p"

subsection \<open>What the record holds while an answer is awaited\<close>

text \<open>Pointers are NULL or live, so that everything can be released.\<close>

definition live_at :: "(addr \<rightharpoonup> 'x) \<Rightarrow> ptr \<Rightarrow> bool" where
  "live_at h p \<longleftrightarrow> (\<forall>a. p = Some a \<longrightarrow> h a \<noteq> None)"

definition releasable :: "conn \<Rightarrow> 'a gw_world_scheme \<Rightarrow> bool" where
  "releasable c w \<longleftrightarrow> live_at (scratches w) (server_cert_scratch (nodes w c)) \<and> live_at (server_ctxs w) (server_cert_ctx (nodes w c))
     \<and> live_at (packetizers w) (packetizer (nodes w c)) \<and> device_cert_ctx (nodes w c) = NULL"

definition idle :: "conn \<Rightarrow> 'a gw_world_scheme \<Rightarrow> bool" where
  "idle c w \<longleftrightarrow> server_cert_scratch (nodes w c) = NULL \<and> server_cert_ctx (nodes w c) = NULL
     \<and> packetizer (nodes w c) = NULL \<and> device_cert_ctx (nodes w c) = NULL"

definition sending_cert :: "nat \<Rightarrow> conn \<Rightarrow> 'a gw_world_scheme \<Rightarrow> bool" where
  "sending_cert m c w \<longleftrightarrow> device_cert_ctx (nodes w c) = NULL
     \<and> (\<exists>b n a p. server_cert_scratch (nodes w c) = Some b \<and> scratches w b = Some n \<and> m - BT_ATT_OVERHEAD \<le> n
         \<and> server_cert_ctx (nodes w c) = Some a \<and> server_ctxs w a \<noteq> None
         \<and> packetizer (nodes w c) = Some p \<and> packetizers w p = Some (Fill_server_cert, Some a))"

fun awaits :: "nat \<Rightarrow> conn \<Rightarrow> gatt_cb \<Rightarrow> 'a gw_world_scheme \<Rightarrow> bool" where
  "awaits m c Cb_discover_services w = (idle c w \<and> discover_params w c \<noteq> Inl Union_mismatch)"
| "awaits m c Cb_discover_characteristics w = (idle c w \<and> discover_params w c \<noteq> Inl Union_mismatch)"
| "awaits m c Cb_discover_descriptors w = idle c w"
| "awaits m c Cb_server_cert_read w = (idle c w \<and> (\<exists>h. params (nodes w c) = Read_params Cb_server_cert_read h))"
| "awaits m c Cb_server_cert_write_response w = sending_cert m c w"
| "awaits m c Cb_device_cert_read w = ((\<exists>a. device_cert_ctx (nodes w c) = Some a \<and> device_ctxs w a \<noteq> None)
     \<and> (\<exists>h. params (nodes w c) = Read_params Cb_device_cert_read h))"
| "awaits m c _ w = True"

text \<open>Where a handler may leave the connection; up to the uplink it has no context of the streams.\<close>

definition same_streams :: "'a gw_world_scheme \<Rightarrow> 'a gw_world_scheme \<Rightarrow> bool" where
  "same_streams w w' \<longleftrightarrow> downlinks w' = downlinks w \<and> uplinks w' = uplinks w"

definition uplink_cb :: "gatt_cb \<Rightarrow> bool" where
  "uplink_cb cb \<longleftrightarrow> cb = Cb_uplink_read \<or> cb = Cb_uplink_indicate"

definition settles :: "nat \<Rightarrow> conn \<Rightarrow> 'a gw_world_scheme \<Rightarrow> 'a gw_world_scheme \<Rightarrow> bool" where
  "settles m c w w' \<longleftrightarrow> (\<exists>xs. trace w' = trace w @ xs
     \<and> (\<forall>cb. awaited c xs = Some cb \<longrightarrow> awaits m c cb w' \<and> (uplink_cb cb \<or> same_streams w w')))"

definition quiet :: "conn \<Rightarrow> ext_call \<Rightarrow> bool" where
  "quiet c x \<longleftrightarrow> request_of c x = None \<and> x \<noteq> Conn_disconnect c"

lemma awaited_dropped: "Conn_disconnect c \<in> set xs \<Longrightarrow> awaited c xs = None"
  by (simp add: awaited_def)

lemma awaited_quiet: "list_all (quiet c) xs \<Longrightarrow> awaited c (xs @ ys) = awaited c ys"
proof (induction xs)
  case (Cons x xs)
  then show ?case by (auto simp: awaited_def quiet_def)
qed simp

lemma settles_quiet:
  assumes "trace w1 = trace w @ xs" and "list_all (quiet c) xs" and "settles m c w1 w2" and "same_streams w w1"
  shows "settles m c w w2"
  using assms by (auto simp: settles_def awaited_quiet same_streams_def)

lemma settles_dropped: "trace w' = trace w @ xs \<Longrightarrow> Conn_disconnect c \<in> set xs \<Longrightarrow> settles m c w w'"
  by (auto simp: settles_def awaited_dropped)

lemma settles_silent: "trace w' = trace w @ xs \<Longrightarrow> list_all (quiet c) xs \<Longrightarrow> settles m c w w'"
  using awaited_quiet [of c xs "[]"] by (auto simp: settles_def awaited_def)

text \<open>A request, dropped after all if the host refuses it.\<close>

lemma settles_request:
  assumes "request_of c x = Some cb" and "trace w' = trace w @ x # xs" and "xs = [] \<or> Conn_disconnect c \<in> set xs"
    and "xs = [] \<Longrightarrow> awaits m c cb w' \<and> same_streams w w'"
  shows "settles m c w w'"
proof (cases "xs = []")
  case True
  then have "awaited c [x] = Some cb" using assms(1) by (auto simp: awaited_def)
  with assms True show ?thesis by (simp add: settles_def)
next
  case False
  with assms(3) have "awaited c (x # xs) = None" by (simp add: awaited_dropped)
  with assms(2) show ?thesis by (auto simp: settles_def)
qed

subsection \<open>The handlers\<close>

text \<open>The platform the set-up relies on: memory, a constant MTU, and payloads no longer than their packets.\<close>

definition roomy :: "'e env_scheme \<Rightarrow> conn \<Rightarrow> nat \<Rightarrow> bool" where
  "roomy E c m \<longleftrightarrow> (\<forall>t. mtu E t c = m) \<and> (\<forall>t. ret E t Malloc \<noteq> 0) \<and> (\<forall>t q. ret E t (Packetizer_start q) \<noteq> 0)
     \<and> (\<forall>p bs l. pk_decode E p = Inr (bs, l) \<longrightarrow> length bs \<le> length p) \<and> device_cert_max E < 2 ^ 31"

lemma malloc_roomy: "roomy E c m \<Longrightarrow> malloc E w = (Some (next_addr w),
    w\<lparr>trace := trace w @ [Malloc], next_addr := Suc (next_addr w)\<rparr>)"
  by (simp add: roomy_def malloc_def ext_call_def)

lemma server_cleanup:
  assumes "releasable c w"
  shows "\<exists>w'. server_cert_cleanup E c w = Inr w' \<and> idle c w' \<and> (\<exists>xs. trace w' = trace w @ xs \<and> list_all (quiet c) xs)
    \<and> same_streams w w'"
  using assms
  by (auto simp: releasable_def live_at_def server_cert_cleanup_def free_scratch_def server_cert_abort_def packetizer_finish_def
      idle_def quiet_def same_streams_def ext_call_def Let_def deref_def split: option.split)

lemma server_fail:
  assumes "releasable c w"
  shows "\<exists>w'. server_cert_fail E c w = Inr w' \<and> settles m c w w'"
proof -
  from server_cleanup [OF assms, of E] obtain w1 xs where "server_cert_cleanup E c w = Inr w1" "trace w1 = trace w @ xs" by blast
  then show ?thesis
    by (auto simp: server_cert_fail_def bt_finished_def intro!: settles_dropped [where xs = "xs @ [Conn_disconnect c]"])
qed

lemma device_fail:
  assumes "live_at (device_ctxs w) (device_cert_ctx (nodes w c))"
  shows "\<exists>w'. device_cert_fail E c w = Inr w' \<and> settles m c w w'"
  using assms
  by (auto simp: live_at_def device_cert_fail_def device_cert_cleanup_def device_cert_abort_def bt_finished_def deref_def
      intro!: settles_dropped [where xs = "[Conn_disconnect c]"] split: option.split)

lemma device_start:
  assumes "roomy E c m"
  shows "\<exists>w'. device_cert_read_start E c w = Inr w' \<and> settles m c w w'"
proof -
  define prm where "prm = Read_params Cb_device_cert_read (value_handle w c ATTR_DEVICE_CERT)"
  define w1 where "w1 = set_node c (params_update (\<lambda>_. prm)) (set_node c (device_cert_ctx_update (\<lambda>_. Some (next_addr w)))
    ((set_node c (params_update (\<lambda>_. No_params)) w)\<lparr>trace := trace w @ [Malloc], next_addr := Suc (next_addr w),
      device_ctxs := (device_ctxs w)(next_addr w \<mapsto> \<lparr>dc_len = 0, dc_buf = map (garbage E (next_addr w)) [0..<device_cert_max E]\<rparr>)\<rparr>))"
  define w2 where "w2 = w1\<lparr>trace := trace w1 @ [Gatt_read c prm]\<rparr>"
  have run: "device_cert_read_start E c w = (if ret E (trace w1) (Gatt_read c prm) \<noteq> 0 then device_cert_fail E c w2 else Inr w2)"
    by (simp add: device_cert_read_start_def device_cert_start_def malloc_roomy [OF assms] ext_call_def Let_def
        value_handle_def prm_def w1_def w2_def)
  have live: "device_cert_ctx (nodes w2 c) = Some (next_addr w)" "device_ctxs w2 (next_addr w) \<noteq> None"
    "params (nodes w2 c) = prm"
    by (simp_all add: w2_def w1_def)
  then have drop: "\<exists>w'. device_cert_fail E c w2 = Inr w' \<and> trace w' = trace w2 @ [Conn_disconnect c]"
    by (auto simp: device_cert_fail_def device_cert_cleanup_def device_cert_abort_def bt_finished_def)
  have tr: "trace w1 = trace w @ [Malloc]" by (simp add: w1_def)
  have "settles m c w1 w'" if "device_cert_read_start E c w = Inr w'" for w'
    using that drop run live
    by (intro settles_request [where x = "Gatt_read c prm" and xs = "if w' = w2 then [] else [Conn_disconnect c]"])
      (auto simp: prm_def w2_def same_streams_def split: if_splits)
  moreover have "\<exists>w'. device_cert_read_start E c w = Inr w'" using drop run by auto
  moreover have "same_streams w w1" by (simp add: w1_def same_streams_def)
  ultimately show ?thesis using settles_quiet [OF tr] by (auto simp: quiet_def)
qed

lemma cert_data_total:
  assumes "server_ctxs w a \<noteq> None" and "server_crt_len w \<le> length (server_crt_buf w)"
  shows "\<exists>rc dst' n lst ctx. server_cert_get_data (Some a) dst (length dst) w
    = Inr (rc, dst', n, lst, w\<lparr>server_ctxs := (server_ctxs w)(a \<mapsto> ctx)\<rparr>)"
proof -
  from assms(1) obtain x where x: "server_ctxs w a = Some x" by blast
  then have same: "(server_ctxs w)(a \<mapsto> x) = server_ctxs w" by (simp add: fun_upd_idem)
  show ?thesis
  proof (cases "server_crt_len w \<le> sc_offset x")
    case True
    then have "server_cert_get_data (Some a) dst (length dst) w = Inr (- ENODATA, dst, length dst, False, w)"
      by (simp add: server_cert_get_data_def x)
    then show ?thesis
      by (intro exI [of _ "- ENODATA"] exI [of _ dst] exI [of _ "length dst"] exI [of _ False] exI [of _ x]) (simp add: same)
  next
    case False
    define k where "k = (if length dst > server_crt_len w - sc_offset x then server_crt_len w - sc_offset x else length dst)"
    have k: "k \<le> length dst" "sc_offset x + k \<le> length (server_crt_buf w)"
      using False assms(2) by (auto simp: k_def)
    then have "peek (server_crt_buf w) (sc_offset x) k = Inr (take k (drop (sc_offset x) (server_crt_buf w)))"
      "poke dst 0 (take k (drop (sc_offset x) (server_crt_buf w))) = Inr (take k (drop (sc_offset x) (server_crt_buf w)) @ drop k dst)"
      by (simp_all add: peek_def poke_def)
    with False have "server_cert_get_data (Some a) dst (length dst) w
        = Inr (0, take k (drop (sc_offset x) (server_crt_buf w)) @ drop k dst, k, server_crt_len w \<le> sc_offset x + k,
            w\<lparr>server_ctxs := (server_ctxs w)(a \<mapsto> x\<lparr>sc_offset := sc_offset x + k\<rparr>)\<rparr>)"
      by (simp add: server_cert_get_data_def x k_def [symmetric] Let_def del: Groups.add_ac)
    then show ?thesis by (intro exI)
  qed
qed

lemma write_cert:
  assumes "roomy E c m" and "sending_cert m c w" and "server_crt_len w \<le> length (server_crt_buf w)"
  shows "\<exists>rc w'. write_server_cert_characteristic E c w = Inr (rc, w') \<and> settles m c w w' \<and> (rc \<noteq> 0 \<longrightarrow> releasable c w' \<and> same_streams w w')
    \<and> (\<exists>xs. trace w' = trace w @ xs \<and> (rc \<noteq> 0 \<longrightarrow> list_all (quiet c) xs))"
proof (cases "m < BT_ATT_OVERHEAD")
  case True
  with assms(1,2) show ?thesis
    by (auto simp: write_server_cert_characteristic_def roomy_def releasable_def sending_cert_def live_at_def same_streams_def
        intro!: settles_silent [where xs = "[]"])
next
  case False
  from assms(2) obtain b n a p where rec: "device_cert_ctx (nodes w c) = NULL" "server_cert_scratch (nodes w c) = Some b"
    "scratches w b = Some n" "m - BT_ATT_OVERHEAD \<le> n" "server_cert_ctx (nodes w c) = Some a" "server_ctxs w a \<noteq> None"
    "packetizer (nodes w c) = Some p" "packetizers w p = Some (Fill_server_cert, Some a)"
    by (auto simp: sending_cert_def)
  from cert_data_total [OF rec(6) assms(3), of "map (garbage E b) [0..<pk_room E (m - BT_ATT_OVERHEAD)]"]
  obtain rc dst' k lst ctx where data: "server_cert_get_data (Some a) (map (garbage E b) [0..<pk_room E (m - BT_ATT_OVERHEAD)])
      (pk_room E (m - BT_ATT_OVERHEAD)) w = Inr (rc, dst', k, lst, w\<lparr>server_ctxs := (server_ctxs w)(a \<mapsto> ctx)\<rparr>)"
    by auto
  define w1 where "w1 = w\<lparr>server_ctxs := (server_ctxs w)(a \<mapsto> ctx)\<rparr>"
  have "\<exists>r bs. fill_cb E Fill_server_cert (map (garbage E b) [0..<pk_room E (m - BT_ATT_OVERHEAD)]) (Some a) w = Inr (r, bs, w1)"
    using data by (simp add: fill_cb_def server_cert_fill_cb_def w1_def)
  then obtain r bs where "fill_cb E Fill_server_cert (map (garbage E b) [0..<pk_room E (m - BT_ATT_OVERHEAD)]) (Some a) w = Inr (r, bs, w1)"
    by blast
  then obtain res out where get: "packetizer_get E (Some p) (Some b) (m - BT_ATT_OVERHEAD) w = Inr (res, out, w1)"
    using rec by (cases "pk_encode E r bs") (simp add: packetizer_get_def)
  define prm where "prm = Write_params Cb_server_cert_write_response (value_handle w c ATTR_SERVER_CERT) out"
  define w2 where "w2 = (set_node c (params_update (\<lambda>_. prm)) w1)\<lparr>trace := trace w @ [Gatt_write c prm]\<rparr>"
  have sending: "sending_cert m c w2" "releasable c w2" "releasable c (w1\<lparr>trace := trace w @ [Packetizer_error (Some p)]\<rparr>)"
    using rec by (auto simp: w2_def w1_def sending_cert_def releasable_def live_at_def)
  from server_cleanup [OF sending(2), of E] obtain w3 xs where
    w3: "server_cert_cleanup E c w2 = Inr w3" "trace w3 = trace w2 @ xs" by blast
  have run: "write_server_cert_characteristic E c w = (if res = PK_ERROR
      then Inr (ret E (trace w) (Packetizer_error (Some p)), w1\<lparr>trace := trace w @ [Packetizer_error (Some p)]\<rparr>)
      else if ret E (trace w) (Gatt_write c prm) < 0 then Inr (0, bt_finished E c w3) else Inr (0, w2))"
    using get w3(1) rec(7,2) False assms(1)
    by (auto simp: write_server_cert_characteristic_def server_cert_fail_def roomy_def ext_call_def Let_def prm_def w1_def w2_def)
  have t: "trace w2 = trace w @ [Gatt_write c prm]" by (simp add: w2_def)
  have "settles m c w w2" using sending(1) t
    by (intro settles_request [where x = "Gatt_write c prm" and xs = "[]" and cb = Cb_server_cert_write_response])
      (simp_all add: prm_def w2_def w1_def same_streams_def)
  moreover have "settles m c w (bt_finished E c w3)"
    using w3(2) t by (intro settles_dropped [where xs = "Gatt_write c prm # xs @ [Conn_disconnect c]"]) (simp_all add: bt_finished_def)
  moreover have "settles m c w (w1\<lparr>trace := trace w @ [Packetizer_error (Some p)]\<rparr>)"
    by (rule settles_silent [where xs = "[Packetizer_error (Some p)]"]) (simp_all add: quiet_def)
  moreover have "\<exists>xs. trace (bt_finished E c w3) = trace w @ xs" using w3(2) t by (simp add: bt_finished_def)
  moreover have "same_streams w (w1\<lparr>trace := trace w @ [Packetizer_error (Some p)]\<rparr>)" by (simp add: w1_def same_streams_def)
  ultimately show ?thesis using run sending t by (auto simp: quiet_def)
qed

lemma idle_releasable: "idle c w \<Longrightarrow> releasable c w"
  by (simp add: idle_def releasable_def live_at_def)

lemma server_start:
  assumes "roomy E c m" and "idle c w" and "server_crt_len w \<le> length (server_crt_buf w)"
  shows "\<exists>w'. server_cert_write_start E c w = Inr w' \<and> settles m c w w'"
proof (cases "value_handle w c ATTR_SERVER_CERT = 0")
  case True
  then show ?thesis using server_fail [OF idle_releasable [OF assms(2)], of E m] by (simp add: server_cert_write_start_def)
next
  case h: False
  show ?thesis
  proof (cases "m < BT_ATT_OVERHEAD")
    case True
    let ?w = "set_node c (server_cert_scratch_update (\<lambda>_. NULL)) w"
    have "releasable c ?w" using assms(2) by (simp add: idle_def releasable_def live_at_def)
    from server_fail [OF this, of E m] obtain w' where "server_cert_fail E c ?w = Inr w'" "settles m c ?w w'" by blast
    with True h assms(1) show ?thesis
      by (simp add: server_cert_write_start_def gatt_mtu_malloc_def roomy_def settles_def same_streams_def)
  next
    case False
    define b where "b = next_addr w"
    define w1 where "w1 = set_node c (server_cert_scratch_update (\<lambda>_. Some b))
      (w\<lparr>trace := trace w @ [Malloc], next_addr := Suc b, scratches := (scratches w)(b \<mapsto> m - BT_ATT_OVERHEAD)\<rparr>)"
    define w2 where "w2 = set_node c (server_cert_ctx_update (\<lambda>_. Some (Suc b)))
      (w1\<lparr>trace := trace w1 @ [Malloc], next_addr := Suc (Suc b),
        server_ctxs := (server_ctxs w)(Suc b \<mapsto> \<lparr>sc_id = server_crt_id w, sc_offset = 0\<rparr>)\<rparr>)"
    define w3 where "w3 = set_node c (packetizer_update (\<lambda>_. Some (Suc (Suc b))))
      (w2\<lparr>trace := trace w2 @ [Packetizer_start (Some (Suc b))], next_addr := Suc (Suc (Suc b)),
        packetizers := (packetizers w)(Suc (Suc b) \<mapsto> (Fill_server_cert, Some (Suc b)))\<rparr>)"
    have alloc: "gatt_mtu_malloc E c w = (Some b, w\<lparr>trace := trace w @ [Malloc], next_addr := Suc b,
        scratches := (scratches w)(b \<mapsto> m - BT_ATT_OVERHEAD)\<rparr>)"
      using False assms(1) malloc_roomy [OF assms(1), of w] by (simp add: gatt_mtu_malloc_def roomy_def b_def)
    have start: "server_cert_start E w1 = Inr (Some (Suc b), w1\<lparr>trace := trace w1 @ [Malloc], next_addr := Suc (Suc b),
        server_ctxs := (server_ctxs w)(Suc b \<mapsto> \<lparr>sc_id = server_crt_id w, sc_offset = 0\<rparr>)\<rparr>)"
      using malloc_roomy [OF assms(1), of w1] by (simp add: server_cert_start_def w1_def)
    have pk: "packetizer_start E Fill_server_cert (Some (Suc b)) w2 = (Some (Suc (Suc b)),
        w2\<lparr>trace := trace w2 @ [Packetizer_start (Some (Suc b))], next_addr := Suc (Suc (Suc b)),
          packetizers := (packetizers w)(Suc (Suc b) \<mapsto> (Fill_server_cert, Some (Suc b)))\<rparr>)"
      using assms(1) by (simp add: packetizer_start_def roomy_def ext_call_def Let_def w2_def w1_def)
    have run: "server_cert_write_start E c w = bnd (write_server_cert_characteristic E c w3) (\<lambda>(_, w). Inr w)"
      using h by (simp add: server_cert_write_start_def alloc w1_def [symmetric] start w2_def [symmetric] pk w3_def [symmetric])
    have "sending_cert m c w3" using assms(2) by (simp add: sending_cert_def idle_def w3_def w2_def w1_def)
    moreover have "server_crt_len w3 \<le> length (server_crt_buf w3)" using assms(3) by (simp add: w3_def w2_def w1_def)
    ultimately obtain rc w' where "write_server_cert_characteristic E c w3 = Inr (rc, w')" "settles m c w3 w'"
      using write_cert [OF assms(1)] by blast
    moreover have "trace w3 = trace w @ [Malloc, Malloc, Packetizer_start (Some (Suc b))]" by (simp add: w3_def w2_def w1_def)
    ultimately show ?thesis using run settles_quiet [of w3 w _ c m w']
      by (simp add: quiet_def same_streams_def w3_def w2_def w1_def)
  qed
qed

text \<open>The callbacks.\<close>

lemma write_response:
  assumes "roomy E c m" and "sending_cert m c w" and "server_crt_len w \<le> length (server_crt_buf w)"
  shows "\<exists>w'. server_cert_write_response_cb E c err w = Inr w' \<and> settles m c w w'"
proof -
  from assms(2) obtain a x where a: "server_cert_ctx (nodes w c) = Some a" "server_ctxs w a = Some x" by (auto simp: sending_cert_def)
  have rel: "releasable c w" using assms(2) by (auto simp: sending_cert_def releasable_def live_at_def)
  show ?thesis
  proof (cases "server_crt_len w \<le> sc_offset x")
    case True
    from server_cleanup [OF rel, of E] obtain w1 xs where w1: "server_cert_cleanup E c w = Inr w1" "idle c w1"
      "trace w1 = trace w @ xs" "list_all (quiet c) xs" "same_streams w w1" by blast
    from w1(1) have crt: "server_crt_len w1 \<le> length (server_crt_buf w1)"
      using assms(3) by (auto simp: server_cert_cleanup_def free_scratch_def server_cert_abort_def packetizer_finish_def
          bnd_simps ext_call_def Let_def split: if_splits)
    have next_one: "\<exists>w'. (if b then device_cert_read_start E c w1 else server_cert_write_start E c w1) = Inr w' \<and> settles m c w1 w'" for b
      using device_start [OF assms(1), of w1] server_start [OF assms(1) w1(2) crt] by (cases b) simp_all
    with w1 a True settles_quiet [OF w1(3,4)] show ?thesis
      by (fastforce simp: server_cert_write_response_cb_def server_cert_is_complete_def server_cert_is_newest_def)
  next
    case False
    from write_cert [OF assms] obtain rc w1 xs where w1: "write_server_cert_characteristic E c w = Inr (rc, w1)" "settles m c w w1"
      "rc \<noteq> 0 \<longrightarrow> releasable c w1 \<and> same_streams w w1" "trace w1 = trace w @ xs" "rc \<noteq> 0 \<longrightarrow> list_all (quiet c) xs" by blast
    show ?thesis
    proof (cases "rc = 0")
      case True
      with w1 a False show ?thesis by (simp add: server_cert_write_response_cb_def server_cert_is_complete_def)
    next
      case rc: False
      with w1(3) obtain w2 where "server_cert_fail E c w1 = Inr w2" "settles m c w1 w2" using server_fail by blast
      with w1 a rc False settles_quiet [OF w1(4)] show ?thesis
        by (simp add: server_cert_write_response_cb_def server_cert_is_complete_def)
    qed
  qed
qed

lemma read_again:
  assumes "request_of c (Gatt_read c (params (nodes w c))) = Some cb" and "awaits m c cb w"
  shows "settles m c w (snd (ext_call E (Gatt_read c (params (nodes w c))) w))"
proof (rule settles_request [OF assms(1), where xs = "[]"])
  show "awaits m c cb (snd (ext_call E (Gatt_read c (params (nodes w c))) w))
      \<and> same_streams w (snd (ext_call E (Gatt_read c (params (nodes w c))) w))"
    using assms(2) by (cases cb) (auto simp: idle_def sending_cert_def discover_params_def same_streams_def)
qed simp_all

lemma serial_total:
  assumes "mem_ok E w"
  shows "\<exists>serial n. server_cert_get_serial (replicate CERT_SERIAL_MAXLEN 0) CERT_SERIAL_MAXLEN w = Inr (serial, n)"
  using assms by (simp add: mem_ok_def server_cert_get_serial_def peek_def poke_def Let_def)

lemma serial_read:
  assumes "roomy E c m" and "awaits m c Cb_server_cert_read w" and "mem_ok E w"
  shows "\<exists>w'. server_cert_read_cb E c err packet w = Inr w' \<and> settles m c w w'"
proof -
  from assms(2) obtain h where idle: "idle c w" and prm: "params (nodes w c) = Read_params Cb_server_cert_read h" by auto
  have crt: "server_crt_len w \<le> length (server_crt_buf w)" using assms(3) by (simp add: mem_ok_def)
  from serial_total [OF assms(3)] obtain serial n where
    serial: "server_cert_get_serial (replicate CERT_SERIAL_MAXLEN 0) CERT_SERIAL_MAXLEN w = Inr (serial, n)" by blast
  have same: "settles m c w w" by (rule settles_silent [where xs = "[]"]) simp_all
  have again: "settles m c w (snd (ext_call E (Gatt_read c (params (nodes w c))) w))"
    by (rule read_again [OF _ assms(2)]) (simp add: prm)
  show ?thesis
    using server_start [OF assms(1) idle crt] device_start [OF assms(1), of w] server_fail [OF idle_releasable [OF idle], of E m] same again
    by (auto simp: server_cert_read_cb_def serial split: sum.split)
qed

lemma awaited_some: "awaited c xs = Some cb \<Longrightarrow> \<exists>x \<in> set xs. request_of c x = Some cb"
proof (induction xs rule: rev_induct)
  case (snoc x xs)
  then show ?case by (auto simp: awaited_def split: if_splits option.splits)
qed (simp add: awaited_def)

lemma settles_uplink:
  assumes "trace w' = trace w @ xs" and "\<And>x. x \<in> set xs \<Longrightarrow> request_of c x \<in> {None, Some Cb_uplink_read, Some Cb_uplink_indicate}"
  shows "settles m c w w'"
  using assms by (force simp: settles_def uplink_cb_def dest!: awaited_some)

lemma uplink_settles: "settles m c w (uplink_start E c w)"
proof -
  define P where "P x \<longleftrightarrow> request_of c x \<in> {None, Some Cb_uplink_read, Some Cb_uplink_indicate}" for x
  have dl: "\<exists>xs. trace (snd (downlink_start E c w)) = trace w @ xs \<and> list_all P xs"
    by (auto simp: downlink_start_def gatt_mtu_malloc_def malloc_def downlink_open_def packetizer_start_def bt_finished_def
        put_downlink_def ext_call_def P_def Let_def)
  have up: "\<exists>xs. trace (snd (uplink_open E p c w1)) = trace w1 @ xs \<and> list_all P xs" for p w1
    by (auto simp: uplink_open_def pouch_block_alloc_def malloc_def put_uplink_def ext_call_def P_def Let_def)
  obtain d w1 where w1: "downlink_start E c w = (d, w1)" by (cases "downlink_start E c w")
  obtain u w2 where w2: "uplink_open E d c w1 = (u, w2)" by (cases "uplink_open E d c w1")
  from dl up [of d w1] w1 w2 obtain xs where xs: "trace w2 = trace w @ xs" "list_all P xs" by force
  have "list_all P [uplink_request c h]" "list_all P [Conn_disconnect c]" for h
    by (simp_all add: P_def uplink_request_def)
  with xs uplink_start_outcome [OF w1 w2 refl] obtain ys where "trace (uplink_start E c w) = trace w @ ys" "list_all P ys"
    by (auto split: if_splits)
  then show ?thesis by (intro settles_uplink) (auto simp: P_def list_all_iff)
qed

lemma device_push:
  assumes "device_ctxs w a = Some x" and "device_ctx_ok E x" and "device_cert_max E < 2 ^ 31" and "length bs < 2 ^ 16"
  shows "\<exists>rc x'. device_cert_push E (Some a) bs w = Inr (rc, w\<lparr>device_ctxs := (device_ctxs w)(a \<mapsto> x')\<rparr>) \<and> device_ctx_ok E x'"
proof -
  have sum: "size_add (dc_len x) (length bs) = dc_len x + length bs"
    using assms(2-4) by (simp add: device_ctx_ok_def)
  have same: "(device_ctxs w)(a \<mapsto> x) = device_ctxs w" using assms(1) by (simp add: fun_upd_idem)
  show ?thesis
  proof (cases "device_cert_max E < dc_len x + length bs")
    case True
    with assms(1,2) sum same show ?thesis
      by (intro exI [of _ "- ENOSPC"] exI [of _ x]) (simp add: device_cert_push_def)
  next
    case False
    with assms(1,2) sum show ?thesis
      by (intro exI [of _ 0] exI [of _ "\<lparr>dc_len = dc_len x + length bs,
          dc_buf = take (dc_len x) (dc_buf x) @ bs @ drop (dc_len x + length bs) (dc_buf x)\<rparr>"])
        (simp add: device_cert_push_def poke_def device_ctx_ok_def)
  qed
qed

lemma device_finish:
  assumes "device_ctxs w a = Some x" and "device_ctx_ok E x"
  shows "\<exists>err w' xs. device_cert_finish E (Some a) w = Inr (err, w') \<and> trace w' = trace w @ xs \<and> list_all (quiet c) xs \<and> same_streams w w'
    \<and> nodes w' = nodes w \<and> (err \<noteq> 0 \<longrightarrow> device_ctxs w' = device_ctxs w)"
  using assms
  by (auto simp: device_cert_finish_def device_cert_abort_def device_ctx_ok_def peek_def ext_call_def quiet_def same_streams_def Let_def)

lemma device_read:
  assumes "roomy E c m" and "awaits m c Cb_device_cert_read w" and "mem_ok E w" and "length packet < 2 ^ 16"
  shows "\<exists>w'. device_cert_read_cb E c err packet w = Inr w' \<and> settles m c w w'"
proof -
  from assms(2) obtain a x h where rec: "device_cert_ctx (nodes w c) = Some a" "device_ctxs w a = Some x"
    "params (nodes w c) = Read_params Cb_device_cert_read h" by auto
  have fail: "\<exists>w'. device_cert_fail E c w1 = Inr w' \<and> settles m c w1 w'"
    if "device_cert_ctx (nodes w1 c) = Some a" "device_ctxs w1 a \<noteq> None" for w1
    using device_fail [of w1 c E m] that by (simp add: live_at_def)
  have same: "settles m c w w" by (rule settles_silent [where xs = "[]"]) simp_all
  show ?thesis
  proof (cases "err \<noteq> 0 \<or> packet = []")
    case True
    with same fail [OF rec(1)] rec(2) show ?thesis by (auto simp: device_cert_read_cb_def)
  next
    case start: False
    show ?thesis
    proof (cases "pk_decode E packet")
      case (Inl e)
      with start fail [OF rec(1)] rec(2) show ?thesis by (auto simp: device_cert_read_cb_def)
    next
      case (Inr r)
      obtain bs lst where r: "r = (bs, lst)" by (cases r)
      from assms(1) Inr r have "length bs \<le> length packet" unfolding roomy_def by blast
      with assms(4) have short: "length bs < 2 ^ 16" by simp
      have "device_ctx_ok E x" "device_cert_max E < 2 ^ 31" using assms(1,3) rec(2) by (simp_all add: roomy_def mem_ok_def)
      from device_push [OF rec(2) this short] obtain rc x' where
        push: "device_cert_push E (Some a) bs w = Inr (rc, w\<lparr>device_ctxs := (device_ctxs w)(a \<mapsto> x')\<rparr>)" "device_ctx_ok E x'"
        by blast
      define w1 where "w1 = w\<lparr>device_ctxs := (device_ctxs w)(a \<mapsto> x')\<rparr>"
      have w1: "device_cert_ctx (nodes w1 c) = Some a" "device_ctxs w1 a = Some x'" "params (nodes w1 c) = Read_params Cb_device_cert_read h"
        "trace w1 = trace w" using rec by (simp_all add: w1_def)
      have run: "device_cert_read_cb E c err packet w = (if lst
          then bnd (device_cert_finish E (Some a) w1) (\<lambda>(err, w). if err \<noteq> 0 then device_cert_fail E c w else Inr (uplink_start E c w))
          else let w2 = snd (ext_call E (Gatt_read c (params (nodes w1 c))) w1) in
            if ret E (trace w1) (Gatt_read c (params (nodes w1 c))) \<noteq> 0 then device_cert_fail E c w2 else Inr w2)"
        using start Inr r push(1) rec(1) by (simp add: device_cert_read_cb_def w1_def ext_call_def)
      have from_w1: "settles m c w w'" if "settles m c w1 w'" for w' using that w1(4)
        by (simp add: settles_def same_streams_def) (simp add: w1_def)
      show ?thesis
      proof (cases lst)
        case True
        from device_finish [OF w1(2) push(2), of c] obtain e w2 xs where
          w2: "device_cert_finish E (Some a) w1 = Inr (e, w2)" "trace w2 = trace w1 @ xs" "list_all (quiet c) xs" "same_streams w1 w2"
            "nodes w2 = nodes w1" "e \<noteq> 0 \<longrightarrow> device_ctxs w2 = device_ctxs w1" by blast
        have "\<exists>w'. (if e \<noteq> 0 then device_cert_fail E c w2 else Inr (uplink_start E c w2)) = Inr w' \<and> settles m c w2 w'"
          using fail [of w2] w1 w2(5,6) by (auto simp: uplink_settles)
        with run True w2(1) from_w1 settles_quiet [OF w2(2,3) _ w2(4)] show ?thesis by auto
      next
        case False
        define w2 where "w2 = snd (ext_call E (Gatt_read c (params (nodes w1 c))) w1)"
        have "awaits m c Cb_device_cert_read w1" using w1 by simp
        then have ok: "settles m c w1 w2" unfolding w2_def by (intro read_again [where cb = Cb_device_cert_read]) (simp_all add: w1(3))
        have "device_cert_ctx (nodes w2 c) = Some a" "device_ctxs w2 a \<noteq> None" using w1 by (simp_all add: w2_def)
        then obtain w3 where w3: "device_cert_fail E c w2 = Inr w3" "trace w3 = trace w2 @ [Conn_disconnect c]"
          by (auto simp: device_cert_fail_def device_cert_cleanup_def device_cert_abort_def bt_finished_def)
        have "settles m c w1 w3"
          using w3(2) by (intro settles_dropped [where xs = "[Gatt_read c (params (nodes w1 c)), Conn_disconnect c]"]) (simp_all add: w2_def)
        moreover have "device_cert_read_cb E c err packet w
            = (if ret E (trace w1) (Gatt_read c (params (nodes w1 c))) \<noteq> 0 then device_cert_fail E c w2 else Inr w2)"
          using run False by (simp only: w2_def Let_def if_False)
        ultimately show ?thesis using ok w3(1) from_w1 by auto
      qed
    qed
  qed
qed

lemma discover_settles:
  assumes "idle c w" and "prm = Discover_params cb ty s e u"
    and "cb = Cb_discover_services \<or> cb = Cb_discover_characteristics \<or> cb = Cb_discover_descriptors"
  shows "settles m c w (discover E c prm w)"
proof (rule settles_request [where x = "Gatt_discover c prm" and xs = "if ret E (trace w) (Gatt_discover c prm) \<noteq> 0 then [Conn_disconnect c] else []"])
  show "request_of c (Gatt_discover c prm) = Some cb" by (simp add: assms(2))
  show "awaits m c cb (discover E c prm w) \<and> same_streams w (discover E c prm w)"
    if "(if ret E (trace w) (Gatt_discover c prm) \<noteq> 0 then [Conn_disconnect c] else []) = []"
    using that assms by (auto simp: discover_def ext_call_def idle_def discover_params_def same_streams_def Let_def split: if_splits)
qed (auto simp: discover_def ext_call_def bt_finished_def Let_def)

lemma finished_settles: "settles m c w (bt_finished E c w)"
  by (rule settles_dropped [where xs = "[Conn_disconnect c]"]) (simp_all add: bt_finished_def)

lemma exchange_start_settles:
  assumes "idle c w"
  shows "\<exists>w'. cert_exchange_start E c w = Inr w' \<and> settles m c w w'"
proof -
  define prm where "prm = Read_params Cb_server_cert_read (value_handle w c ATTR_SERVER_CERT)"
  define w1 where "w1 = (set_node c (params_update (\<lambda>_. prm)) w)\<lparr>trace := trace w @ [Gatt_read c prm]\<rparr>"
  have idle: "idle c w1" using assms by (simp add: w1_def idle_def)
  then obtain w2 xs where w2: "server_cert_fail E c w1 = Inr w2" "trace w2 = trace w1 @ xs" "Conn_disconnect c \<in> set xs"
    using server_cleanup [OF idle_releasable [OF idle], of E] by (auto simp: server_cert_fail_def bt_finished_def)
  have run: "cert_exchange_start E c w = (if ret E (trace w) (Gatt_read c prm) \<noteq> 0 then server_cert_fail E c w1 else Inr w1)"
    by (simp add: cert_exchange_start_def server_cert_serial_read_start_def ext_call_def prm_def w1_def value_handle_def Let_def)
  have "settles m c w w1"
    using idle by (intro settles_request [where x = "Gatt_read c prm" and xs = "[]" and cb = Cb_server_cert_read])
      (simp_all add: prm_def w1_def same_streams_def)
  moreover have "settles m c w w2"
    using w2 by (intro settles_dropped [where xs = "Gatt_read c prm # xs"]) (simp_all add: w1_def)
  ultimately show ?thesis using run w2(1) by simp
qed

lemma answered_ok:
  assumes "answered E U c cb w r" and "awaits m c cb w" and "mem_ok E w" and "roomy E c m"
  shows "\<exists>again w'. r = Inr (again, w') \<and> (if again then awaits m c cb w' \<and> same_streams w w' else settles m c w w')"
  using assms(1)
proof cases
  case (1 svc)
  from assms(2) 1 obtain s e u where d: "idle c w" "discover_params w c = Inr (s, e, u)"
    by (auto simp: discover_params_def split: gatt_params.splits)
  note go = discover_settles [OF d(1) refl, where cb = Cb_discover_services, simplified]
    discover_settles [OF d(1) refl, where cb = Cb_discover_characteristics, simplified]
  show ?thesis
  proof (cases svc)
    case None
    with 1 d(2) show ?thesis by (simp add: goes_on_def discover_services_def go finished_settles ex_bool_eq)
  next
    case (Some x)
    with 1 assms(2) show ?thesis by (cases x) (simp add: goes_on_def discover_services_def go same_streams_def ex_bool_eq)
  qed
next
  case (2 chrc)
  from assms(2) 2 obtain s e u where d: "idle c w" "discover_params w c = Inr (s, e, u)"
    by (auto simp: discover_params_def split: gatt_params.splits)
  note go = discover_settles [OF d(1) refl, where cb = Cb_discover_descriptors, simplified]
  show ?thesis
  proof (cases chrc)
    case None
    with 2 d(2) show ?thesis by (simp add: goes_on_def discover_characteristics_def go finished_settles ex_bool_eq)
  next
    case (Some x)
    with 2 assms(2) show ?thesis
      by (cases x) (auto simp: goes_on_def discover_characteristics_def set_value_def idle_def discover_params_def same_streams_def split: option.split)
  qed
next
  case (3 ccc)
  with assms(2) have idle: "idle c w" by simp
  from exchange_start_settles [OF idle, of E m] obtain w1 where w1: "cert_exchange_start E c w = Inr w1" "settles m c w w1" by blast
  show ?thesis
  proof (cases ccc)
    case None
    with 3 w1 show ?thesis by (auto simp: goes_on_def discover_descriptors_def uplink_settles)
  next
    case (Some h)
    with 3 idle show ?thesis
      by (auto simp: goes_on_def discover_descriptors_def set_ccc_def idle_def same_streams_def split: option.split)
  qed
next
  case (4 packet err)
  with serial_read [OF assms(4) _ assms(3), of err packet] assms(2) obtain w' where
    "server_cert_read_cb E c err packet w = Inr w'" "settles m c w w'" by blast
  with 4 show ?thesis by (simp add: ends_def ex_bool_eq)
next
  case (5 err)
  then have "sending_cert m c w" using assms(2) by simp
  moreover have "server_crt_len w \<le> length (server_crt_buf w)" using assms(3) by (simp add: mem_ok_def)
  ultimately obtain w' where "server_cert_write_response_cb E c err w = Inr w'" "settles m c w w'"
    using write_response [OF assms(4)] by blast
  with 5 show ?thesis by (simp add: ends_def ex_bool_eq)
next
  case (6 packet err)
  with device_read [OF assms(4) _ assms(3)] assms(2) obtain w' where
    "device_cert_read_cb E c err packet w = Inr w'" "settles m c w w'" by blast
  with 6 show ?thesis by (simp add: ends_def ex_bool_eq)
qed

subsection \<open>Runs\<close>

lemma conn_step_gw: "conn_step E U c w w' \<Longrightarrow> gw_step E U A w w'"
  by (induction rule: conn_step.induct) (blast intro: gw_step.intros)+

lemma cloud_step_gw: "cloud_step E w w' \<Longrightarrow> gw_step E U A w w'"
  by (induction rule: cloud_step.induct) (blast intro: gw_step.intros)+

lemma other_step_reach:
  assumes "other_step E U A C c s s'" and "app_reach E U A C s b"
  shows "\<exists>b'. app_reach E U A C s' b'"
  using assms(1)
proof cases
  case (other_conn c' w')
  show ?thesis unfolding other_conn(1)
    by (rule exI, rule reach_step [OF assms(2) step_radio [OF other_conn(2) conn_step_gw [OF other_conn(3)]]])
next
  case (other_cloud w')
  show ?thesis unfolding other_cloud(1)
    by (rule exI, rule reach_step [OF assms(2) step_radio [OF other_cloud(2) cloud_step_gw [OF other_cloud(3)]]])
next
  case (other_found peer t ads)
  show ?thesis unfolding other_found(1)
    by (rule exI, rule reach_step [OF assms(2) step_radio [OF other_found(2) step_found]])
next
  case other_main
  then show ?thesis by (blast intro: reach_step [OF assms(2)] step_main)
next
  case (other_client ev)
  then show ?thesis by (blast intro: reach_step [OF assms(2)] step_client)
next
  case (other_lte ev)
  then show ?thesis by (blast intro: reach_step [OF assms(2)] step_lte)
next
  case (other_network ev)
  then show ?thesis by (blast intro: reach_step [OF assms(2)] step_network)
qed

text \<open>What such a step leaves alone.\<close>

definition view_same :: "conn \<Rightarrow> 'a gw_world_scheme \<Rightarrow> 'a gw_world_scheme \<Rightarrow> bool" where
  "view_same c w w' \<longleftrightarrow> nodes w' c = nodes w c \<and> (\<forall>a. owns w c a \<longrightarrow> object_at w' a = object_at w a)
     \<and> (\<forall>a. owns w' c a = owns w c a)"

lemma view_same_frame:
  assumes "nodes w' = nodes w" and "downlinks w' = downlinks w" and "uplinks w' = uplinks w"
    and "packetizers w' = packetizers w" and "scratches w' = scratches w" and "device_ctxs w' = device_ctxs w"
    and "server_ctxs w' = server_ctxs w"
  shows "view_same c w w'"
proof -
  have "owns w' c a = owns w c a" for a unfolding owns_def packetizer_arg_def assms ..
  then show ?thesis by (simp add: view_same_def object_at_def assms)
qed

lemma view_awaits:
  assumes "view_same c w w'" and "awaits m c cb w"
  shows "awaits m c cb w'"
proof -
  have node: "nodes w' c = nodes w c" using assms(1) by (simp add: view_same_def)
  have at: "packetizers w' a = packetizers w a \<and> scratches w' a = scratches w a \<and> device_ctxs w' a = device_ctxs w a
      \<and> server_ctxs w' a = server_ctxs w a" if "Some a \<in> set (pointers (nodes w c))" for a
    using assms(1) owns_simps(2) [OF that] by (auto simp: view_same_def object_at_def)
  from assms(2) node at show ?thesis
    by (cases cb) (fastforce simp: idle_def sending_cert_def discover_params_def pointers_def)+
qed

lemma view_unused:
  assumes "view_same c w w'" and "unused c w"
  shows "unused c w'"
proof -
  have "downlinks w a = Some d" if "downlinks w' a = Some d" "cb_arg d = c" for a d
    using that assms(1) owns_simps(3) [of w' a d c] by (auto simp: view_same_def object_at_def)
  moreover have "uplinks w a = Some u" if "uplinks w' a = Some u" "end_cb_arg u = c" for a u
    using that assms(1) owns_simps(4) [of w' a u c] by (auto simp: view_same_def object_at_def)
  ultimately show ?thesis using assms(2) by (fastforce simp: unused_def ran_def)
qed

lemma cloud_step_conn:
  assumes "cloud_step E w w'" and "unused c w"
  shows "\<exists>c'. c' \<noteq> c \<and> conn_step E U c' w w'"
  using assms(1)
proof cases
  case (1 status p)
  then obtain a u where a: "p = Some a" "uplinks w a = Some u"
    unfolding block_upload_callback_def by (elim deref_InrE)
  with assms(2) have "end_cb_arg u \<noteq> c" by (auto simp: unused_def ran_def)
  with 1 a conn_acknowledged [OF a(2) refl] show ?thesis by blast
next
  case (2 src lst p gs)
  then obtain a d where a: "p = Some a" "downlinks w a = Some d"
    unfolding downlink_block_cb_def by (elim deref_InrE)
  with assms(2) have "cb_arg d \<noteq> c" by (auto simp: unused_def ran_def)
  with 2 a conn_block [OF a(2) refl] show ?thesis by blast
next
  case (3 status p)
  show ?thesis
  proof (cases "status = GOLIOTH_OK")
    case True
    with 3 conn_end_ok [of E p w w' U "Suc c"] show ?thesis by (intro exI [of _ "Suc c"]) simp
  next
    case False
    with 3 obtain w1 where "downlink_abort p w = Inr w1" by (auto simp: downlink_end_cb_def elim: bnd_InrE)
    then obtain a d where a: "p = Some a" "downlinks w a = Some d"
      unfolding downlink_abort_def by (elim deref_InrE)
    with assms(2) have "cb_arg d \<noteq> c" by (auto simp: unused_def ran_def)
    with 3 a conn_end [OF a(2) refl] show ?thesis by blast
  qed
qed

lemma conn_step_view:
  assumes "apart E w" and "conn_step E U c' w w'" and "c' \<noteq> c"
  shows "view_same c w w'"
proof -
  have "separate w" "dl_inv E w" using assms(1) by (simp_all add: apart_def gw_inv_def owners_ok_def)
  from conn_step_isolated [OF this assms(2)] have iso: "iso c' w 0 w'" .
  have "c \<noteq> c'" using assms(3) by simp
  from iso_undisturbed [OF iso this] iso_owns [OF iso this] show ?thesis
    by (simp add: view_same_def undisturbed_def)
qed

lemma refresh_view: "kept (view_same c w) (\<lambda>w. w) (cert_module_on_connected E w)"
  by (auto simp: kept_def cert_module_on_connected_def server_crt_update_def bnd_simps ext_call_def Let_def
      intro!: view_same_frame split: if_splits option.splits)

lemma view_same_trans: "view_same c w w' \<Longrightarrow> view_same c w' w'' \<Longrightarrow> view_same c w w''"
  by (auto simp: view_same_def)

lemma view_trace: "view_same c w (w\<lparr>trace := t\<rparr>)"
  by (rule view_same_frame) simp_all

lemma main_view:
  assumes "main_step E C s = Some (Inr s')"
  shows "view_same c (gw s) (gw s')"
proof -
  have client: "view_same c (gw s) (gw (connect_golioth_client E C s))" for s
    by (cases E C s rule: connect_golioth_client_cases) (auto intro: view_same_frame)
  have fetch: "view_same c (gw s) (w\<lparr>trace := t\<rparr>)" if "cert_module_on_connected E (gw s) = Inr w" for w t
    using view_same_trans [OF keptD [OF refresh_view that] view_trace] .
  have fetch': "view_same c (gw s) w" if "cert_module_on_connected E (gw s) = Inr w" for w
    using keptD [OF refresh_view that] .
  show ?thesis
  proof (cases "main_at s = At_startup \<or> main_at s = At_refresh")
    case True
    with assms show ?thesis
      by (auto simp: main_step_def startup_def scan_start_def ext_call_def Let_def elim!: bnd_InrE split: if_splits)
        (rule fetch fetch'; assumption)+
  next
    case False
    have "view_same c (gw s) (gw (connect_golioth_client E C (s\<lparr>network_connected := n\<rparr>)))" for n
      using client [of "s\<lparr>network_connected := n\<rparr>"] by simp
    with False assms view_same_frame [of "gw s" "gw s" c] show ?thesis
      by (auto simp: main_step_def sem_take_def split: main_at.splits if_splits)
  qed
qed

lemma other_view:
  assumes "other_step E U A C c s s'" and "apart E (gw s)" and "unused c (gw s)"
  shows "view_same c (gw s) (gw s')"
  using assms(1)
proof cases
  case (other_conn c' w')
  with conn_step_view [OF assms(2)] show ?thesis by simp
next
  case (other_cloud w')
  with cloud_step_conn [OF _ assms(3)] conn_step_view [OF assms(2)] show ?thesis by fastforce
next
  case (other_found peer t ads)
  then show ?thesis
    by (auto simp: device_found_def stop_and_connect_def scan_start_def ext_call_def Let_def intro: view_same_frame)
next
  case other_main
  then show ?thesis by (rule main_view)
next
  case (other_client ev)
  then show ?thesis by (auto simp: on_client_event_def intro: view_same_frame)
next
  case (other_lte ev)
  then show ?thesis
    by (cases E C s rule: connect_golioth_client_cases) (auto simp: lte_handler_def intro: view_same_frame split: lte_evt.split)
next
  case (other_network ev)
  then show ?thesis by (auto simp: net_mgmt_cb_def intro: view_same_frame split: net_event.split)
qed

lemma goes_onD: "Inr (again, w') = goes_on r \<Longrightarrow> \<exists>it. r = Inr (it, w')"
  by (cases r) (auto simp: goes_on_def)

lemma endsD: "Inr (again, w') = ends r \<Longrightarrow> r = Inr w'"
  by (cases r) (auto simp: ends_def)

lemma answered_step:
  assumes "answered E U c cb w (Inr (again, w'))"
  shows "gw_step E U A w w'"
  using assms by cases (auto dest!: goes_onD endsD intro: gw_step.intros)

text \<open>An answer ends what is awaited, until the uplink takes over.\<close>

definition prepared :: "nat \<Rightarrow> conn \<Rightarrow> gatt_cb option \<Rightarrow> 'a gw_world_scheme \<Rightarrow> bool" where
  "prepared m c q w \<longleftrightarrow> (\<forall>cb. q = Some cb \<longrightarrow> awaits m c cb w \<and> (uplink_cb cb \<or> unused c w))"

lemma same_unused: "same_streams w w' \<Longrightarrow> unused c w \<Longrightarrow> unused c w'"
  by (simp add: same_streams_def unused_def)

lemma settles_prepared: "settles m c w w' \<Longrightarrow> unused c w \<Longrightarrow> prepared m c (awaited c (new_calls w w')) w'"
  by (auto simp: settles_def new_calls_def prepared_def dest: same_unused)

lemma uplink_prepared: "uplink_cb cb \<Longrightarrow> prepared m c (Some cb) w"
  by (auto simp: prepared_def uplink_cb_def)

lemma connected_prepared:
  assumes "unused c w"
  shows "prepared m c (awaited c (new_calls w (bt_connected E U c 0 w))) (bt_connected E U c 0 w)"
proof -
  let ?w = "set_node c (\<lambda>_. zero_node) w"
  have "idle c ?w" by (simp add: idle_def zero_node_def)
  from discover_settles [OF this refl, where cb = Cb_discover_services, simplified] have
    "settles m c ?w (bt_connected E U c 0 w)" by (simp add: bt_connected_def bt_start_def)
  moreover have "unused c ?w" "new_calls ?w = new_calls w" using assms by (simp_all add: unused_def new_calls_def [abs_def])
  ultimately show ?thesis using settles_prepared by metis
qed

lemma connecting_prepared:
  assumes "connecting E U A C c s q" and "max_block_size E < 2 ^ 31" and "roomy E c m"
  shows "\<exists>b. app_reach E U A C s b \<and> prepared m c q (gw s)"
  using assms(1)
proof induction
  case (connecting_connected s b w')
  have "app_reach E U A C (s\<lparr>gw := w'\<rparr>) b"
    unfolding connecting_connected(4)
    by (rule reach_step [OF connecting_connected(1) step_radio [OF connecting_connected(2) step_connected]])
  with connected_prepared [OF connecting_connected(3)] connecting_connected(4) show ?case by auto
next
  case (connecting_answered s cb again w')
  from connecting_answered.IH obtain b where b: "app_reach E U A C s b" "awaits m c cb (gw s)" "uplink_cb cb \<or> unused c (gw s)"
    by (auto simp: prepared_def)
  from connecting_answered(3) have un: "unused c (gw s)" using b(3) by (auto simp: uplink_cb_def elim: answered.cases)
  have "app_reach E U A C (s\<lparr>gw := w'\<rparr>) b"
    by (rule reach_step [OF b(1) step_radio [OF connecting_answered(2) answered_step [OF connecting_answered(3)]]])
  moreover have "mem_ok E (gw s)" using apart_reach [OF b(1) assms(2)] by (simp add: apart_def gw_inv_def)
  from answered_ok [OF connecting_answered(3) b(2) this assms(3)]
  have "if again then awaits m c cb w' \<and> same_streams (gw s) w' else settles m c (gw s) w'" by auto
  then have "prepared m c (if again then Some cb else awaited c (new_calls (gw s) w')) w'"
    using same_unused [OF _ un] settles_prepared [OF _ un] by (cases again) (simp_all add: prepared_def)
  ultimately show ?case by auto
next
  case (connecting_other s q s')
  then obtain b where b: "app_reach E U A C s b" "prepared m c q (gw s)" by blast
  from other_step_reach [OF connecting_other(2) b(1)] obtain b' where b': "app_reach E U A C s' b'" by blast
  have "prepared m c q (gw s')"
  proof (cases "q = None \<or> uplink_cb (the q)")
    case True
    then show ?thesis by (cases q) (auto simp: prepared_def uplink_cb_def)
  next
    case False
    with b(2) obtain cb where cb: "q = Some cb" "awaits m c cb (gw s)" "unused c (gw s)" by (auto simp: prepared_def)
    from other_view [OF connecting_other(2) apart_reach [OF b(1) assms(2)] cb(3)] have "view_same c (gw s) (gw s')" .
    with view_awaits [OF this cb(2)] view_unused [OF this cb(3)] cb(1) show ?thesis by (simp add: prepared_def)
  qed
  with b' show ?case by blast
qed

subsection \<open>The property\<close>

text \<open>
  C5: nothing goes wrong while a connection is set up.  Take a connection event on a slot of which no
  earlier stream is left, and then any answers to the requests that are outstanding (services,
  characteristics and descriptors of any kind, errors, packets of any content and up to 65535
  bytes), interleaved with any steps of other connections, of the cloud client, of the modem and of
  the main thread, which may fetch the server certificate again in between.  Until the uplink
  starts no answer dereferences a NULL or freed pointer, leaves a buffer or reads the wrong member of
  the parameter union, provided that \<open>malloc\<close> and the start of a packetizer succeed, the MTU stays
  the same and the packetizer unpacks no more than it was given.
\<close>

theorem connecting_never_faults:
  assumes "connecting E U A C c s (Some cb)" and "answered E U c cb (gw s) r"
    and "roomy E c m" and "max_block_size E < 2 ^ 31"
  shows "\<exists>again w'. r = Inr (again, w')"
proof -
  from connecting_prepared [OF assms(1,4,3)] obtain b where b: "app_reach E U A C s b" "awaits m c cb (gw s)"
    by (auto simp: prepared_def)
  have "mem_ok E (gw s)" using apart_reach [OF b(1) assms(4)] by (simp add: apart_def gw_inv_def)
  from answered_ok [OF assms(2) b(2) this assms(3)] show ?thesis by blast
qed

text \<open>Node 0 connects, is asked for its services and has none.\<close>

theorem connecting_never_faults_witness:
  "\<exists>again w'. goes_on (discover_services small_env small_uuids 0 None (gw small_busy)) = Inr (again, w')"
proof -
  have up: "bt_up small_up" using small_up_step(2) by (simp add: bt_up_def)
  have "unused 0 (gw small_up)" using small_up_step(6,7) by (simp add: unused_def)
  have "awaited 0 (new_calls (gw small_up) (gw small_busy)) = Some Cb_discover_services"
    by (simp add: new_calls_def small_busy_trace awaited_def)
  with connecting_connected [OF small_up_reach [of small_uuids upper_adv] up \<open>unused 0 (gw small_up)\<close> refl]
  have run: "connecting small_env small_uuids upper_adv small_cfg 0 small_busy (Some Cb_discover_services)"
    by (simp add: small_busy_def)
  have "roomy small_env 0 23" by (auto simp: roomy_def small_env_def split: list.splits)
  from connecting_never_faults [OF run answered.intros(1) this, of None] show ?thesis by simp
qed

end
