(* ===== verification/Uplink_Delivery.thy ===== *)
theory Uplink_Delivery
  imports Pointer_Calculus Connect_Props
begin

text \<open>
  The uplink from the node to the cloud: packets come in by notification or as answers to reads,
  the cloud acknowledges blocks, and anything else that leaves the uplink and the node's pointer
  to it alone happens in between.  What is shown of the library carries over to the glue, and
  the cloud gets what the node has sent.
\<close>

subsection \<open>Operations that do not end the uplink\<close>

definition agrees :: "fault + 'r \<Rightarrow> fault + 'r \<Rightarrow> bool" where
  "agrees m n \<longleftrightarrow> (\<forall>r. m = Inr r \<longrightarrow> n = Inr r)"

lemma agreesD: "agrees m n \<Longrightarrow> m = Inr r \<Longrightarrow> n = Inr r"
  by (simp add: agrees_def)

lemma agrees_rules:
  "agrees m m" "agrees (Inl e) n"
  "agrees m m' \<Longrightarrow> (\<And>x. agrees (f x) (f' x)) \<Longrightarrow> agrees (bnd m f) (bnd m' f')"
  "agrees m m' \<Longrightarrow> agrees n n' \<Longrightarrow> agrees (if b then m else n) (if b then m' else n')"
  "agrees m m' \<Longrightarrow> (\<And>y. agrees (g y) (g' y)) \<Longrightarrow> agrees (case opt of None \<Rightarrow> m | Some y \<Rightarrow> g y) (case opt of None \<Rightarrow> m' | Some y \<Rightarrow> g' y)"
  "(\<And>y z. agrees (h y z) (h' y z)) \<Longrightarrow> agrees (case pr of (y, z) \<Rightarrow> h y z) (case pr of (y, z) \<Rightarrow> h' y z)"
  by (cases m; cases m'; auto simp: agrees_def split: option.split prod.split)+

lemma agrees_end: "agrees (bnd (no_end r c w) f) n"
  by (simp add: agrees_def no_end_def)

lemma process_agrees: "agrees (process_uplink E no_end p w) (process_uplink E ecb p w)"
  unfolding process_uplink_def Let_def by (rule agrees_end agrees_rules(1-2) agrees_rules(3-6))+

lemma ack_agrees: "agrees (block_upload_callback E no_end st p w) (block_upload_callback E ecb st p w)"
  unfolding block_upload_callback_def Let_def by (rule process_agrees agrees_end agrees_rules(1-2) agrees_rules(3-6))+

lemma close_agrees: "agrees (uplink_close E no_end p w) (uplink_close E ecb p w)"
  unfolding uplink_close_def Let_def by (rule process_agrees agrees_rules(1-2) agrees_rules(3-6))+

lemma write_agrees: "agrees (uplink_write E no_end p bs lst w) (uplink_write E ecb p bs lst w)"
  unfolding uplink_write_def by (rule process_agrees close_agrees agrees_rules(1-2) agrees_rules(3-6))+

text \<open>With a cloud client that takes every block, an uplink ends only when its queue is empty.\<close>

lemma process_accepted:
  assumes "up_inv E s t0 u written w" and "uplinks w a = Some u" and "cloud E" and "wf_env E" and "accepts E s"
    and "up_closed u \<longrightarrow> up_sending u \<or> up_queue u \<noteq> []"
  shows "\<exists>w'. process_uplink E no_end (Some a) w = Inr w'"
proof (cases "up_sending u")
  case True
  with process_busy [OF assms(2)] show ?thesis by auto
next
  case idle: False
  show ?thesis
  proof (cases "up_queue u")
    case Nil
    with assms(6) idle have "\<not> up_closed u" by auto
    with process_rest [OF assms(2) idle Nil, of E no_end] show ?thesis by simp
  next
    case (Cons b q)
    have "b \<noteq> []" using up_inv_unsent [OF assms(1,4)] Cons by simp
    moreover have "session u = s" using assms(1) by (simp add: up_inv_def)
    ultimately show ?thesis
      using process_send [OF assms(2) idle Cons _ assms(3), of no_end] assms(5) by (simp add: accepts_def)
  qed
qed

lemma write_loop_takes_all:
  fixes w :: "'a uplink_world_scheme"
  assumes "\<And>t. ret E t Malloc \<noteq> 0"
  shows "kept (\<lambda>ok. ok) fst (write_loop E p bs w)"
proof (induction "length bs" arbitrary: bs w rule: less_induct)
  case less
  have rec: "kept (\<lambda>ok. ok) fst (write_loop E p (drop n bs) w1)" if "bs \<noteq> []" "n \<noteq> 0" for n and w1 :: "'a uplink_world_scheme"
    using less.hyps [of "drop n bs"] that by simp
  have alloc: "fst (case wb of None \<Rightarrow> pouch_block_alloc E w1 | Some b \<Rightarrow> (Some b, w1)) \<noteq> None" for wb w1
    using assms by (cases wb) (simp_all add: pouch_block_alloc_def malloc_def ext_call_def)
  have got: "kept (\<lambda>ok. ok) fst (case m of (None, w) \<Rightarrow> f w | (Some b, w) \<Rightarrow> g b w)"
    if "fst m \<noteq> None" "\<And>b w. kept (\<lambda>ok. ok) fst (g b w)" for m and f g :: "_ \<Rightarrow> _"
    using that by (cases m) auto
  show ?case
    by (subst write_loop.simps, unfold Let_def)
      (rule kept_if kept_look kept_any got [OF alloc] rec kept_Inl | assumption | simp add: kept_Inr; fail)+
qed

lemma write_accepted:
  assumes run: "up_run E a s t0 written False w" and "wf_env E" and acc: "accepts E s" and mem: "\<And>t. ret E t Malloc \<noteq> 0"
    and ne: "lst \<Longrightarrow> written @ p \<noteq> []"
  shows "\<exists>w'. uplink_write E no_end (Some a) p lst w = Inr (0, w')"
proof -
  from up_run_inv [OF run assms(2)] obtain u where u: "cloud E" "uplinks w a = Some u" "up_inv E s t0 u written w"
    "up_live u" "\<not> up_closed u" by auto
  from write_loop_world [OF u(2,3,5) assms(2), of p] obtain ok w1 u1 where w1:
    "write_loop E (Some a) p w = Inr (ok, w1)" "write_post E a s t0 u written p w ok w1" by blast
  have ok using keptD [OF write_loop_takes_all [OF mem] w1(1)] by simp
  with w1(2) obtain u1 where u1: "uplinks w1 a = Some u1" "\<not> up_closed u1" "up_inv E s t0 u1 (written @ p) w1"
    by (auto simp: write_post_def)
  show ?thesis
  proof (cases lst)
    case False
    from process_accepted [OF u1(3,1) u(1) assms(2) acc] u1(2) obtain w2 where
      "process_uplink E no_end (Some a) w1 = Inr w2" by blast
    with False \<open>ok\<close> w1(1) show ?thesis by (simp add: uplink_write_def)
  next
    case True
    from u1(2,3) obtain b where b: "wblock u1 = Some b" by (auto simp: up_inv_def up_data_def split: option.splits)
    let ?u2 = "u1\<lparr>up_closed := True, up_queue := up_queue u1 @ [b], wblock := None\<rparr>"
    have "up_inv E s t0 ?u2 (written @ p) (put_uplink a ?u2 w1)"
      using up_inv_close [OF u1(3) b ne [OF True] assms(2)] by (simp add: up_inv_cong [of "put_uplink a ?u2 w1" w1])
    from process_accepted [OF this _ u(1) assms(2) acc] obtain w2 where
      "process_uplink E no_end (Some a) (put_uplink a ?u2 w1) = Inr w2" by fastforce
    with close_open [OF u1(1) b u1(2), of E no_end] True \<open>ok\<close> w1(1) show ?thesis by (simp add: uplink_write_def)
  qed
qed

subsection \<open>The uplink of a connection\<close>

text \<open>
  \<open>receiving E c a s t0 written cl w\<close>: connection \<open>c\<close> receives its uplink \<open>a\<close>, opened with session \<open>s\<close>;
  the payloads \<open>written\<close> have come in, with the end mark if \<open>cl\<close>, and the cloud has not acknowledged
  the last block yet.
\<close>

inductive receiving :: "'e env_scheme \<Rightarrow> conn \<Rightarrow> addr \<Rightarrow> int \<Rightarrow> nat \<Rightarrow> bytes \<Rightarrow> bool \<Rightarrow> 'a gw_world_scheme \<Rightarrow> bool"
  for E c a s t0 where
  receiving_start: "downlink_start E c w0 = (dl, w1) \<Longrightarrow> uplink_open E dl c w1 = (Some a, w2)
    \<Longrightarrow> uplinks w2 a = Some u \<Longrightarrow> s = session u \<Longrightarrow> t0 = length (trace w2)
    \<Longrightarrow> receiving E c a s t0 [] False (uplink_start E c w0)"
| receiving_notified: "receiving E c a s t0 written False w \<Longrightarrow> pk_decode E packet = Inr (p, lst)
    \<Longrightarrow> (lst \<Longrightarrow> written @ p \<noteq> []) \<Longrightarrow> uplink_indicate_cb E c (Some packet) w = Inr (it, w')
    \<Longrightarrow> receiving E c a s t0 (written @ p) lst w'"
| receiving_read: "receiving E c a s t0 written False w \<Longrightarrow> pk_decode E packet = Inr (p, lst)
    \<Longrightarrow> (lst \<Longrightarrow> written @ p \<noteq> []) \<Longrightarrow> uplink_read_cb E c 0 packet w = Inr (it, w')
    \<Longrightarrow> receiving E c a s t0 (written @ p) lst w'"
| receiving_acked: "receiving E c a s t0 written cl w
    \<Longrightarrow> block_upload_callback E (uplink_end_cb E) GOLIOTH_OK (Some a) w = Inr w' \<Longrightarrow> uplinks w' a \<noteq> None
    \<Longrightarrow> receiving E c a s t0 written cl w'"
| receiving_other: "receiving E c a s t0 written cl w \<Longrightarrow> uplinks w' a = uplinks w a
    \<Longrightarrow> node_uplink (nodes w' c) = node_uplink (nodes w c) \<Longrightarrow> trace w' = trace w @ cs
    \<Longrightarrow> concat (map (block_of s) cs) = [] \<Longrightarrow> receiving E c a s t0 written cl w'"

text \<open>As long as the uplink does not end, its owner stays, and nothing beyond the library changes.\<close>

definition owned_by :: "addr \<Rightarrow> conn \<Rightarrow> 'a \<Rightarrow> 'a uplink_world_scheme \<Rightarrow> bool" where
  "owned_by a c m w \<longleftrightarrow> uplink_world.more w = m \<and> (\<forall>u. uplinks w a = Some u \<longrightarrow> end_cb_arg u = c)"

interpretation owned: uplink_at E "owned_by a c m" "Some a" "\<lambda>c'. c' = c" "\<lambda>_. True" no_end
  for E :: "'e env_scheme" and a c and m :: 'a
  by unfold_locales
    (auto simp: owned_by_def kept_def no_end_def put_uplink_def ext_call_def malloc_def Let_def)

lemma owned_nodes: "owned_by a c (uplink_world.more w) w' \<Longrightarrow> nodes w' = nodes (w :: 'a gw_world_scheme)"
  by (cases w; cases w') (simp add: owned_by_def)

subsection \<open>The stream of the library\<close>

definition link_up :: "'e env_scheme \<Rightarrow> conn \<Rightarrow> addr \<Rightarrow> int \<Rightarrow> nat \<Rightarrow> bytes \<Rightarrow> bool \<Rightarrow> 'a gw_world_scheme \<Rightarrow> bool" where
  "link_up E c a s t0 written cl w \<longleftrightarrow> up_run E a s t0 written cl w
     \<and> map_option end_cb_arg (uplinks w a) = Some c \<and> node_uplink (nodes w c) = (if cl then NULL else Some a)"

lemma link_up_other:
  fixes w w' :: "'a gw_world_scheme"
  assumes "link_up E c a s t0 written cl w" and "uplinks w' a = uplinks w a"
    and "node_uplink (nodes w' c) = node_uplink (nodes w c)" and "trace w' = trace w @ cs"
    and "concat (map (block_of s) cs) = []"
  shows "link_up E c a s t0 written cl w'"
  using assms up_other [of E a s t0 written cl w w' cs] by (simp add: link_up_def)

lemma link_up_start:
  assumes start: "downlink_start E c w0 = (dl, w1)" "uplink_open E dl c w1 = (Some a, w2)" "uplinks w2 a = Some u"
    and s: "s = session u" "t0 = length (trace w2)" and "cloud E"
  shows "link_up E c a s t0 [] False (uplink_start E c w0)"
proof -
  have run: "up_run E a s t0 [] False w2" by (rule up_opened [OF assms(6) start(2,3) s])
  from open_cases [OF start(2) assms(6)] obtain sid wx where "w2 = put_uplink a (new_uplink sid c) wx" by metis
  with start(3) have arg: "end_cb_arg u = c" by (auto simp: new_uplink_def)
  let ?w = "uplink_start E c w0"
  have "\<exists>cs. trace ?w = trace w2 @ cs \<and> concat (map (block_of s) cs) = []"
    by (simp add: uplink_start_def start Let_def ext_call_def bt_finished_def block_of_def)
  then obtain cs where cs: "trace ?w = trace w2 @ cs" "concat (map (block_of s) cs) = []" by metis
  have "uplinks ?w a = uplinks w2 a" "node_uplink (nodes ?w c) = Some a"
    by (simp_all add: uplink_start_def start Let_def ext_call_def bt_finished_def)
  with up_other [OF run, of ?w cs] cs start(3) arg show ?thesis by (simp add: link_up_def)
qed

lemma link_up_payload:
  fixes w :: "'a gw_world_scheme"
  assumes link: "link_up E c a s t0 written False w" and env: "wf_env E" "accepts E s" "\<And>t. ret E t Malloc \<noteq> 0"
    and packet: "pk_decode E packet = Inr (p, lst)" and ne: "lst \<Longrightarrow> written @ p \<noteq> []"
  shows "\<exists>w'. handle_uplink_payload E c packet w = Inr (if lst then ITER_STOP else ITER_CONTINUE, w')
    \<and> link_up E c a s t0 (written @ p) lst w'"
proof -
  from link have run: "up_run E a s t0 written False w" and at: "node_uplink (nodes w c) = Some a"
    and own: "map_option end_cb_arg (uplinks w a) = Some c"
    by (simp_all add: link_up_def)
  from write_accepted [OF run env ne] obtain w1 where w1: "uplink_write E no_end (Some a) p lst w = Inr (0, w1)" by blast
  have run1: "up_run E a s t0 (written @ p) lst w1" by (rule up_written [OF run ne w1])
  have "owned_by a c (uplink_world.more w) w" using own by (auto simp: owned_by_def)
  from keptD [OF owned.up_write [OF this] w1] have own1: "owned_by a c (uplink_world.more w) w1" by simp
  from owned_nodes [OF this] at have at1: "node_uplink (nodes w1 c) = Some a" by simp
  from up_run_inv [OF run1 env(1)] own1 obtain u1 where u1: "uplinks w1 a = Some u1" "end_cb_arg u1 = c" "up_live u1"
    "up_closed u1 = lst" by (auto simp: owned_by_def)
  have written: "uplink_write E (uplink_end_cb E) (Some a) p lst w = Inr (0, w1)"
    by (rule agreesD [OF write_agrees w1])
  show ?thesis
  proof (cases lst)
    case False
    with written at packet run1 at1 u1 show ?thesis by (simp add: handle_uplink_payload_def link_up_def)
  next
    case True
    let ?w = "set_node c (node_uplink_update (\<lambda>_. NULL)) w1"
    from True u1(3,4) have "up_sending u1" by (simp add: up_live_def)
    with True u1 have "uplink_close E (uplink_end_cb E) (Some a) w1 = Inr w1"
      by (simp add: close_again process_busy)
    then have "handle_uplink_payload E c packet w = Inr (ITER_STOP, ?w)"
      using True written at packet at1 by (simp add: handle_uplink_payload_def)
    moreover have "link_up E c a s t0 (written @ p) True ?w"
      using up_other [OF run1, of ?w "[]"] True u1 by (simp add: link_up_def)
    ultimately show ?thesis using True by auto
  qed
qed

lemma ended_gone:
  "bnd (uplink_end_cb E r c w) (cleanup_uplink E (Some a)) = Inr w' \<Longrightarrow> uplinks w' a = None"
  by (auto simp: cleanup_uplink_def deref_eq_Inr Let_def elim!: bnd_InrE)

lemma link_up_acked:
  fixes w :: "'a gw_world_scheme"
  assumes link: "link_up E c a s t0 written cl w" and env: "wf_env E" "cloud E" "accepts E s"
    and ack: "block_upload_callback E (uplink_end_cb E) GOLIOTH_OK (Some a) w = Inr w'" and still: "uplinks w' a \<noteq> None"
  shows "link_up E c a s t0 written cl w'"
proof -
  from link have run: "up_run E a s t0 written cl w" and own: "owned_by a c (uplink_world.more w) w"
    by (auto simp: link_up_def owned_by_def)
  from up_run_inv [OF run env(1)] obtain u where u: "uplinks w a = Some u" "up_inv E s t0 u written w"
    "up_live u" "up_closed u = cl" by auto
  have "\<exists>w1. block_upload_callback E no_end GOLIOTH_OK (Some a) w = Inr w1"
  proof (cases "up_sending u")
    case False
    with u show ?thesis by (simp add: block_upload_callback_def)
  next
    case True
    then obtain b where b: "rblock u = Some b" using u(2) by (auto simp: up_inv_def up_flight_def)
    let ?u2 = "u\<lparr>up_sending := False, rblock := None\<rparr>"
    let ?w2 = "(put_uplink a ?u2 w)\<lparr>pblocks_live := pblocks_live w - 1\<rparr>"
    note idle = acked_idle [OF u(1) True b, of E]
    have inv: "up_inv E s t0 ?u2 written ?w2" using up_inv_acked [OF u(2)] by (subst up_inv_cong [of ?w2 w]) simp_all
    have "up_closed ?u2 \<longrightarrow> up_sending ?u2 \<or> up_queue ?u2 \<noteq> []"
    proof (rule ccontr)
      assume "\<not> ?thesis"
      then have "process_uplink E (uplink_end_cb E) (Some a) ?w2 = bnd (uplink_end_cb E UPLINK_SUCCESS (end_cb_arg ?u2)
          (put_uplink a (?u2\<lparr>up_sending := True\<rparr>) ?w2)) (cleanup_uplink E (Some a))"
        by (intro process_end) simp_all
      with ack idle [of "uplink_end_cb E"] still ended_gone show False by metis
    qed
    from process_accepted [OF inv _ env(2,1,3) this] idle [of no_end] show ?thesis by simp
  qed
  then obtain w1 where w1: "block_upload_callback E no_end GOLIOTH_OK (Some a) w = Inr w1" by blast
  with agreesD [OF ack_agrees w1, of "uplink_end_cb E"] ack
  have w': "block_upload_callback E no_end GOLIOTH_OK (Some a) w = Inr w'" by simp
  from keptD [OF owned.up_ack [OF own] w'] have "owned_by a c (uplink_world.more w) w'" .
  with owned_nodes [OF this] up_acked [OF run w'] link still show ?thesis
    by (auto simp: link_up_def owned_by_def)
qed

lemma receiving_link:
  fixes w :: "'a gw_world_scheme"
  assumes "receiving E c a s t0 written cl w" and env: "wf_env E" "cloud E" "accepts E s" "\<And>t. ret E t Malloc \<noteq> 0"
  shows "link_up E c a s t0 written cl w"
  using assms(1)
proof induction
  case (receiving_start w0 dl w1 w2 u)
  from link_up_start [OF receiving_start env(2)] show ?case .
next
  case (receiving_notified written w packet p lst it w')
  from link_up_payload [OF receiving_notified(5) env(1,3,4) receiving_notified(2,3)] receiving_notified(4)
  show ?case by (auto simp: uplink_indicate_cb_def)
next
  case (receiving_read written w packet p lst it w')
  from link_up_payload [OF receiving_read(5) env(1,3,4) receiving_read(2,3)] obtain w1 where
    w1: "handle_uplink_payload E c packet w = Inr (if lst then ITER_STOP else ITER_CONTINUE, w1)"
    "link_up E c a s t0 (written @ p) lst w1" by blast
  with receiving_read(4) have "w' = w1 \<or> w' = snd (ext_call E (Gatt_read c (params (nodes w1 c))) w1)"
    by (auto simp: uplink_read_cb_def split: if_splits)
  with w1(2) show ?case
    using link_up_other [OF w1(2), of w' "[Gatt_read c (params (nodes w1 c))]"] by (auto simp: ext_call_def block_of_def)
next
  case (receiving_acked written cl w w')
  from link_up_acked [OF receiving_acked(4) env(1-3) receiving_acked(2,3)] show ?case .
next
  case (receiving_other written cl w w' cs)
  from link_up_other [OF receiving_other(6,2-5)] show ?case .
qed

subsection \<open>Delivery\<close>

lemma receiving_drains:
  fixes w :: "'a gw_world_scheme"
  assumes "receiving E c a s t0 written True w" and "wf_env E" and "cloud E" and "accepts E s"
    and "\<And>t. ret E t Malloc \<noteq> 0"
  shows "\<exists>w' q cs. acks E (uplink_end_cb E) a (Suc (length (whole E written) - length (up_sent s t0 w))) w = Inr w'
    \<and> up_sent s t0 w' = whole E written \<and> uplinks w' a = None \<and> node_uplink (nodes w' c) = NULL
    \<and> trace w' = cs @ [Gatt_unsubscribe c q, Uplink_finish s]"
proof -
  from receiving_link [OF assms] have run: "up_run E a s t0 written True w"
    and own: "map_option end_cb_arg (uplinks w a) = Some c" by (simp_all add: link_up_def)
  from acks_drain [OF closed_run [OF run assms(2)] assms(2,4)] own obtain w1 u1 where w1:
    "acks E (uplink_end_cb E) a (Suc (length (whole E written) - length (up_sent s t0 w))) w
      = bnd (uplink_end_cb E UPLINK_SUCCESS c w1) (cleanup_uplink E (Some a))"
    "up_sent s t0 w1 = whole E written" "uplinks w1 a = Some u1" "session u1 = s" "t0 \<le> length (trace w1)" by auto
  let ?q = "params (nodes w1 c)" and ?w = "set_node c (node_uplink_update (\<lambda>_. NULL)) w1"
  let ?w' = "?w\<lparr>trace := trace w1 @ [Gatt_unsubscribe c ?q, Uplink_finish s], uplinks := (uplinks w1)(a := None),
    pblocks_live := pblocks_live w1 - own_blocks u1\<rparr>"
  have "bnd (uplink_end_cb E UPLINK_SUCCESS c w1) (cleanup_uplink E (Some a)) = Inr ?w'"
    using w1(3,4) assms(3) by (simp add: uplink_end_cb_def cleanup_uplink_def Let_def ext_call_def)
  moreover have "up_sent s t0 ?w' = whole E written"
    using up_sent_snoc [OF w1(5), of ?w' "[Gatt_unsubscribe c ?q, Uplink_finish s]" s] w1(2) by (simp add: block_of_def)
  ultimately show ?thesis
    using w1(1) by (intro exI [of _ ?w'] exI [of _ ?q] exI [of _ "trace w1"]) simp
qed

text \<open>
  C6: what a node sends reaches the cloud.  When the gateway has received the uplink of a
  connection up to the end mark, in whatever packets, by notification or by reads, with
  acknowledgements of the cloud and anything the rest of the gateway does in between, if memory does
  not run out and the cloud client takes and acknowledges the blocks, then one acknowledgement for each block not yet
  sent and one for the block in flight hand over the whole stream, block by block; then the
  node is unsubscribed, the session of the cloud finished and the uplink gone.
\<close>

theorem uplink_reaches_cloud:
  fixes w :: "'a gw_world_scheme"
  assumes "receiving E c a s t0 written True w" and "wf_env E" and "cloud E" and "accepts E s"
    and "\<And>t. ret E t Malloc \<noteq> 0"
  shows "\<exists>w' q cs. acks E (uplink_end_cb E) a (Suc (length (whole E written) - length (up_sent s t0 w))) w = Inr w'
    \<and> up_sent s t0 w' = whole E written \<and> uplinks w' a = None \<and> node_uplink (nodes w' c) = NULL
    \<and> trace w' = cs @ [Gatt_unsubscribe c q, Uplink_finish s]"
  by (rule receiving_drains [OF assms])

text \<open>Two packets, with the five bytes 1 to 5.\<close>

lemma small_packet:
  fixes w :: gw_world
  assumes "receiving small_env c a 1 t0 written False w" and "packet = h # p" and "p \<noteq> []"
  shows "\<exists>w' :: gw_world. receiving small_env c a 1 t0 (written @ p) (h = 1) w'"
proof -
  have acc: "accepts small_env 1" by (simp add: accepts_def)
  have dec: "pk_decode small_env packet = Inr (p, h = 1)" using assms(2) by (simp add: small_env_def)
  have mem: "ret small_env t Malloc \<noteq> 0" for t by simp
  from receiving_link [OF assms(1) _ _ acc mem] have "link_up small_env c a 1 t0 written False w" by simp
  from link_up_payload [OF this _ acc mem dec] assms(3) obtain w' it where
    "uplink_indicate_cb small_env c (Some packet) w = Inr (it, w')" by (auto simp: uplink_indicate_cb_def)
  from receiving_notified [OF assms(1) dec _ this] assms(3) show ?thesis by auto
qed

theorem uplink_reaches_cloud_witness:
  "\<exists>(w :: gw_world) n w'. receiving small_env 0 3 1 6 [1, 2, 3, 4, 5] True w
     \<and> acks small_env (uplink_end_cb small_env) 3 n w = Inr w'
     \<and> up_sent 1 6 w' = [(0, [1, 2, 3, 4], False), (1, [5], True)] \<and> uplinks w' 3 = None"
proof -
  obtain w2 where w2: "uplink_open small_env (Some 1) 0 gw_wired = (Some 3, w2)" "uplinks w2 3 = Some (new_uplink 1 0)"
    "length (trace w2) = 6"
    by (simp add: uplink_open_def pouch_block_alloc_def malloc_def ext_call_def gw_wired_def gw_boot_def put_uplink_def)
  have "receiving small_env 0 3 1 6 [] False (uplink_start small_env 0 gw_boot)"
    by (rule receiving_start [OF gw_wired_run w2(1,2)]) (simp_all add: new_uplink_def w2(3))
  from small_packet [OF this refl, of "[1, 2, 3]" 0] obtain w where
    w: "receiving small_env 0 3 1 6 [1, 2, 3] False (w :: gw_world)" by auto
  from small_packet [OF w refl, of "[4, 5]" 1] obtain w :: gw_world where
    w: "receiving small_env 0 3 1 6 [1, 2, 3, 4, 5] True w" by auto
  have "whole small_env [1, 2, 3, 4, 5] = [(0, [1, 2, 3, 4], False), (1, [5], True)]"
    by (simp add: whole_def chunks.simps stamped_def upt_rec)
  with uplink_reaches_cloud [OF w] obtain w' n where "acks small_env (uplink_end_cb small_env) 3 n w = Inr w'"
    "up_sent 1 6 w' = [(0, [1, 2, 3, 4], False), (1, [5], True)]" "uplinks w' 3 = None"
    by (auto simp: accepts_def simp del: acks.simps)
  with w show ?thesis by blast
qed

end
