(* ===== verification/Session.thy ===== *)
theory Session
  imports Discovery Uplink_Delivery Gateway_System
begin

text \<open>
  The session of a node that has no certificate characteristics, from the connection to the end of
  its uplink, with nothing else going on: discovery, the packets of the uplink, and the
  acknowledgements of the cloud.
\<close>

subsection \<open>The session\<close>

text \<open>A packet comes as a notification if the gateway could subscribe, otherwise as the answer to a read.\<close>

definition receive :: "'e env_scheme \<Rightarrow> conn \<Rightarrow> bytes \<Rightarrow> 'a gw_world_scheme \<Rightarrow> fault + (iter \<times> 'a gw_world_scheme)" where
  "receive E c packet w =
     (if attr_ccc (attr_handles (nodes w c) ATTR_UPLINK) \<noteq> 0 then uplink_indicate_cb E c (Some packet) w
      else uplink_read_cb E c 0 packet w)"

primrec receive_all :: "'e env_scheme \<Rightarrow> conn \<Rightarrow> bytes list \<Rightarrow> 'a gw_world_scheme \<Rightarrow> fault + 'a gw_world_scheme" where
  "receive_all E c [] w = Inr w"
| "receive_all E c (p # ps) w = bnd (receive E c p w) (\<lambda>(_, w). receive_all E c ps w)"

text \<open>The last callback of the discovery starts the uplink; the cloud acknowledges \<open>n\<close> blocks.\<close>

definition session_start :: "'e env_scheme \<Rightarrow> uuids \<Rightarrow> conn \<Rightarrow> handle \<Rightarrow> handle \<Rightarrow> chrc list
    \<Rightarrow> 'a gw_world_scheme \<Rightarrow> fault + 'a gw_world_scheme" where
  "session_start E U c h e cs w = bnd (discovery E U c h e cs w) (\<lambda>w.
     bnd (discover_descriptors E c None w) (\<lambda>(_, w). Inr w))"

definition session_run :: "'e env_scheme \<Rightarrow> uuids \<Rightarrow> conn \<Rightarrow> handle \<Rightarrow> handle \<Rightarrow> chrc list \<Rightarrow> bytes list \<Rightarrow> nat
    \<Rightarrow> 'a gw_world_scheme \<Rightarrow> fault + 'a gw_world_scheme" where
  "session_run E U c h e cs packets n w = bnd (session_start E U c h e cs w) (\<lambda>w.
     bnd (receive_all E c packets w) (acks E (uplink_end_cb E) (the (node_uplink (nodes w c))) n))"

subsection \<open>Calls of one part of the session\<close>

definition calls_since :: "(ext_call \<Rightarrow> bool) \<Rightarrow> ext_call list \<Rightarrow> 'a ext_world_scheme \<Rightarrow> bool" where
  "calls_since P t w \<longleftrightarrow> (\<exists>xs. trace w = t @ xs \<and> list_all P xs)"

text \<open>No block goes to the cloud, no certificate either, and nothing is written to a node.\<close>

fun quiet :: "ext_call \<Rightarrow> bool" where
  "quiet (Uplink_block s i b l) = False"
| "quiet (Device_cert_set b) = False"
| "quiet (Gatt_write c g) = False"
| "quiet _ = True"

lemma quiet_blocks: "quiet x \<Longrightarrow> block_of s x = []"
  by (cases x) (simp_all add: block_of_def)

lemma calls_refl [simp]: "calls_since P (trace w) w"
  by (simp add: calls_since_def)

lemma calls_trans: "calls_since P t w \<Longrightarrow> calls_since P (trace w) w' \<Longrightarrow> calls_since P t w'"
  by (auto simp: calls_since_def)

lemma calls_set_node [simp]: "calls_since P t (set_node c f w) = calls_since P t w"
  by (simp add: calls_since_def)

lemma calls_more: "calls_since P t w \<Longrightarrow> trace w' = trace w @ xs \<Longrightarrow> list_all P xs \<Longrightarrow> calls_since P t w'"
  by (auto simp: calls_since_def)

lemma calls_blocks: "calls_since quiet t w \<Longrightarrow> \<exists>xs. trace w = t @ xs \<and> concat (map (block_of s) xs) = []"
  by (auto simp: calls_since_def list_all_iff quiet_blocks)

text \<open>What the reports of a discovery keep, whatever they find.\<close>

lemma discovery_keeps:
  fixes w w' :: "'a gw_world_scheme"
  assumes run: "discovery E U c h e cs w = Inr w'"
    and request: "\<And>prm v. I v \<Longrightarrow> I (discover E c prm v)" and finished: "\<And>v. I v \<Longrightarrow> I (bt_finished E c v)"
    and store: "\<And>f v. I v \<Longrightarrow> I (set_node c (attr_handles_update f) v)" and start: "I (set_node c (\<lambda>_. zero_node) w)"
  shows "I w'"
proof -
  have start': "I (bt_start E U c w)" unfolding bt_start_def Let_def by (intro request start)
  have services: "I v'" if "discover_services E U c (Some x) v = Inr (it, v')" "I v" for x it v v'
    using that request by (auto simp: discover_services_def split: prod.splits if_splits)
  have characteristics: "I v'" if "discover_characteristics E U c None v = Inr (it, v')" "I v" for it v v'
    using that request finished by (auto simp: discover_characteristics_def elim!: bnd_InrE split: if_splits)
  have reports:
    "report_each (discover_characteristics E U c) xs v = Inr v' \<Longrightarrow> I v \<Longrightarrow> I v'"
    "report_each (discover_descriptors E c) ds v = Inr v' \<Longrightarrow> I v \<Longrightarrow> I v'" for xs ds v v'
    using report_stores [of "discover_characteristics E U c" c "assign U", OF discover_characteristic, of xs v]
      report_stores [of "discover_descriptors E c" c own, OF discover_descriptor, of ds v] store by auto
  from run obtain w1 w2 w3 x1 x3 where
    "discover_services E U c (Some (h, svc16 U, e)) (bt_start E U c w) = Inr (x1, w1)"
    "report_each (discover_characteristics E U c) (map (\<lambda>(u, v, _). (u, v)) cs) w1 = Inr w2"
    "discover_characteristics E U c None w2 = Inr (x3, w3)"
    "report_each (discover_descriptors E c) (filter (in_range (params (nodes w3 c))) (cccs cs)) w3 = Inr w'"
    by (auto simp: discovery_def elim!: bnd_InrE)
  then show ?thesis using services [OF _ start'] characteristics reports by metis
qed

lemma discovery_calls:
  assumes "discovery E U c h e cs w = Inr w'"
  shows "calls_since quiet (trace w) w'"
  by (rule discovery_keeps [OF assms])
    (auto simp: discover_def ext_call_def bt_finished_def Let_def intro: calls_more)

subsection \<open>The uplink starts\<close>

lemma start_receiving:
  fixes w :: "'a gw_world_scheme"
  assumes "cloud E" and mem: "\<And>t. ret E t Malloc \<noteq> 0" and sid: "\<And>t dl. ret E t (Uplink_start dl) \<noteq> 0"
  obtains a s and w2 :: "'a gw_world_scheme" where "receiving E c a s (length (trace w2)) [] False (uplink_start E c w)"
    and "calls_since quiet (trace w) w2" and "typed_since (trace w2) (uplink_start E c w)"
    and "node_uplink (nodes (uplink_start E c w) c) = Some a"
proof -
  obtain dl w1 where w1: "downlink_start E c w = (dl, w1)" by (cases "downlink_start E c w")
  have "calls_since quiet (trace w) w1"
    using w1 mem by (auto simp: downlink_start_def gatt_mtu_malloc_def malloc_def ext_call_def downlink_open_def
        packetizer_start_def put_downlink_def bt_finished_def calls_since_def Let_def split: if_splits)
  let ?t = "trace w1 @ [Malloc, Malloc]"
  obtain a w2 where w2: "uplink_open E dl c w1 = (Some a, w2)" "trace w2 = ?t @ [Uplink_start dl]"
    "uplinks w2 a = Some (new_uplink (ret E ?t (Uplink_start dl)) c)"
    using assms by (simp add: uplink_open_def pouch_block_alloc_def malloc_def ext_call_def put_uplink_def Let_def)
  have "typed_since (trace w2) (uplink_start E c w)"
    by (simp add: typed_since_def uplink_start_def w1 w2(1) Let_def ext_call_def bt_finished_def)
  moreover have "node_uplink (nodes (uplink_start E c w) c) = Some a"
    by (simp add: uplink_start_def w1 w2(1) Let_def ext_call_def bt_finished_def)
  moreover have "calls_since quiet (trace w) w2"
    using \<open>calls_since quiet (trace w) w1\<close> by (rule calls_more [where xs = "[Malloc, Malloc, Uplink_start dl]"]) (simp_all add: w2(2))
  moreover from receiving_start [OF w1 w2(1,3) refl refl]
  have "receiving E c a (ret E ?t (Uplink_start dl)) (length (trace w2)) [] False (uplink_start E c w)"
    by (simp add: new_uplink_def)
  ultimately show thesis using that by blast
qed

subsection \<open>The packets arrive\<close>

lemma receive_next:
  fixes w :: "'a gw_world_scheme"
  assumes "receiving E c a s t0 written False w" and env: "wf_env E" "cloud E" "accepts E s" "\<And>t. ret E t Malloc \<noteq> 0"
    and packet: "pk_decode E packet = Inr (p, lst)" "lst \<Longrightarrow> written @ p \<noteq> []"
  shows "\<exists>it w'. receive E c packet w = Inr (it, w') \<and> receiving E c a s t0 (written @ p) lst w'"
proof -
  from link_up_payload [OF receiving_link [OF assms(1) env] env(1,3,4) packet] obtain it w' where
    w': "handle_uplink_payload E c packet w = Inr (it, w')" by blast
  show ?thesis
  proof (cases "attr_ccc (attr_handles (nodes w c) ATTR_UPLINK) \<noteq> 0")
    case True
    with w' have "receive E c packet w = Inr (it, w')" "uplink_indicate_cb E c (Some packet) w = Inr (it, w')"
      by (simp_all add: receive_def uplink_indicate_cb_def)
    with receiving_notified [OF assms(1) packet] show ?thesis by blast
  next
    case False
    obtain it' w1 where "uplink_read_cb E c 0 packet w = Inr (it', w1)"
      using w' by (cases it) (auto simp: uplink_read_cb_def)
    with False receiving_read [OF assms(1) packet] show ?thesis by (auto simp: receive_def)
  qed
qed

lemma receive_packets:
  fixes w :: "'a gw_world_scheme"
  assumes "receiving E c a s t0 written False w" and env: "wf_env E" "cloud E" "accepts E s" "\<And>t. ret E t Malloc \<noteq> 0"
    and "map (pk_decode E) packets = map (\<lambda>p. Inr (p, False)) ps @ [Inr (q, True)]" and "written @ concat ps @ q \<noteq> []"
  shows "\<exists>w'. receive_all E c packets w = Inr w' \<and> receiving E c a s t0 (written @ concat ps @ q) True w'"
  using assms(1,6,7)
proof (induction ps arbitrary: written packets w)
  case Nil
  then obtain packet where "packets = [packet]" "pk_decode E packet = Inr (q, True)" by auto
  with receive_next [OF Nil(1) env, of packet q True] Nil(3) show ?case by fastforce
next
  case (Cons p ps)
  from Cons(3) obtain packet rest where packets: "packets = packet # rest" "pk_decode E packet = Inr (p, False)"
    "map (pk_decode E) rest = map (\<lambda>p. Inr (p, False)) ps @ [Inr (q, True)]" by auto
  from receive_next [OF Cons(2) env packets(2)] obtain it w1 where
    w1: "receive E c packet w = Inr (it, w1)" "receiving E c a s t0 (written @ p) False w1" by auto
  from Cons.IH [OF w1(2) packets(3)] Cons(4) w1(1) packets(1) show ?case by auto
qed

text \<open>Both are made of handlers, and keep what those keep.\<close>

context glue_invariant begin

lemma keep_receive: "I w \<Longrightarrow> kept I snd (receive E c packet w)"
  by (simp add: receive_def keep_indicate keep_read)

lemma keep_receive_all: "I w \<Longrightarrow> kept I (\<lambda>w. w) (receive_all E c packets w)"
proof (induction packets arbitrary: w)
  case (Cons p ps)
  show ?case unfolding receive_all.simps
    by (rule kept_bnd [OF keep_receive [OF Cons(2)]]) (simp add: case_prod_unfold Cons(1))
qed (simp add: kept_Inr)

lemma keep_acks: "I w \<Longrightarrow> kept I (\<lambda>w. w) (acks E (uplink_end_cb E) a n w)"
proof (induction n arbitrary: w)
  case (Suc n)
  show ?case unfolding acks.simps by (rule kept_bnd [OF inv_up_ack [OF Suc(2)]]) (rule Suc(1))
qed (simp add: kept_Inr)

lemma keep_uplink_run:
  "I w \<Longrightarrow> bnd (receive_all E c packets w) (acks E (uplink_end_cb E) a n) = Inr w' \<Longrightarrow> I w'"
  by (drule keptD [OF kept_bnd [OF keep_receive_all keep_acks], rotated 2]) auto

end

lemma uplink_delivered:
  fixes w :: "'a gw_world_scheme"
  assumes client: "wf_env E" "cloud E" "\<And>t dl. ret E t (Uplink_start dl) \<noteq> 0" "\<And>s. accepts E s" "\<And>t. ret E t Malloc \<noteq> 0"
    and packets: "map (pk_decode E) packets = map (\<lambda>p. Inr (p, False)) ps @ [Inr (q, True)]" "concat ps @ q \<noteq> []"
  shows "\<exists>n s w' zs. bnd (receive_all E c packets (uplink_start E c w))
      (acks E (uplink_end_cb E) (the (node_uplink (nodes (uplink_start E c w) c))) n) = Inr w'
    \<and> n \<le> Suc (length (whole E (concat ps @ q))) \<and> trace w' = trace w @ zs
    \<and> concat (map (block_of s) zs) = whole E (concat ps @ q) \<and> node_uplink (nodes w' c) = NULL
    \<and> (\<exists>t prm. trace w' = t @ [Gatt_unsubscribe c prm, Uplink_finish s])
    \<and> uplinks w' (the (node_uplink (nodes (uplink_start E c w) c))) = None"
proof -
  obtain a s and w2 :: "'a gw_world_scheme" where
    w2: "receiving E c a s (length (trace w2)) [] False (uplink_start E c w)" "calls_since quiet (trace w) w2"
      "typed_since (trace w2) (uplink_start E c w)" "node_uplink (nodes (uplink_start E c w) c) = Some a"
    by (rule start_receiving [OF client(2,5,3), of c w]) (rule that)
  from receive_packets [OF w2(1) client(1,2,4,5) packets(1)] packets(2) obtain w3 where
    w3: "receive_all E c packets (uplink_start E c w) = Inr w3"
      "receiving E c a s (length (trace w2)) (concat ps @ q) True w3" by auto
  let ?n = "Suc (length (whole E (concat ps @ q)) - length (up_sent s (length (trace w2)) w3))"
  from receiving_drains [OF w3(2) client(1,2,4,5)] obtain w' t prm where
    w': "acks E (uplink_end_cb E) a ?n w3 = Inr w'" "up_sent s (length (trace w2)) w' = whole E (concat ps @ q)"
      "node_uplink (nodes w' c) = NULL" "trace w' = t @ [Gatt_unsubscribe c prm, Uplink_finish s]" "uplinks w' a = None" by blast
  have "bnd (receive_all E c packets (uplink_start E c w)) (acks E (uplink_end_cb E) a ?n) = Inr w'"
    by (simp add: w3(1) w'(1) del: acks.simps)
  from typed_glue.keep_uplink_run [OF w2(3) this] obtain zs where zs: "trace w' = trace w2 @ zs"
    by (auto simp: typed_since_def)
  from calls_blocks [OF w2(2), of s] obtain xs where xs: "trace w2 = trace w @ xs" "concat (map (block_of s) xs) = []" by blast
  have "bnd (receive_all E c packets (uplink_start E c w))
      (acks E (uplink_end_cb E) (the (node_uplink (nodes (uplink_start E c w) c))) ?n) = Inr w'"
    by (simp add: w2(4) w3(1) w'(1) del: acks.simps)
  moreover have "concat (map (block_of s) (xs @ zs)) = whole E (concat ps @ q)"
    using w'(2) xs(2) by (simp add: up_sent_def zs)
  ultimately show ?thesis
    using w'(3-5) by (intro exI [of _ ?n] exI [of _ s] exI [of _ w'] exI [of _ "xs @ zs"]) (simp add: zs xs(1) w2(4))
qed

subsection \<open>The property\<close>

text \<open>
  C7: a whole session.  A node without the server certificate characteristic connects, with nothing
  else going on; the host accepts the discovery requests, memory does not run out, the packetizer
  unpacks the node's packets, the last one with the end mark, and the cloud client takes the blocks.
  Then discovery leads to the start of the uplink, no packet causes a fault, and after
  acknowledgements of the cloud, at most one for each block and one more, the blocks handed over in
  the whole session are those of the bytes the node has sent; the node is unsubscribed, the session
  of the cloud finished, and the record of the node has no uplink any more.
\<close>

theorem session_delivers_uplink:
  fixes w :: "'a gw_world_scheme"
  assumes peer: "well_ordered cs e" "e < 0xFFFF" "inj (char_uuid U)" "distinct (map fst cs)"
      "\<forall>(u, v, d) \<in> set cs. d \<noteq> None \<longrightarrow> u \<in> range (char_uuid U)"
      "char_uuid U ATTR_UPLINK \<in> fst ` set cs" "char_uuid U ATTR_DOWNLINK \<in> fst ` set cs"
    and plain: "char_uuid U ATTR_SERVER_CERT \<notin> fst ` set cs"
    and host: "\<And>t g. ret E t (Gatt_discover c g) = 0" "\<And>t. ret E t Malloc \<noteq> 0"
    and client: "wf_env E" "cloud E" "\<And>t dl. ret E t (Uplink_start dl) \<noteq> 0" "\<And>s. accepts E s"
    and packets: "map (pk_decode E) packets = map (\<lambda>p. Inr (p, False)) ps @ [Inr (q, True)]" "concat ps @ q \<noteq> []"
  shows "\<exists>n s w'. session_run E U c h e cs packets n w = Inr w' \<and> n \<le> Suc (length (whole E (concat ps @ q)))
    \<and> up_sent s (length (trace w)) w' = whole E (concat ps @ q) \<and> node_uplink (nodes w' c) = NULL
    \<and> (\<exists>t prm. trace w' = t @ [Gatt_unsubscribe c prm, Uplink_finish s])"
proof -
  from discovery_handles [OF peer host(1)] obtain w1 where w1: "discovery E U c h e cs w = Inr w1"
    and at: "\<And>i. attr_value (attr_handles (nodes w1 c) i) = chrc_value cs (char_uuid U i)" by fastforce
  have "map_of cs (char_uuid U ATTR_SERVER_CERT) = None" using plain by (simp add: map_of_eq_None_iff)
  then have "value_handle w1 c ATTR_SERVER_CERT = 0" by (simp add: value_handle_def at chrc_value_def)
  then have start: "session_start E U c h e cs w = Inr (uplink_start E c w1)"
    by (simp add: session_start_def w1 discover_descriptors_def)
  from uplink_delivered [OF client host(2) packets, of c w1] obtain n s w' zs where
    w': "bnd (receive_all E c packets (uplink_start E c w1))
        (acks E (uplink_end_cb E) (the (node_uplink (nodes (uplink_start E c w1) c))) n) = Inr w'"
      "n \<le> Suc (length (whole E (concat ps @ q)))" "trace w' = trace w1 @ zs"
      "concat (map (block_of s) zs) = whole E (concat ps @ q)" "node_uplink (nodes w' c) = NULL"
      "\<exists>t prm. trace w' = t @ [Gatt_unsubscribe c prm, Uplink_finish s]" by blast
  from calls_blocks [OF discovery_calls [OF w1], of s] obtain xs where
    xs: "trace w1 = trace w @ xs" "concat (map (block_of s) xs) = []" by blast
  have "session_run E U c h e cs packets n w = Inr w'"
    unfolding session_run_def start using w'(1) by simp
  moreover have "up_sent s (length (trace w)) w' = whole E (concat ps @ q)"
    using w'(4) by (simp add: up_sent_def w'(3) xs)
  ultimately show ?thesis using w'(2,5,6) by blast
qed

text \<open>A peer whose uplink notifies, and two packets.\<close>

definition plain_peer :: "chrc list" where
  "plain_peer = [(3, 3, None), (5, 6, Some 7), (4, 9, None)]"

theorem session_delivers_uplink_witness:
  "\<exists>n s w'. session_run small_env small_uuids 0 1 20 plain_peer [[0, 1, 2, 3], [1, 4, 5]] n gw_boot = Inr w'
     \<and> up_sent s 0 w' = [(0, [1, 2, 3, 4], False), (1, [5], True)] \<and> node_uplink (nodes w' 0) = NULL"
proof -
  have uuids: "char_uuid small_uuids ATTR_UPLINK = 5" "char_uuid small_uuids ATTR_DOWNLINK = 4"
    "char_uuid small_uuids ATTR_SERVER_CERT = 6"
    by (simp_all add: small_uuids_def)
  have "well_ordered plain_peer 20" by (simp add: well_ordered_def in_order_def plain_peer_def)
  moreover have "inj (char_uuid small_uuids)" by (rule injI) (simp add: small_uuids_def split: gatt_attr.splits)
  moreover have "distinct (map fst plain_peer)" "char_uuid small_uuids ATTR_UPLINK \<in> fst ` set plain_peer"
    "char_uuid small_uuids ATTR_DOWNLINK \<in> fst ` set plain_peer" "char_uuid small_uuids ATTR_SERVER_CERT \<notin> fst ` set plain_peer"
    by (simp_all add: plain_peer_def uuids)
  moreover have "\<forall>(u, v, d) \<in> set plain_peer. d \<noteq> None \<longrightarrow> u \<in> range (char_uuid small_uuids)"
    using rangeI [of "char_uuid small_uuids"] by (auto simp: plain_peer_def simp flip: uuids)
  moreover have "map (pk_decode small_env) [[0, 1, 2, 3], [1, 4, 5]] = map (\<lambda>p. Inr (p, False)) [[1, 2, 3]] @ [Inr ([4, 5], True)]"
    by (simp add: small_env_def)
  moreover have "whole small_env (concat [[1, 2, 3]] @ [4, 5]) = [(0, [1, 2, 3, 4], False), (1, [5], True)]"
    by (simp add: whole_def chunks.simps stamped_def upt_rec)
  moreover have "trace gw_boot = []" by (simp add: gw_boot_def)
  ultimately show ?thesis
    using session_delivers_uplink [of plain_peer 20 small_uuids small_env 0 "[[0, 1, 2, 3], [1, 4, 5]]" "[[1, 2, 3]]" "[4, 5]" 1 gw_boot]
    by (auto simp: accepts_def)
qed

end
