(* ===== verification/Sample_App.thy ===== *)
theory Sample_App
  imports Gateway_App
begin

text \<open>
  \<open>samples/custom_connect/src/main.c\<close>: the application that starts the library itself, on the
  system work queue, and synchronises each node a second time.  It replaces the library's weak
  \<open>pouch_gateway_bt_finished\<close> by its own; the handlers of \<open>lib/bt/\<close> in the other theories report
  to the gateway's.  So the two entries of the library the sample itself calls, starting and stopping,
  are written out here with the sample's callback, and of the other handlers it is only used that
  they leave the sample's own state alone, append to the calls made, and report connections finished.
\<close>

subsection \<open>The callbacks of the connection\<close>

text \<open>
  \<open>sync_work\<close> is the state of the work item: scheduled, or not.  Scheduling an item that is
  scheduled already has no effect; the item leaves the queue when its handler is run.
\<close>

record sync_world = gw_world +
  sync_work :: bool
  sync_conn :: conn
  sync_counter :: int

definition work_schedule :: "'e env_scheme \<Rightarrow> nat \<Rightarrow> 'a sync_world_scheme \<Rightarrow> 'a sync_world_scheme" where
  "work_schedule E delay w = snd (ext_call E (Work_schedule delay) (w\<lparr>sync_work := True\<rparr>))"

definition sample_finished :: "'e env_scheme \<Rightarrow> conn \<Rightarrow> 'a sync_world_scheme \<Rightarrow> 'a sync_world_scheme" where
  "sample_finished E c w =
     (let w = w\<lparr>sync_counter := sync_counter w + 1\<rparr> in
      if sync_counter w > 1 then snd (ext_call E (Conn_disconnect c) w)
      else work_schedule E 5000 w)"

definition sample_connected :: "'e env_scheme \<Rightarrow> conn \<Rightarrow> byte \<Rightarrow> 'a sync_world_scheme \<Rightarrow> 'a sync_world_scheme" where
  "sample_connected E c err w =
     (if err \<noteq> 0 then custom_scan_start E (snd (ext_call E (Conn_unref c) w))
      else work_schedule E 0 (w\<lparr>sync_conn := c, sync_counter := 0\<rparr>))"

text \<open>Starting the library, as \<open>bt_start\<close>.\<close>

definition sample_start :: "'e env_scheme \<Rightarrow> uuids \<Rightarrow> conn \<Rightarrow> 'a sync_world_scheme \<Rightarrow> 'a sync_world_scheme" where
  "sample_start E U c w =
     (let w = set_node c (\<lambda>_. zero_node) w;
          prm = Discover_params Cb_discover_services Discover_primary 1 0xFFFF (Some (svc16 U));
          w = set_node c (params_update (\<lambda>_. prm)) w;
          (err, w) = ext_call E (Gatt_discover c prm) w in
      if err \<noteq> 0 then sample_finished E c w else w)"

definition sync_start_handler :: "'e env_scheme \<Rightarrow> uuids \<Rightarrow> 'a sync_world_scheme \<Rightarrow> 'a sync_world_scheme" where
  "sync_start_handler E U w = sample_start E U (sync_conn w) w"

text \<open>Stopping it, as \<open>bt_stop\<close>: closing the uplink may end it.\<close>

definition sample_end_cb :: "'e env_scheme \<Rightarrow> uplink_result \<Rightarrow> conn \<Rightarrow> 'a sync_world_scheme
    \<Rightarrow> fault + 'a sync_world_scheme" where
  "sample_end_cb E res c w =
     (let w = set_node c (node_uplink_update (\<lambda>_. NULL)) w;
          w = snd (ext_call E (Gatt_unsubscribe c (params (nodes w c))) w) in
      Inr (if res \<noteq> UPLINK_SUCCESS then sample_finished E c w else w))"

definition sample_stop :: "'e env_scheme \<Rightarrow> conn \<Rightarrow> 'a sync_world_scheme \<Rightarrow> fault + 'a sync_world_scheme" where
  "sample_stop E c w =
     bnd (if node_uplink (nodes w c) \<noteq> NULL then
            bnd (uplink_close E (sample_end_cb E) (node_uplink (nodes w c)) w) (\<lambda>w.
              Inr (set_node c (node_uplink_update (\<lambda>_. NULL)) w))
          else Inr w) (downlink_cleanup c)"

definition sample_disconnected :: "'e env_scheme \<Rightarrow> conn \<Rightarrow> 'a sync_world_scheme \<Rightarrow> fault + 'a sync_world_scheme" where
  "sample_disconnected E c w = bnd (sample_stop E c w) (\<lambda>w.
     Inr (custom_scan_start E (snd (ext_call E (Conn_unref c) w))))"

text \<open>
  What happens to the sample, with the number of starts of the library since the last connection.
  The queue runs the handler of a scheduled item; a handler of the library may report the
  connection finished, and changes anything but the sample's state.
\<close>

inductive sync_step :: "'e env_scheme \<Rightarrow> uuids \<Rightarrow> 'a sync_world_scheme \<times> nat \<Rightarrow> 'a sync_world_scheme \<times> nat \<Rightarrow> bool"
  for E U where
  sync_connected: "sync_step E U (w, n) (sample_connected E c err w, if err = 0 then 0 else n)"
| sync_disconnected: "sample_disconnected E c w = Inr w' \<Longrightarrow> sync_step E U (w, n) (w', n)"
| sync_started: "sync_work w \<Longrightarrow> sync_step E U (w, n) (sync_start_handler E U (w\<lparr>sync_work := False\<rparr>), Suc n)"
| sync_finished: "sync_step E U (w, n) (sample_finished E c w, n)"
| sync_library: "gw_world.more w' = gw_world.more w \<Longrightarrow> trace w' = trace w @ xs \<Longrightarrow> sync_step E U (w, n) (w', n)"

subsection \<open>What a step keeps\<close>

text \<open>
  A property of the sample's state that survives a report, and that the calls made only grow: both
  survive whatever the uplink library does when it is closed.
\<close>

definition survives :: "(bool \<Rightarrow> conn \<Rightarrow> int \<Rightarrow> bool) \<Rightarrow> bool" where
  "survives P \<longleftrightarrow> (\<forall>work c n. P work c n \<longrightarrow> P (work \<or> n \<le> 0) c (n + 1))"

definition sync_since :: "ext_call list \<Rightarrow> (bool \<Rightarrow> conn \<Rightarrow> int \<Rightarrow> bool) \<Rightarrow> 'a sync_world_scheme \<Rightarrow> bool" where
  "sync_since t P w \<longleftrightarrow> P (sync_work w) (sync_conn w) (sync_counter w) \<and> (\<exists>xs. trace w = t @ xs)"

lemma sync_fields [simp]:
  "sync_work (set_node c f w) = sync_work w" "sync_conn (set_node c f w) = sync_conn w"
  "sync_counter (set_node c f w) = sync_counter w"
  by (simp_all add: set_node_def)

lemma sync_since_more:
  "sync_since t P w \<Longrightarrow> trace w' = trace w @ xs \<Longrightarrow> sync_work w' = sync_work w \<Longrightarrow> sync_conn w' = sync_conn w
    \<Longrightarrow> sync_counter w' = sync_counter w \<Longrightarrow> sync_since t P w'"
  by (auto simp: sync_since_def)

lemma sample_finished_sync:
  "sync_work (sample_finished E c w) = (sync_work w \<or> sync_counter w \<le> 0)"
  "sync_conn (sample_finished E c w) = sync_conn w" "sync_counter (sample_finished E c w) = sync_counter w + 1"
  "trace (sample_finished E c w) = trace w @ [if sync_counter w \<le> 0 then Work_schedule 5000 else Conn_disconnect c]"
  by (auto simp: sample_finished_def work_schedule_def ext_call_def Let_def)

lemma sync_since_finished: "survives P \<Longrightarrow> sync_since t P w \<Longrightarrow> sync_since t P (sample_finished E c w)"
  by (auto simp: sync_since_def sample_finished_sync survives_def)

lemma sync_since_end:
  assumes "survives P" and "sync_since t P w"
  shows "kept (sync_since t P) (\<lambda>w. w) (sample_end_cb E r c w)"
proof -
  let ?w = "set_node c (node_uplink_update (\<lambda>_. NULL)) w"
  have "sync_since t P (snd (ext_call E (Gatt_unsubscribe c q) ?w))" for q
    by (rule sync_since_more [OF assms(2), where xs = "[Gatt_unsubscribe c q]"]) simp_all
  then show ?thesis by (simp add: sample_end_cb_def Let_def kept_def sync_since_finished [OF assms(1)])
qed

lemma sync_uplink:
  assumes "survives P"
  shows "uplink_at E (sync_since t P) p (\<lambda>_. True) (\<lambda>_. True) (sample_end_cb E)"
  by unfold_locales
    (rule TrueI | rule sync_since_end [OF assms], assumption
      | (auto simp: sync_since_def put_uplink_def malloc_def ext_call_def Let_def; fail)[1])+

lemma sample_disconnected_since:
  assumes "survives P" and "sync_since t P w" and "sample_disconnected E c w = Inr w'"
  shows "\<exists>w1. sync_since t P w1 \<and> w' = w1\<lparr>trace := trace w1 @ [Conn_unref c, Scan_start]\<rparr>"
proof -
  from assms(3) obtain w1 where stop: "sample_stop E c w = Inr w1" and w': "w' = w1\<lparr>trace := trace w1 @ [Conn_unref c, Scan_start]\<rparr>"
    by (auto simp: sample_disconnected_def scan_start_def ext_call_def elim!: bnd_InrE)
  have clear: "sync_since t P (set_node c f v)" if "sync_since t P v" for f v
    by (rule sync_since_more [OF that, where xs = "[]"]) simp_all
  from stop obtain w2 where w2: "sync_since t P w2" "downlink_cleanup c w2 = Inr w1"
    using assms(2) clear keptD [OF uplink_at.up_close [OF sync_uplink [OF assms(1)] assms(2)]]
    by (fastforce simp: sample_stop_def elim!: bnd_InrE split: if_splits)
  from w2 have "sync_since t P w1"
    by (auto simp: downlink_cleanup_def free_scratch_def sync_since_def elim!: bnd_InrE split: if_splits)
  with w' show ?thesis by blast
qed

lemma sync_start_since:
  assumes "survives P" and "sync_since t P w"
  shows "sync_since t P (sync_start_handler E U w)"
proof -
  have "sync_since t P (snd (ext_call E (Gatt_discover c q) (set_node c f (set_node c g w))))" for c q f g
    by (rule sync_since_more [OF assms(2), where xs = "[Gatt_discover c q]"]) simp_all
  then show ?thesis
    unfolding sync_start_handler_def sample_start_def Let_def by (simp add: case_prod_unfold sync_since_finished [OF assms(1)])
qed

subsection \<open>At most two runs\<close>

text \<open>\<open>n\<close> starts so far, and one more if the item is scheduled.\<close>

definition few :: "nat \<Rightarrow> bool \<Rightarrow> conn \<Rightarrow> int \<Rightarrow> bool" where
  "few n work c k \<longleftrightarrow> 0 \<le> k \<and> n + (if work then 1 else 0) \<le> (if k = 0 then 1 else 2)"

abbreviation sync_ok :: "'a sync_world_scheme \<Rightarrow> nat \<Rightarrow> bool" where
  "sync_ok w n \<equiv> few n (sync_work w) (sync_conn w) (sync_counter w)"

lemma few_survives: "survives (few n)"
  by (auto simp: survives_def few_def split: if_splits)

lemma sync_step_trace:
  assumes "sync_step E U (w, n) (w', n')" and "sync_ok w n"
  shows "sync_since (trace w) (few n') w'"
  using assms(1)
proof cases
  case (sync_connected c err)
  with assms(2) show ?thesis
    by (auto simp: sync_since_def few_def sample_connected_def work_schedule_def custom_scan_start_def scan_start_def ext_call_def)
next
  case (sync_disconnected c)
  have "sync_since (trace w) (few n) w" using assms(2) by (simp add: sync_since_def)
  from sample_disconnected_since [OF few_survives this sync_disconnected(2)] sync_disconnected(1) show ?thesis
    by (auto simp: sync_since_def)
next
  case sync_started
  have "sync_since (trace w) (few n') (w\<lparr>sync_work := False\<rparr>)"
    using assms(2) sync_started by (auto simp: sync_since_def few_def split: if_splits)
  with sync_started(1) show ?thesis using sync_start_since [OF few_survives] by simp
next
  case (sync_finished c)
  have "sync_since (trace w) (few n) w" using assms(2) by (simp add: sync_since_def)
  with sync_finished show ?thesis by (simp add: sync_since_finished few_survives)
next
  case (sync_library xs)
  with assms(2) show ?thesis by (cases w; cases w') (simp add: sync_since_def)
qed

subsection \<open>The main thread\<close>

text \<open>
  The main program is repeated from the gateway, without the HL7800 modem and with the sample's own
  scan.
\<close>

definition sample_on_client_event :: "client_event \<Rightarrow> ('w, 's) app_scheme \<Rightarrow> ('w, 's) app_scheme" where
  "sample_on_client_event ev s =
     (let is_connected = (ev = CLIENT_EVENT_CONNECTED) in
      if is_connected then s\<lparr>connected := sem_give (connected s)\<rparr> else s)"

definition sample_connect_golioth_client :: "'e env_scheme \<Rightarrow> app_cfg
    \<Rightarrow> ('a ext_world_scheme, 's) app_scheme \<Rightarrow> ('a ext_world_scheme, 's) app_scheme" where
  "sample_connect_golioth_client E C s = (case credentials C (trace (gw s)) of
     None \<Rightarrow> s
   | Some (psk_id_len, psk_len) \<Rightarrow>
       if psk_id_len = 0 \<or> psk_len = 0 then s
       else let (r, w) = ext_call E Client_create (gw s);
                s = s\<lparr>gw := w, client := r \<noteq> 0\<rparr> in
         app_call E (Client_register (client s)) s)"

definition sample_lte_handler :: "'e env_scheme \<Rightarrow> app_cfg \<Rightarrow> lte_evt
    \<Rightarrow> ('a ext_world_scheme, 's) app_scheme \<Rightarrow> ('a ext_world_scheme, 's) app_scheme" where
  "sample_lte_handler E C ev s = (case ev of
     EVT_NW_REG_STATUS st \<Rightarrow>
       if st = REGISTERED_HOME \<or> st = REGISTERED_ROAMING then
         if \<not> client s then sample_connect_golioth_client E C s else s
       else s
   | EVT_OTHER \<Rightarrow> s)"

definition sample_connect_to_cloud :: "'e env_scheme \<Rightarrow> app_cfg
    \<Rightarrow> ('a ext_world_scheme, 's) app_scheme \<Rightarrow> ('a ext_world_scheme, 's) app_scheme" where
  "sample_connect_to_cloud E C s =
     (if \<not> cloud E then s\<lparr>main_at := At_startup\<rparr>
      else if nrf_modem C then (app_call E Lte_connect s)\<lparr>main_at := At_connected\<rparr>
      else let s = (if ethernet_dhcp C then app_call E Dhcp_start s else s) in
        (sample_connect_golioth_client E C s)\<lparr>main_at := At_connected\<rparr>)"

definition sample_main_step :: "'e env_scheme \<Rightarrow> ('a cert_world_scheme, 's) app_scheme
    \<Rightarrow> (fault + ('a cert_world_scheme, 's) app_scheme) option" where
  "sample_main_step E s = (case main_at s of
     At_connected \<Rightarrow> map_option (\<lambda>n. Inr (s\<lparr>connected := n, main_at := At_startup\<rparr>)) (sem_take (connected s))
   | At_startup \<Rightarrow> Some (bnd (cert_module_on_connected E (gw s)) (\<lambda>w.
       let (err, w) = ext_call E Bt_enable w in
       if err \<noteq> 0 then Inr (s\<lparr>gw := w, main_at := Returned err\<rparr>)
       else Inr (s\<lparr>gw := custom_scan_start E w, main_at := (if cloud E then At_event else Returned 0)\<rparr>)))
   | At_event \<Rightarrow> map_option (\<lambda>n. Inr (s\<lparr>connected := n, main_at := At_refresh\<rparr>)) (sem_take (connected s))
   | At_refresh \<Rightarrow> Some (bnd (cert_module_on_connected E (gw s)) (\<lambda>w. Inr (s\<lparr>gw := w, main_at := At_event\<rparr>)))
   | _ \<Rightarrow> None)"

text \<open>The copies agree with the originals, on everything a gateway without that modem reaches.\<close>

lemma sample_connect_copy: "sample_connect_golioth_client = connect_golioth_client"
  by (intro ext) (simp add: sample_connect_golioth_client_def connect_golioth_client_def)

lemma sample_copies:
  "sample_on_client_event ev s = on_client_event ev s"
  "sample_lte_handler E C ev' s' = lte_handler E C ev' s'"
  "sample_connect_to_cloud E C s' = connect_to_cloud E (C\<lparr>modem_hl7800 := False\<rparr>) s'"
  by (simp_all add: sample_on_client_event_def on_client_event_def sample_connect_copy sample_lte_handler_def
      lte_handler_def sample_connect_to_cloud_def connect_to_cloud_def connect_golioth_client_def Let_def
      split: lte_evt.split)

lemma sample_main_copy: "main_at s \<noteq> At_network \<Longrightarrow> sample_main_step E s = main_step E C s"
  unfolding sample_main_step_def custom_scan_start_eq
  by (cases "main_at s") (simp_all add: main_step_def startup_def)

text \<open>
  The main thread of the sample is that of a gateway built without the HL7800 modem: it starts
  in the same way, and from every state such a gateway can reach it takes the same steps.
\<close>

theorem sample_main_is_gateway_main:
  assumes "app_reach E U A (C\<lparr>modem_hl7800 := False\<rparr>) s b"
  shows "sample_connect_to_cloud E C s' = connect_to_cloud E (C\<lparr>modem_hl7800 := False\<rparr>) s'
    \<and> sample_main_step E s = main_step E (C\<lparr>modem_hl7800 := False\<rparr>) s"
proof -
  have "main_at s \<noteq> At_network"
    using assms
  proof induction
    case (reach_main s)
    then show ?case by (simp add: connect_to_cloud_def)
  next
    case (reach_step s b s' b')
    from reach_step(2,3) show ?case
      by cases (auto simp: main_step_def startup_def on_client_event_def lte_handler_def net_mgmt_cb_def ext_call_def Let_def
          connect_main_at
          split: main_at.splits lte_evt.split net_event.split if_splits elim!: bnd_InrE)
  qed
  from sample_copies(3) sample_main_copy [OF this] show ?thesis by blast
qed

text \<open>The sample fetches the certificate again when the client reconnects.\<close>

theorem sample_main_is_gateway_main_witness:
  "\<exists>s'. sample_main_step small_env (small_busy\<lparr>connected := 1\<rparr>) = Some (Inr s') \<and> main_at s' = At_refresh"
proof -
  have cfg: "small_cfg = small_cfg\<lparr>modem_hl7800 := False\<rparr>" by (simp add: small_cfg_def)
  have at: "main_at (small_busy\<lparr>connected := 1\<rparr>) = At_event"
    using small_up_step(2) by (simp add: small_busy_def)
  have reach: "app_reach small_env small_uuids upper_adv (small_cfg\<lparr>modem_hl7800 := False\<rparr>) (small_busy\<lparr>connected := 1\<rparr>) True"
    using small_event_reach [of upper_adv] cfg by simp
  have "main_step small_env small_cfg (small_busy\<lparr>connected := 1\<rparr>)
      = Some (Inr (small_busy\<lparr>connected := 0, main_at := At_refresh\<rparr>))"
    using at by (simp add: main_step_def sem_take_def)
  with sample_main_is_gateway_main [OF reach, of small_boot] show ?thesis by (auto simp: cfg [symmetric])
qed

subsection \<open>The whole sample\<close>

text \<open>As \<open>app_reach\<close>, with the number of starts since the last connection.\<close>

inductive sample_reach :: "'e env_scheme \<Rightarrow> uuids \<Rightarrow> app_cfg \<Rightarrow> ('a sync_world_scheme, 's) app_scheme \<Rightarrow> bool \<Rightarrow> nat \<Rightarrow> bool"
  for E U C where
  sample_boot: "app_boot E s \<Longrightarrow> sync_counter (gw s) = 0 \<Longrightarrow> \<not> sync_work (gw s)
    \<Longrightarrow> sample_reach E U C (sample_connect_to_cloud E C s) False 0"
| sample_main: "sample_reach E U C s b n \<Longrightarrow> sample_main_step E s = Some (Inr s')
    \<Longrightarrow> sample_reach E U C s' (b \<and> \<not> refreshing s) n"
| sample_client: "sample_reach E U C s b n \<Longrightarrow> Client_register True \<in> set (trace (gw s))
    \<Longrightarrow> sample_reach E U C (sample_on_client_event ev s) (b \<or> ev = CLIENT_EVENT_CONNECTED) n"
| sample_lte: "sample_reach E U C s b n \<Longrightarrow> Lte_connect \<in> set (trace (gw s))
    \<Longrightarrow> sample_reach E U C (sample_lte_handler E C ev s) b n"
| sample_radio: "sample_reach E U C s b n \<Longrightarrow> bt_up s \<Longrightarrow> sync_step E U (gw s, n) (w', n')
    \<Longrightarrow> sample_reach E U C (s\<lparr>gw := w'\<rparr>) b n'"

lemma refresh_sync:
  assumes "cert_module_on_connected E w = Inr w'" and "sync_ok w n"
  shows "sync_ok w' n"
proof -
  have "cert_world.more w' = cert_world.more w"
    using assms(1) by (auto simp: cert_module_on_connected_def server_crt_update_def ext_call_def Let_def
        elim!: bnd_InrE split: if_splits option.splits)
  with assms(2) show ?thesis by (cases w; cases w') simp
qed

lemma connect_sync: "sync_ok (gw (connect_golioth_client E C s)) n \<longleftrightarrow> sync_ok (gw s) n"
  by (cases E C s rule: connect_golioth_client_cases) simp_all

lemma sample_reach_ok:
  assumes "sample_reach E U C s b n"
  shows "sync_ok (gw s) n \<and> main_at s \<noteq> At_network \<and> (cloud E \<longrightarrow> app_ok E s b)"
  using assms
proof induction
  case (sample_boot s)
  then have "sync_ok (gw s) 0" by (simp add: few_def)
  with sample_boot app_ok_boot [of E s "C\<lparr>modem_hl7800 := False\<rparr>"] show ?case unfolding sample_copies
    by (auto simp: connect_to_cloud_def connect_sync) (simp_all add: app_call_def)
next
  case (sample_main s b n s')
  then have "main_step E C s = Some (Inr s')" using sample_main_copy by metis
  moreover have "sync_ok w n" if "cert_module_on_connected E (gw s) = Inr w" for w
    using refresh_sync [OF that] sample_main by blast
  ultimately show ?case using sample_main app_ok_main [of E C s s' b]
    by (auto simp: main_step_def startup_def connect_sync ext_call_def scan_start_def Let_def
        split: main_at.splits if_splits elim!: bnd_InrE)
next
  case (sample_client s b n ev)
  then show ?case using app_ok_step [where E = E, OF step_client [where s = s and ev = ev and b = b]] unfolding sample_copies
    by (auto simp: on_client_event_def)
next
  case (sample_lte s b n ev)
  then show ?case using app_ok_step [where E = E, OF step_lte [where s = s and ev = ev and b = b and C = C]] unfolding sample_copies
    by (auto simp: lte_handler_def connect_sync connect_main_at split: lte_evt.split)
next
  case (sample_radio s b n w' n')
  from sync_step_trace [OF sample_radio(3)] sample_radio(4) obtain xs where
    w': "sync_ok w' n'" "trace w' = trace (gw s) @ xs" by (auto simp: sync_since_def)
  have "cloud E \<Longrightarrow> app_ok E (s\<lparr>gw := w'\<rparr>) b"
    by (rule app_ok_late [of E s b _ xs]) (use sample_radio w' in \<open>auto simp: app_ok_def bt_up_def refreshing_def failed_def\<close>)
  with w' sample_radio show ?case by simp
qed

subsection \<open>The properties\<close>

text \<open>
  C26: the sample synchronises a node at most twice per connection.  However often the library
  reports the connection finished, whenever the work queue gets to the item, and with connections
  that fail, break and follow each other: since the last connection the library has been started at most
  twice, and once if a start is scheduled; and after the second start every report drops the
  connection instead of scheduling another.
\<close>

theorem sample_syncs_at_most_twice:
  assumes "sample_reach E U C s b n"
  shows "n \<le> 2 \<and> (sync_work (gw s) \<longrightarrow> n \<le> 1)
    \<and> (n = 2 \<longrightarrow> trace (sample_finished E c (gw s)) = trace (gw s) @ [Conn_disconnect c]
        \<and> \<not> sync_work (sample_finished E c (gw s)))"
proof -
  from sample_reach_ok [OF assms] have "sync_ok (gw s) n" by blast
  then show ?thesis by (auto simp: few_def sample_finished_sync split: if_splits)
qed

text \<open>
  C27: the sample as an application.  With the cloud configured, nothing but the network and the client
  is called until the client has connected, and then the certificate is fetched before Bluetooth is
  enabled; and a connection of the client reported since main last began to fetch the certificate
  makes it fetch the certificate next, unless Bluetooth could not be enabled.
\<close>

theorem sample_waits_and_serves:
  assumes "sample_reach E U C s b n" and "cloud E"
  shows "(if main_at s = At_connected \<or> main_at s = At_startup then \<forall>x \<in> set (trace (gw s)). network_call x
      else \<exists>p q r. trace (gw s) = p @ Server_cert_get # q @ Bt_enable # r
        \<and> (\<forall>x \<in> set p. network_call x) \<and> Client_register True \<in> set p)
    \<and> (b \<longrightarrow> main_at s = At_startup \<or> main_at s = At_refresh
        \<or> (\<exists>s'. sample_main_step E s = Some (Inr s') \<and> gw s' = gw s \<and> (main_at s' = At_startup \<or> main_at s' = At_refresh))
        \<or> (\<exists>err. err \<noteq> 0 \<and> main_at s = Returned err))"
proof
  from sample_reach_ok [OF assms(1)] assms(2) have ok: "app_ok E s b" "main_at s \<noteq> At_network" by auto
  from ok have phases: "if early s then \<forall>x \<in> set (trace (gw s)). network_call x else in_phases E (failed s) (trace (gw s))"
    unfolding app_ok_def by blast
  show "if main_at s = At_connected \<or> main_at s = At_startup then \<forall>x \<in> set (trace (gw s)). network_call x
      else \<exists>p q r. trace (gw s) = p @ Server_cert_get # q @ Bt_enable # r
        \<and> (\<forall>x \<in> set p. network_call x) \<and> Client_register True \<in> set p"
  proof (cases "early s")
    case True
    with phases ok(2) show ?thesis by (auto simp: early_def)
  next
    case False
    with phases obtain p q r where "trace (gw s) = p @ Server_cert_get # q @ Bt_enable # r"
      "\<forall>x \<in> set p. network_call x" "Client_register True \<in> set p" by (auto simp: in_phases_def)
    with False show ?thesis by (auto simp: early_def)
  qed
  show "b \<longrightarrow> main_at s = At_startup \<or> main_at s = At_refresh
        \<or> (\<exists>s'. sample_main_step E s = Some (Inr s') \<and> gw s' = gw s \<and> (main_at s' = At_startup \<or> main_at s' = At_refresh))
        \<or> (\<exists>err. err \<noteq> 0 \<and> main_at s = Returned err)"
    using ok by (cases "main_at s") (auto simp: app_ok_def refreshing_def failed_def sample_main_step_def sem_take_def)
qed

text \<open>
  C28: the sample starts the library on a connection it has given back.  When the first run of a
  connection is reported finished, the second is scheduled in five seconds; if the node disconnects
  in that time, the item stays scheduled, and its handler asks for the discovery of the connection
  whose reference was dropped.
\<close>

theorem restart_outlives_connection:
  assumes "sync_counter w = 0" and "sync_conn w = c" and "sample_disconnected E c (sample_finished E c w) = Inr w1"
  shows "sync_work w1 \<and> (\<exists>xs. trace w1 = trace w @ Work_schedule 5000 # xs @ [Conn_unref c, Scan_start])
    \<and> (\<exists>q ys. trace (sync_start_handler E U (w1\<lparr>sync_work := False\<rparr>)) = trace w1 @ Gatt_discover c q # ys)"
proof -
  let ?P = "\<lambda>work c' (n::int). work \<and> c' = c"
  have "survives ?P" by (auto simp: survives_def)
  moreover have "sync_since (trace w @ [Work_schedule 5000]) ?P (sample_finished E c w)"
    using assms(1,2) by (simp add: sync_since_def sample_finished_sync)
  ultimately obtain w2 where w2: "sync_since (trace w @ [Work_schedule 5000]) ?P w2"
    "w1 = w2\<lparr>trace := trace w2 @ [Conn_unref c, Scan_start]\<rparr>"
    using sample_disconnected_since [OF _ _ assms(3)] by blast
  let ?q = "Discover_params Cb_discover_services Discover_primary 1 0xFFFF (Some (svc16 U))"
  have "\<exists>ys. trace (sync_start_handler E U (w1\<lparr>sync_work := False\<rparr>)) = trace w1 @ Gatt_discover c ?q # ys"
    using w2 by (simp add: sync_since_def sync_start_handler_def sample_start_def ext_call_def sample_finished_sync Let_def)
  with w2 show ?thesis by (auto simp: sync_since_def)
qed

text \<open>
  The sample synchronises exactly twice per connection.  The first time the library reports
  the connection finished, a second run is scheduled after five seconds; every further report
  drops the connection.  The second run starts from a cleared record: the scratch buffer of
  the first one is still allocated, but nothing points to it any more.
\<close>

theorem sample_synchronises_twice:
  assumes "downlink_scratch (nodes w c) = Some b" and "scratches w b = Some n" and "sync_counter w = 0" and "sync_conn w = c"
  shows "trace (sample_finished E c w) = trace w @ [Work_schedule 5000]
    \<and> (let w2 = sync_start_handler E U (sample_finished E c w) in
        scratches w2 b = Some n \<and> downlink_scratch (nodes w2 c) = NULL
        \<and> trace (sample_finished E c w2) = trace w2 @ [Conn_disconnect c])"
  using assms
  by (simp add: sample_finished_def sync_start_handler_def sample_start_def ext_call_def work_schedule_def
      zero_node_def set_node_def Let_def)

definition sync_boot :: sync_world where
  "sync_boot = \<lparr>trace = [], next_addr = 1, slab = Map.empty, slab_used = 0, downlinks = Map.empty,
     uplinks = Map.empty, pblocks_live = 0, server_crt_buf = [], server_crt_len = 0,
     server_crt_serial = [], server_crt_serial_len = 0, server_crt_id = 0, device_ctxs = Map.empty,
     server_ctxs = Map.empty, nodes = (\<lambda>_. zero_node\<lparr>downlink_scratch := Some 0\<rparr>),
     packetizers = Map.empty, scratches = [0 \<mapsto> 20], sync_work = False, sync_conn = 0, sync_counter = 0\<rparr>"

theorem sample_synchronises_twice_witness:
  "trace (sample_finished small_env 0 sync_boot) = [Work_schedule 5000]"
  using sample_synchronises_twice [of sync_boot 0 0 20 small_env] by (simp add: sync_boot_def)

theorem restart_outlives_connection_witness:
  "\<exists>w1 xs. sample_disconnected small_env 0 (sample_finished small_env 0 sync_boot) = Inr w1
    \<and> sync_work w1 \<and> trace w1 = Work_schedule 5000 # xs @ [Conn_unref 0, Scan_start]"
proof -
  obtain w1 where "sample_disconnected small_env 0 (sample_finished small_env 0 sync_boot) = Inr w1"
    by (simp add: sample_disconnected_def sample_stop_def downlink_cleanup_def free_scratch_def sample_finished_def
        work_schedule_def sync_boot_def zero_node_def)
  with restart_outlives_connection [OF _ _ this] show ?thesis by (auto simp: sync_boot_def)
qed

text \<open>The sample in \<open>small_env\<close>, with the cloud and without.\<close>

definition sample_zero :: "sync_world app" where
  "sample_zero = \<lparr>gw = sync_boot\<lparr>next_addr := 0, server_crt_buf := replicate 8 0, server_crt_serial := replicate 20 0,
     nodes := (\<lambda>_. zero_node), scratches := Map.empty\<rparr>, connected = 0, network_connected = 0, client = False, main_at = At_connected\<rparr>"

lemma sample_zero_boot: "server_cert_max E = 8 \<Longrightarrow> app_boot E sample_zero" "sync_counter (gw sample_zero) = 0" "\<not> sync_work (gw sample_zero)"
  by (simp_all add: app_boot_def sample_zero_def booted_def sync_boot_def)

theorem sample_waits_and_serves_witness:
  "\<exists>(s :: sync_world app) s'. sample_reach small_env small_uuids small_cfg s True 0 \<and> sample_main_step small_env s = Some (Inr s')
    \<and> main_at s' = At_startup \<and> (\<forall>x \<in> set (trace (gw s)). network_call x)"
proof -
  let ?s = "sample_connect_to_cloud small_env small_cfg sample_zero"
  have s: "main_at ?s = At_connected" "trace (gw ?s) = [Dhcp_start, Client_create, Client_register True]"
    by (simp_all add: sample_connect_to_cloud_def sample_connect_golioth_client_def small_cfg_def app_call_def sample_zero_def
        sync_boot_def ext_call_def Let_def)
  have "sample_reach small_env small_uuids small_cfg ?s False 0"
    by (rule sample_boot) (simp_all add: sample_zero_boot)
  from sample_client [OF this, where ev = CLIENT_EVENT_CONNECTED] s(2)
  have reach: "sample_reach small_env small_uuids small_cfg (sample_on_client_event CLIENT_EVENT_CONNECTED ?s) True 0" by simp
  obtain s1 :: "sync_world app" where s1: "sample_reach small_env small_uuids small_cfg s1 True 0" "main_at s1 = At_connected"
    by (rule that [OF reach]) (simp add: s(1) sample_on_client_event_def)
  from s1(2) have "sample_main_step small_env s1 = Some (Inr s') \<Longrightarrow> main_at s' \<noteq> At_refresh" for s'
    by (auto simp: sample_main_step_def)
  with sample_waits_and_serves [OF s1(1)] s1 show ?thesis by - (rule exI [of _ s1], auto)
qed

definition local_env :: env where
  "local_env = small_env\<lparr>cloud := False\<rparr>"

lemma local_env_simps [simp]:
  "\<not> cloud local_env" "builtin_cert local_env = None" "ret local_env t Bt_enable = 0" "server_cert_max local_env = 8"
  "ret local_env t (Gatt_discover c g) = 0"
  by (simp_all add: local_env_def small_env_def)

theorem sample_syncs_at_most_twice_witness:
  "\<exists>s :: sync_world app. sample_reach local_env small_uuids small_cfg s False 2
    \<and> trace (sample_finished local_env 0 (gw s)) = trace (gw s) @ [Conn_disconnect 0]"
proof -
  let ?U = small_uuids and ?C = small_cfg
  have "sample_reach local_env ?U ?C (sample_connect_to_cloud local_env ?C sample_zero) False 0"
    by (rule sample_boot) (simp_all add: sample_zero_boot)
  moreover obtain s :: "sync_world app" where step: "sample_main_step local_env (sample_connect_to_cloud local_env ?C sample_zero) = Some (Inr s)"
    and at: "main_at s = Returned 0" "trace (gw s) = [Bt_enable, Scan_start]"
    by (simp add: sample_connect_to_cloud_def sample_main_step_def cert_module_on_connected_def ext_call_def sample_zero_def
        sync_boot_def scan_start_def)
  ultimately have "sample_reach local_env ?U ?C s False 0" using sample_main [OF _ step] by fastforce
  moreover have "bt_up s" using at(1) by (simp add: bt_up_def)
  ultimately have up: "sample_reach local_env ?U ?C s False 0" "bt_up s" .
  from sample_radio [OF up sync_connected [of _ ?U _ _ 0 0]] up(2) obtain s :: "sync_world app" where
    s: "sample_reach local_env ?U ?C s False 0" "bt_up s" "sync_work (gw s)" "sync_counter (gw s) = 0"
    by (fastforce simp: sample_connected_def work_schedule_def ext_call_def bt_up_def)
  have run: "\<exists>s' :: sync_world app. sample_reach local_env ?U ?C s' False (Suc n) \<and> bt_up s' \<and> \<not> sync_work (gw s') \<and> sync_counter (gw s') = sync_counter (gw s)"
    if "sample_reach local_env ?U ?C s False n" "bt_up s" "sync_work (gw s)" for s :: "sync_world app" and n
    using sample_radio [OF that(1,2) sync_started [OF that(3)]] that(2)
    by (fastforce simp: sync_start_handler_def sample_start_def ext_call_def bt_up_def Let_def)
  from run [OF s(1-3)] s(4) obtain s :: "sync_world app" where s: "sample_reach local_env ?U ?C s False 1" "bt_up s" "sync_counter (gw s) = 0" by auto
  from sample_radio [OF s(1,2) sync_finished [of _ ?U _ _ 0]] s(2,3) obtain s :: "sync_world app" where
    s: "sample_reach local_env ?U ?C s False 1" "bt_up s" "sync_work (gw s)"
    by (fastforce simp: sample_finished_sync bt_up_def)
  from run [OF s] obtain s :: "sync_world app" where "sample_reach local_env ?U ?C s False 2" by (auto simp: numeral_2_eq_2)
  with sample_syncs_at_most_twice [OF this] show ?thesis by blast
qed

end
