(* ===== verification/Exchange.thy ===== *)
theory Exchange
  imports Session
begin

text \<open>
  The certificate exchange of a node, with nothing else going on: the node's serial number, the server
  certificate if the node does not have it, and the device certificate, up to the start of the uplink.
  Whatever it allocates it gives back.
\<close>

subsection \<open>The exchange\<close>

text \<open>The node answers the writes, as long as there are any, and then the reads of its certificate.\<close>

primrec respond :: "'e env_scheme \<Rightarrow> conn \<Rightarrow> byte list \<Rightarrow> 'a gw_world_scheme \<Rightarrow> fault + 'a gw_world_scheme" where
  "respond E c [] w = Inr w"
| "respond E c (err # errs) w = (if packetizer (nodes w c) = NULL then Inr w
     else bnd (server_cert_write_response_cb E c err w) (respond E c errs))"

primrec read_device :: "'e env_scheme \<Rightarrow> conn \<Rightarrow> bytes list \<Rightarrow> 'a gw_world_scheme \<Rightarrow> fault + 'a gw_world_scheme" where
  "read_device E c [] w = Inr w"
| "read_device E c (p # ps) w = bnd (device_cert_read_cb E c 0 p w) (read_device E c ps)"

definition exchange :: "'e env_scheme \<Rightarrow> conn \<Rightarrow> bytes \<Rightarrow> byte list \<Rightarrow> bytes list \<Rightarrow> 'a gw_world_scheme
    \<Rightarrow> fault + 'a gw_world_scheme" where
  "exchange E c serial errs device w = bnd (discover_descriptors E c None w) (\<lambda>(_, w).
     bnd (server_cert_read_cb E c 0 serial w) (\<lambda>w.
     bnd (respond E c errs w) (read_device E c device)))"

subsection \<open>What is allocated\<close>

definition tables :: "'a gw_world_scheme \<Rightarrow> _" where
  "tables w = (server_ctxs w, device_ctxs w, packetizers w, scratches w)"

definition fresh_tables :: "'a gw_world_scheme \<Rightarrow> bool" where
  "fresh_tables w \<longleftrightarrow> fresh_above (server_ctxs w) (next_addr w) \<and> fresh_above (device_ctxs w) (next_addr w)
     \<and> fresh_above (packetizers w) (next_addr w) \<and> fresh_above (scratches w) (next_addr w)"

definition restored :: "'a gw_world_scheme \<Rightarrow> 'a gw_world_scheme \<Rightarrow> bool" where
  "restored w0 w \<longleftrightarrow> streams w = streams w0 \<and> tables w = tables w0 \<and> next_addr w0 \<le> next_addr w"

text \<open>
  Besides what there was in \<open>w0\<close>: the context \<open>a\<close>, the packetizer \<open>p\<close> and the buffer \<open>b\<close> of the
  server certificate, resp. the context of the device certificate.
\<close>

definition cert_open :: "conn \<Rightarrow> addr \<Rightarrow> addr \<Rightarrow> addr \<Rightarrow> 'a gw_world_scheme \<Rightarrow> 'a gw_world_scheme \<Rightarrow> bool" where
  "cert_open c a p b w0 w \<longleftrightarrow> restored w0 (w\<lparr>server_ctxs := (server_ctxs w)(a := None),
     packetizers := (packetizers w)(p := None), scratches := (scratches w)(b := None)\<rparr>) \<and> server_cert_scratch (nodes w c) = Some b"

definition device_open :: "conn \<Rightarrow> 'a gw_world_scheme \<Rightarrow> 'a gw_world_scheme \<Rightarrow> bool" where
  "device_open c w0 w \<longleftrightarrow> (\<exists>q. device_cert_ctx (nodes w c) = Some q \<and> restored w0 (w\<lparr>device_ctxs := (device_ctxs w)(q := None)\<rparr>))"

lemma fresh_none: "fresh_above f n \<Longrightarrow> n \<le> a \<Longrightarrow> f a = None"
  by (auto simp: fresh_above_def not_le [symmetric])

lemma cert_open_kept: "cert_open c a p b w0 w \<Longrightarrow> beside_cert c a w w' \<Longrightarrow> cert_open c a p b w0 w'"
  by (auto simp: cert_open_def restored_def beside_cert_def streams_def tables_def)

lemma restored_trans: "restored w0 w1 \<Longrightarrow> restored w1 w2 \<Longrightarrow> restored w0 w2"
  by (simp add: restored_def)

lemma restored_fresh: "restored w0 w \<Longrightarrow> fresh_tables w0 \<Longrightarrow> fresh_tables w"
  by (auto simp: restored_def fresh_tables_def tables_def intro: fresh_above_mono)

lemma cert_open_trans: "restored w0 w1 \<Longrightarrow> cert_open c a p b w1 w \<Longrightarrow> cert_open c a p b w0 w"
  by (auto simp: cert_open_def intro: restored_trans)

lemma device_begun_open:
  assumes "fresh_tables w0" and "restored w0 w" and "device_begun c w w'"
  shows "device_open c w0 w'"
proof -
  from assms(1,2) have "device_ctxs w0 (next_addr w) = None"
    by (auto simp: fresh_tables_def restored_def intro: fresh_none)
  with assms(2,3) show ?thesis
    by (auto simp: device_open_def device_begun_def restored_def streams_def tables_def)
qed

subsection \<open>The server certificate is written\<close>

text \<open>Writes to nodes are allowed here; blocks and device certificates are not sent.\<close>

definition exchanging :: "ext_call \<Rightarrow> bool" where
  "exchanging x \<longleftrightarrow> quiet x \<or> (\<exists>c g. x = Gatt_write c g)"

lemma exchanging_simps [simp]:
  "exchanging (Gatt_write c g)" "exchanging (Gatt_read c g)" "exchanging Malloc" "exchanging (Packetizer_finish p)"
  "exchanging (Packetizer_start p)"
  by (simp_all add: exchanging_def)

lemma respond_done: "packetizer (nodes w c) = NULL \<Longrightarrow> respond E c errs w = Inr w"
  by (cases errs) auto

lemma respond_all:
  assumes link: "good_link E c m" "faithful E" "reads_accepted E c"
    and fresh: "fresh_tables w0"
  shows "wired_cert c a p m w \<Longrightarrow> server_ctxs w a = Some x \<Longrightarrow> sc_id x = server_crt_id w
    \<Longrightarrow> cert_ready a w \<or> cert_left a w = [] \<and> server_crt_len w \<le> sc_offset x
    \<Longrightarrow> length (cert_left a w) < length errs \<Longrightarrow> cert_open c a p b w0 w
    \<Longrightarrow> \<exists>w'. respond E c errs w = Inr w' \<and> device_reading E c w' \<and> attr_handles (nodes w' c) = attr_handles (nodes w c)
      \<and> written_to E c (trace w') = written_to E c (trace w) @ cert_left a w \<and> calls_since exchanging (trace w) w'
      \<and> device_open c w0 w'"
proof (induction errs arbitrary: w x)
  case (Cons err errs)
  note pre = Cons.prems
  have live: "packetizer (nodes w c) \<noteq> NULL" using pre(1) by (auto simp: wired_cert_def)
  show ?case
  proof (cases "cert_ready a w")
    case False
    with pre(4) have fin: "cert_left a w = []" "server_crt_len w \<le> sc_offset x" by auto
    from cert_response_last [OF pre(1-3) fin(2) link(3), of err] obtain w' where
      w': "server_cert_write_response_cb E c err w = Inr w'" "device_reading E c w'"
        "attr_handles (nodes w' c) = attr_handles (nodes w c)"
        "trace w' = trace w @ [Packetizer_finish (Some p), Malloc,
          Gatt_read c (Read_params Cb_device_cert_read (value_handle w c ATTR_DEVICE_CERT))]"
        "\<exists>b. server_cert_scratch (nodes w c) = Some b
          \<and> device_begun c (w\<lparr>server_ctxs := (server_ctxs w)(a := None), packetizers := (packetizers w)(p := None),
              scratches := (scratches w)(b := None)\<rparr>) w'" by blast
    have "device_open c w0 w'" using w'(5) pre(6) by (auto simp: cert_open_def intro: device_begun_open [OF fresh])
    moreover have "respond E c errs w' = Inr w'" using w'(2) by (intro respond_done) (simp add: device_reading_def)
    moreover have "written_to E c (trace w') = written_to E c (trace w)" by (simp add: w'(4)) (simp add: written_to_def)
    moreover have "calls_since exchanging (trace w) w'" by (rule calls_more [OF calls_refl w'(4)]) simp
    ultimately show ?thesis using w' live fin(1) by auto
  next
    case True
    from write_cert_ready [OF True pre(1) link(1,2) pre(2)] obtain w1 bs l y g where
      s: "write_server_cert_characteristic E c w = Inr (0, w1)" "wired_cert c a p m w1"
        "written_to E c (trace w1) = written_to E c (trace w) @ bs" "bs @ cert_left a w1 = cert_left a w" "bs \<noteq> []"
        "server_ctxs w1 a = Some y" "sc_id y = sc_id x" "server_crt_id w1 = server_crt_id w"
        "server_crt_len w1 = server_crt_len w" "attr_handles (nodes w1 c) = attr_handles (nodes w c)"
        "if l then cert_left a w1 = [] \<and> sc_offset y = server_crt_len w else cert_ready a w1"
        "trace w1 = trace w @ [Gatt_write c g]" "beside_cert c a w w1" by blast
    have run: "respond E c (err # errs) w = respond E c errs w1"
      using live cert_response_next [OF True pre(1), of E err] s(1) by auto
    have short: "length (cert_left a w1) < length errs"
      using pre(5) s(5) arg_cong [OF s(4), of length] by (cases bs) auto
    have "cert_ready a w1 \<or> cert_left a w1 = [] \<and> server_crt_len w1 \<le> sc_offset y"
      using s(9,11) by (cases l) auto
    from Cons.IH [OF s(2,6) _ this short cert_open_kept [OF pre(6) s(13)]] s(7,8) pre(3) obtain w' where
      w': "respond E c errs w1 = Inr w'" "device_reading E c w'" "attr_handles (nodes w' c) = attr_handles (nodes w1 c)"
        "written_to E c (trace w') = written_to E c (trace w1) @ cert_left a w1" "calls_since exchanging (trace w1) w'"
      "device_open c w0 w'" by auto
    have "calls_since exchanging (trace w) w1" by (rule calls_more [OF calls_refl s(12)]) simp
    from calls_trans [OF this w'(5)] w'(1-4,6) s(3,4,10) run show ?thesis by auto
  qed
qed simp

lemma write_start_prepares:
  fixes w :: "'a gw_world_scheme"
  assumes link: "good_link E c m" "reads_accepted E c" "\<And>t q. ret E t (Packetizer_start q) \<noteq> 0"
    and "value_handle w c ATTR_SERVER_CERT \<noteq> 0" and len: "0 < server_crt_len w" "server_crt_len w \<le> length (server_crt_buf w)"
    and fresh: "fresh_tables w"
  shows "\<exists>(w0 :: 'a gw_world_scheme) a p x. server_cert_write_start E c w
      = bnd (write_server_cert_characteristic E c w0) (\<lambda>(_, w). Inr w)
    \<and> cert_ready a w0 \<and> wired_cert c a p m w0 \<and> server_ctxs w0 a = Some x \<and> sc_id x = server_crt_id w0
    \<and> cert_left a w0 = crt w \<and> attr_handles (nodes w0 c) = attr_handles (nodes w c)
    \<and> trace w0 = trace w @ [Malloc, Malloc, Packetizer_start (Some a)] \<and> (\<exists>b. cert_open c a p b w w0)"
proof -
  let ?b = "next_addr w" and ?a = "Suc (next_addr w)" and ?p = "Suc (Suc (next_addr w))"
  let ?x = "\<lparr>sc_id = server_crt_id w, sc_offset = 0\<rparr>"
  define w1 where "w1 = set_node c (server_cert_scratch_update (\<lambda>_. Some ?b))
    (w\<lparr>trace := trace w @ [Malloc], next_addr := ?a, scratches := (scratches w)(?b \<mapsto> m - BT_ATT_OVERHEAD)\<rparr>)"
  define w2 where "w2 = set_node c (server_cert_ctx_update (\<lambda>_. Some ?a))
    (w1\<lparr>trace := trace w1 @ [Malloc], next_addr := ?p, server_ctxs := (server_ctxs w1)(?a \<mapsto> ?x)\<rparr>)"
  define w0 where "w0 = set_node c (packetizer_update (\<lambda>_. Some ?p))
    (w2\<lparr>trace := trace w2 @ [Packetizer_start (Some ?a)], next_addr := Suc ?p,
      packetizers := (packetizers w2)(?p \<mapsto> (Fill_server_cert, Some ?a))\<rparr>)"
  have m: "mtu E t c = m" "\<not> m < BT_ATT_OVERHEAD" for t using link(1) by (auto simp: good_link_def)
  have mem: "ret E t Malloc \<noteq> 0" for t using link(2) by (simp add: reads_accepted_def)
  have start: "server_cert_start E w1 = Inr (Some ?a, w1\<lparr>trace := trace w1 @ [Malloc], next_addr := ?p,
      server_ctxs := (server_ctxs w1)(?a \<mapsto> ?x)\<rparr>)"
    using mem by (simp add: server_cert_start_def malloc_def ext_call_def w1_def)
  have "gatt_mtu_malloc E c w = (Some ?b, w\<lparr>trace := trace w @ [Malloc], next_addr := ?a,
      scratches := (scratches w)(?b \<mapsto> m - BT_ATT_OVERHEAD)\<rparr>)"
    using m mem by (simp add: gatt_mtu_malloc_def malloc_def ext_call_def)
  moreover have "packetizer_start E Fill_server_cert (Some ?a) w2 = (Some ?p,
      w2\<lparr>trace := trace w2 @ [Packetizer_start (Some ?a)], next_addr := Suc ?p,
        packetizers := (packetizers w2)(?p \<mapsto> (Fill_server_cert, Some ?a))\<rparr>)"
    using link(3) by (simp add: packetizer_start_def ext_call_def w2_def)
  ultimately have "server_cert_write_start E c w = bnd (write_server_cert_characteristic E c w0) (\<lambda>(_, w). Inr w)"
    using assms(4) start by (simp add: server_cert_write_start_def Let_def w1_def [symmetric] w2_def [symmetric] w0_def [symmetric])
  moreover have "cert_open c ?a ?p ?b w w0"
    using fresh by (auto simp: cert_open_def restored_def streams_def tables_def fresh_tables_def fresh_none w0_def w2_def w1_def
        set_node_def fun_eq_iff)
  moreover have "cert_ready ?a w0" "cert_left ?a w0 = crt w" "wired_cert c ?a ?p m w0" "server_ctxs w0 ?a = Some ?x"
    "attr_handles (nodes w0 c) = attr_handles (nodes w c)" "trace w0 = trace w @ [Malloc, Malloc, Packetizer_start (Some ?a)]"
    "sc_id ?x = server_crt_id w0"
    using len by (simp_all add: w0_def w2_def w1_def cert_ready_def cert_left_def crt_def wired_cert_def set_node_def)
  ultimately show ?thesis by blast
qed

lemma certificate_written:
  assumes link: "good_link E c m" "faithful E" "reads_accepted E c" "\<And>t q. ret E t (Packetizer_start q) \<noteq> 0"
    and cert: "value_handle w c ATTR_SERVER_CERT \<noteq> 0" "0 < server_crt_len w" "server_crt_len w \<le> length (server_crt_buf w)"
    and errs: "server_crt_len w < length errs" and fresh: "fresh_tables v" "restored v w"
  shows "\<exists>w'. bnd (server_cert_write_start E c w) (respond E c errs) = Inr w' \<and> device_reading E c w' \<and> device_open c v w'
    \<and> attr_handles (nodes w' c) = attr_handles (nodes w c)
    \<and> written_to E c (trace w') = written_to E c (trace w) @ crt w \<and> calls_since exchanging (trace w) w'"
proof -
  from write_start_prepares [OF link(1,3,4) cert restored_fresh [OF fresh(2,1)]] obtain w0 a p x b where
    w0: "server_cert_write_start E c w = bnd (write_server_cert_characteristic E c w0) (\<lambda>(_, w). Inr w)"
      "cert_ready a w0" "wired_cert c a p m w0" "server_ctxs w0 a = Some x" "sc_id x = server_crt_id w0"
      "cert_left a w0 = crt w" "attr_handles (nodes w0 c) = attr_handles (nodes w c)"
      "trace w0 = trace w @ [Malloc, Malloc, Packetizer_start (Some a)]" "cert_open c a p b w w0" by blast
  from write_cert_ready [OF w0(2,3) link(1,2) w0(4)] obtain w1 bs l y g where
    s: "write_server_cert_characteristic E c w0 = Inr (0, w1)" "wired_cert c a p m w1"
      "written_to E c (trace w1) = written_to E c (trace w0) @ bs" "bs @ cert_left a w1 = cert_left a w0" "bs \<noteq> []"
      "server_ctxs w1 a = Some y" "sc_id y = sc_id x" "server_crt_id w1 = server_crt_id w0"
      "server_crt_len w1 = server_crt_len w0" "attr_handles (nodes w1 c) = attr_handles (nodes w0 c)"
      "if l then cert_left a w1 = [] \<and> sc_offset y = server_crt_len w0 else cert_ready a w1"
      "trace w1 = trace w0 @ [Gatt_write c g]" "beside_cert c a w0 w1" by blast
  have "cert_ready a w1 \<or> cert_left a w1 = [] \<and> server_crt_len w1 \<le> sc_offset y" using s(9,11) by (cases l) auto
  moreover have "length (cert_left a w1) < length errs"
    using arg_cong [OF s(4), of length] w0(6) cert(3) errs by (simp add: crt_def)
  ultimately obtain w' where w': "respond E c errs w1 = Inr w'" "device_reading E c w'"
    "attr_handles (nodes w' c) = attr_handles (nodes w1 c)"
    "written_to E c (trace w') = written_to E c (trace w1) @ cert_left a w1" "calls_since exchanging (trace w1) w'"
    "device_open c v w'"
    using respond_all [OF link(1-3) fresh(1) s(2,6) _ _ _ cert_open_kept [OF cert_open_trans [OF fresh(2) w0(9)] s(13)]] s(7,8) w0(5)
    by metis
  have "calls_since exchanging (trace w) w1"
    by (rule calls_more [OF calls_refl, where xs = "[Malloc, Malloc, Packetizer_start (Some a), Gatt_write c g]"])
      (simp_all add: s(12) w0(8))
  moreover have "written_to E c (trace w0) = written_to E c (trace w)" by (simp add: w0(8)) (simp add: written_to_def)
  moreover have "bnd (server_cert_write_start E c w) (respond E c errs) = Inr w'"
    unfolding w0(1) s(1) using w'(1) by simp
  moreover have "written_to E c (trace w') = written_to E c (trace w0) @ crt w"
    unfolding w'(4) s(3) append_assoc s(4) w0(6) ..
  moreover have "attr_handles (nodes w' c) = attr_handles (nodes w c)" unfolding w'(3) s(10) w0(7) ..
  ultimately show ?thesis using w'(2,5,6) calls_trans by metis
qed

subsection \<open>The device certificate is read\<close>

lemma push_keeps:
  assumes "device_cert_push E (Some a) bs w = Inr (rc, w')"
  shows "nodes w' = nodes w" and "restored w0 (w'\<lparr>device_ctxs := (device_ctxs w')(a := None)\<rparr>)
    = restored w0 (w\<lparr>device_ctxs := (device_ctxs w)(a := None)\<rparr>)"
  using assms by (auto simp: device_cert_push_def deref_eq_Inr restored_def streams_def tables_def elim!: bnd_InrE split: if_splits)

lemma device_cert_handed:
  assumes reads: "reads_accepted E c" and max: "device_cert_max E < 2 ^ 32" and "cloud E"
    and ok: "\<And>t crt. ret E t (Device_cert_set crt) = 0"
  shows "device_cert_ctx (nodes w c) = Some a \<Longrightarrow> collected E a bs w
    \<Longrightarrow> restored w0 (w\<lparr>device_ctxs := (device_ctxs w)(a := None)\<rparr>)
    \<Longrightarrow> map (pk_decode E) packets = map (\<lambda>p. Inr (p, False)) ds @ [Inr (d, True)] \<Longrightarrow> [] \<notin> set packets
    \<Longrightarrow> length bs + length (concat ds @ d) \<le> device_cert_max E
    \<Longrightarrow> \<exists>w' xs. read_device E c packets w = Inr (uplink_start E c w') \<and> restored w0 w' \<and> nodes w' = nodes w
      \<and> trace w' = trace w @ xs @ [Device_cert_set (bs @ concat ds @ d)] \<and> (\<forall>x \<in> set xs. \<exists>g. x = Gatt_read c g)"
proof (induction ds arbitrary: bs packets w)
  case Nil
  from Nil(4) obtain packet where p: "packets = [packet]" "pk_decode E packet = Inr (d, True)" by (cases packets) simp_all
  with Nil(5) have nonempty: "packet \<noteq> []" by (cases packet) simp_all
  from push_run [OF Nil(2), of d] Nil(6) max obtain w1 where
    w1: "device_cert_push E (Some a) d w = Inr (0, w1)" "collected E a (bs @ d) w1" "trace w1 = trace w" by auto
  note keeps = push_keeps [OF w1(1)]
  with Nil(1) have ctx: "device_cert_ctx (nodes w1 c) = Some a" by simp
  from w1(2) Nil(6) obtain k where k: "device_ctxs w1 a = Some k" "peek (dc_buf k) 0 (dc_len k) = Inr (bs @ d)"
    by (auto simp: collected_def peek_def)
  let ?w = "w1\<lparr>trace := trace w1 @ [Device_cert_set (bs @ d)], device_ctxs := (device_ctxs w1)(a := None)\<rparr>"
  have "device_cert_finish E (Some a) w1 = Inr (0, ?w)"
    using k ok assms(3) by (simp add: device_cert_finish_def device_cert_abort_def ext_call_def Let_def)
  with p nonempty w1 Nil(1) ctx have "read_device E c packets w = Inr (uplink_start E c ?w)"
    by (simp add: device_cert_read_cb_def)
  moreover have "restored w0 (w1\<lparr>device_ctxs := (device_ctxs w1)(a := None)\<rparr>)" using Nil(3) keeps(2) by blast
  then have "restored w0 ?w" by (simp add: restored_def streams_def tables_def)
  ultimately show ?case using keeps(1) w1(3) by (intro exI [of _ ?w] exI [of _ "[]"]) simp
next
  case (Cons e ds)
  from Cons.prems(4) obtain packet rest where packets: "packets = packet # rest" and
    decode: "pk_decode E packet = Inr (e, False)" "map (pk_decode E) rest = map (\<lambda>p. Inr (p, False)) ds @ [Inr (d, True)]"
    by (cases packets) simp_all
  have p: "packets = packet # rest" "pk_decode E packet = Inr (e, False)" "packet \<noteq> []"
    "map (pk_decode E) rest = map (\<lambda>p. Inr (p, False)) ds @ [Inr (d, True)]" "[] \<notin> set rest"
    using packets decode Cons.prems(5) by (cases packet; simp)+
  from push_run [OF Cons.prems(2), of e] Cons.prems(6) max obtain w1 where
    w1: "device_cert_push E (Some a) e w = Inr (0, w1)" "collected E a (bs @ e) w1" "trace w1 = trace w" by auto
  note keeps = push_keeps [OF w1(1)]
  let ?q = "params (nodes w1 c)"
  let ?w = "w1\<lparr>trace := trace w1 @ [Gatt_read c ?q]\<rparr>"
  have step: "device_cert_read_cb E c 0 packet w = Inr ?w"
    using p(2,3) w1(1) Cons.prems(1) reads by (simp add: device_cert_read_cb_def ext_call_def reads_accepted_def)
  have restored: "restored w0 (w1\<lparr>device_ctxs := (device_ctxs w1)(a := None)\<rparr>)" using Cons.prems(3) keeps(2) by blast
  have "device_cert_ctx (nodes ?w c) = Some a" "collected E a (bs @ e) ?w"
    "restored w0 (?w\<lparr>device_ctxs := (device_ctxs ?w)(a := None)\<rparr>)"
    using keeps(1) Cons.prems(1) w1(2) restored by (simp_all add: collected_def restored_def streams_def tables_def)
  from Cons.IH [OF this p(4,5)] Cons.prems(6) obtain w' xs where
    "read_device E c rest ?w = Inr (uplink_start E c w')" "restored w0 w'" "nodes w' = nodes ?w" "\<forall>x \<in> set xs. \<exists>g. x = Gatt_read c g"
    "trace w' = trace ?w @ xs @ [Device_cert_set ((bs @ e) @ concat ds @ d)]" by auto
  with step p(1) w1(3) keeps(1) show ?case
    by (intro exI [of _ w'] exI [of _ "Gatt_read c ?q # xs"]) simp
qed

subsection \<open>Both certificates\<close>

text \<open>The node knows the server certificate if it has answered with its serial number.\<close>

definition knows :: "bytes \<Rightarrow> 'a cert_world_scheme \<Rightarrow> bool" where
  "knows sn w \<longleftrightarrow> sn \<noteq> [] \<and> sn = take (server_crt_serial_len w) (server_crt_serial w)"

definition same_cert :: "'a cert_world_scheme \<Rightarrow> 'a cert_world_scheme \<Rightarrow> bool" where
  "same_cert v w \<longleftrightarrow> server_crt_buf w = server_crt_buf v \<and> server_crt_len w = server_crt_len v
     \<and> server_crt_serial w = server_crt_serial v \<and> server_crt_serial_len w = server_crt_serial_len v"

lemma discovery_cert:
  assumes "discovery E U c h e cs w = Inr w'"
  shows "same_cert w w'" and "packetizer (nodes w' c) = NULL"
proof -
  show "same_cert w w'"
    by (rule discovery_keeps [OF assms]) (simp_all add: same_cert_def discover_def ext_call_def bt_finished_def Let_def)
  show "packetizer (nodes w' c) = NULL"
    by (rule discovery_keeps [OF assms]) (simp_all add: discover_def ext_call_def bt_finished_def Let_def zero_node_def)
qed

lemma exchange_certificates:
  fixes w :: "'a gw_world_scheme"
  assumes link: "good_link E c m" "faithful E" "reads_accepted E c" "\<And>t q. ret E t (Packetizer_start q) \<noteq> 0"
    and node: "value_handle w c ATTR_SERVER_CERT \<noteq> 0" "value_handle w c ATTR_DEVICE_CERT \<noteq> 0" "packetizer (nodes w c) = NULL"
    and cert: "0 < server_crt_len w" "server_crt_len w \<le> length (server_crt_buf w)"
      "length (server_crt_serial w) = CERT_SERIAL_MAXLEN" "server_crt_serial_len w \<le> CERT_SERIAL_MAXLEN"
    and serial: "pk_decode E serial = Inr (sn, True)" "serial \<noteq> []" and errs: "server_crt_len w < length errs"
    and device: "map (pk_decode E) device = map (\<lambda>p. Inr (p, False)) ds @ [Inr (d, True)]" "[] \<notin> set device"
      "length (concat ds @ d) \<le> device_cert_max E" "device_cert_max E < 2 ^ 32"
    and cloud: "cloud E" "\<And>t crt. ret E t (Device_cert_set crt) = 0" and fresh: "fresh_tables w"
  shows "\<exists>w' xs. exchange E c serial errs device w = Inr (uplink_start E c w')
    \<and> trace w' = trace w @ xs @ [Device_cert_set (concat ds @ d)] \<and> list_all exchanging xs
    \<and> written_to E c xs = (if knows sn w then [] else crt w) \<and> restored w w'
    \<and> attr_handles (nodes w' c) = attr_handles (nodes w c)"
proof -
  let ?g = "Read_params Cb_server_cert_read (value_handle w c ATTR_SERVER_CERT)"
  define w1 where "w1 = set_node c (params_update (\<lambda>_. ?g)) w\<lparr>trace := trace w @ [Gatt_read c ?g]\<rparr>"
  have start: "discover_descriptors E c None w = Inr (ITER_STOP, w1)"
    using node link(3)
    by (simp add: discover_descriptors_def cert_exchange_start_def server_cert_serial_read_start_def ext_call_def
        reads_accepted_def w1_def Let_def)
  have w1: "same_cert w w1" "value_handle w1 c ATTR_SERVER_CERT \<noteq> 0" "packetizer (nodes w1 c) = NULL"
    "trace w1 = trace w @ [Gatt_read c ?g]" "restored w w1" "attr_handles (nodes w1 c) = attr_handles (nodes w c)"
    using node by (simp_all add: w1_def same_cert_def value_handle_def restored_def streams_def tables_def)
  have cert1: "0 < server_crt_len w1" "server_crt_len w1 \<le> length (server_crt_buf w1)" "server_crt_len w1 < length errs"
    "length (server_crt_serial w1) = CERT_SERIAL_MAXLEN" "server_crt_serial_len w1 \<le> CERT_SERIAL_MAXLEN"
    "crt w1 = crt w" "knows sn w1 = knows sn w"
    using w1(1) cert errs by (simp_all add: same_cert_def crt_def knows_def)
  have decides: "server_cert_read_cb E c 0 serial w1
      = (if knows sn w then device_cert_read_start E c w1 else server_cert_write_start E c w1)"
    using serial_decides [OF serial cert1(4,5)] cert1(7) by (simp add: knows_def)
  have "\<exists>w2. bnd (server_cert_read_cb E c 0 serial w1) (respond E c errs) = Inr w2 \<and> device_reading E c w2
    \<and> written_to E c (trace w2) = written_to E c (trace w) @ (if knows sn w then [] else crt w)
    \<and> calls_since exchanging (trace w) w2 \<and> device_open c w w2 \<and> attr_handles (nodes w2 c) = attr_handles (nodes w c)"
  proof (cases "knows sn w")
    case True
    from device_read_start_run [OF link(3) w1(3)] obtain w2 where
      w2: "device_cert_read_start E c w1 = Inr w2" "device_reading E c w2" "device_begun c w1 w2"
        "attr_handles (nodes w2 c) = attr_handles (nodes w1 c)"
        "trace w2 = trace w1 @ [Malloc, Gatt_read c (Read_params Cb_device_cert_read (value_handle w1 c ATTR_DEVICE_CERT))]" by blast
    have "respond E c errs w2 = Inr w2" using w2(2) by (intro respond_done) (simp add: device_reading_def)
    moreover have "written_to E c (trace w2) = written_to E c (trace w)" by (simp add: w2(5) w1(4)) (simp add: written_to_def)
    moreover have "calls_since exchanging (trace w) w2" by (simp add: calls_since_def w2(5) w1(4))
    moreover have "device_open c w w2" by (rule device_begun_open [OF fresh w1(5) w2(3)])
    ultimately show ?thesis using w2(1,2,4) w1(6) True by (simp add: decides)
  next
    case False
    from certificate_written [OF link w1(2) cert1(1-3) fresh w1(5)] obtain w2 where
      w2: "bnd (server_cert_write_start E c w1) (respond E c errs) = Inr w2" "device_reading E c w2"
        "written_to E c (trace w2) = written_to E c (trace w1) @ crt w1" "calls_since exchanging (trace w1) w2"
        "device_open c w w2" "attr_handles (nodes w2 c) = attr_handles (nodes w1 c)" by blast
    have "written_to E c (trace w1) = written_to E c (trace w)" by (simp add: w1(4)) (simp add: written_to_def)
    moreover have "calls_since exchanging (trace w) w1" by (rule calls_more [OF calls_refl w1(4)]) simp
    ultimately show ?thesis using w2 w1(6) False cert1(6) calls_trans by (auto simp: decides)
  qed
  then obtain w2 xs where w2: "bnd (server_cert_read_cb E c 0 serial w1) (respond E c errs) = Inr w2" "device_reading E c w2"
    "trace w2 = trace w @ xs" "written_to E c xs = (if knows sn w then [] else crt w)" "list_all exchanging xs"
      "device_open c w w2" "attr_handles (nodes w2 c) = attr_handles (nodes w c)"
    by (auto simp: calls_since_def)
  from w2(2,6) obtain a where a: "device_cert_ctx (nodes w2 c) = Some a" "collected E a [] w2"
    "restored w (w2\<lparr>device_ctxs := (device_ctxs w2)(a := None)\<rparr>)"
    by (auto simp: device_reading_def device_open_def)
  from device_cert_handed [OF link(3) device(4) cloud a device(1,2)] device(3) obtain w' ys where
    w': "read_device E c device w2 = Inr (uplink_start E c w')" "trace w' = trace w2 @ ys @ [Device_cert_set (concat ds @ d)]"
      "\<forall>x \<in> set ys. \<exists>g. x = Gatt_read c g" "restored w w'" "nodes w' = nodes w2" by auto
  have "exchange E c serial errs device w = bnd (bnd (server_cert_read_cb E c 0 serial w1) (respond E c errs)) (read_device E c device)"
    by (cases "server_cert_read_cb E c 0 serial w1") (simp_all add: exchange_def start)
  then have "exchange E c serial errs device w = Inr (uplink_start E c w')" by (simp add: w2(1) w'(1))
  moreover have "written_to E c ys = []" "list_all exchanging ys"
    using w'(3) by (auto simp: written_to_def list_all_iff)
  ultimately show ?thesis using w2(3-5,7) w'(2,4,5) by (intro exI [of _ w'] exI [of _ "xs @ ys"]) simp
qed

lemma exchanging_blocks: "list_all exchanging xs \<Longrightarrow> concat (map (block_of s) xs) = []"
proof -
  have "block_of s x = []" if "exchanging x" for x
    using that quiet_blocks [of x s] by (auto simp: exchanging_def) (simp add: block_of_def)
  then show "list_all exchanging xs \<Longrightarrow> concat (map (block_of s) xs) = []" by (simp add: list_all_iff)
qed

lemma exchanging_cert [simp]: "\<not> exchanging (Device_cert_set bs)"
  by (simp add: exchanging_def)

end
