(* ===== verification/Download.thy ===== *)
theory Download
  imports Bt_Downlink_Props
begin

text \<open>
  The download of a node while its blocks arrive: blocks from the cloud and responses of the node in
  any order, as long as the two handlers do not overlap (\<open>Wakeup\<close> is about what happens if they do).
\<close>

subsection \<open>The state of a download\<close>

text \<open>
  \<open>going E c a p m lf w\<close>: the context \<open>a\<close> of the connection \<open>c\<close> is in use, and either a write to
  the node is outstanding or there is nothing left to write; \<open>lf\<close> says whether the last block is in.
\<close>

definition going :: "'e env_scheme \<Rightarrow> conn \<Rightarrow> addr \<Rightarrow> addr \<Rightarrow> nat \<Rightarrow> bool \<Rightarrow> 'a gw_world_scheme \<Rightarrow> bool" where
  "going E c a p m lf w \<longleftrightarrow> max_block_size E < 2 ^ 31 \<and> dl_inv E w \<and> wired c a p m w
     \<and> (case downlinks w a of None \<Rightarrow> False | Some d \<Rightarrow> cb_arg d = c \<and> \<not> aborted d
          \<and> (if complete d then lf \<and> \<not> client_waiting d \<and> segs w d = []
             else marked lf (segs w d) \<and> (client_waiting d \<longrightarrow> segs w d = [])))"

definition waiting :: "addr \<Rightarrow> 'a downlink_world_scheme \<Rightarrow> bool" where
  "waiting a w \<longleftrightarrow> (case downlinks w a of None \<Rightarrow> False | Some d \<Rightarrow> client_waiting d)"

lemma goingE:
  assumes "going E c a p m lf w"
  obtains d where "downlinks w a = Some d" "cb_arg d = c" "\<not> aborted d" "dl_inv E w" "wired c a p m w" "max_block_size E < 2 ^ 31"
    "complete d \<Longrightarrow> lf \<and> \<not> client_waiting d \<and> segs w d = []"
    "\<not> complete d \<Longrightarrow> dl_open E a lf w \<and> (client_waiting d \<longrightarrow> segs w d = [])"
  using assms by (auto simp: going_def dl_open_def split: option.splits if_splits)

lemma going_open: "going E c a p m False w \<Longrightarrow> downlinks w a = Some d \<Longrightarrow> \<not> complete d"
  by (auto simp: going_def split: if_splits)

lemma going_not_waiting: "going E c a p m True w \<Longrightarrow> \<not> waiting a w"
  by (auto simp: going_def waiting_def split: option.splits if_splits)

text \<open>What a step of the download leaves alone.\<close>

definition download_frame :: "addr \<Rightarrow> conn \<Rightarrow> 'a gw_world_scheme \<Rightarrow> 'a gw_world_scheme \<Rightarrow> bool" where
  "download_frame a c w w' \<longleftrightarrow> (downlinks w')(a := None) = (downlinks w)(a := None) \<and> orphans w' = orphans w
     \<and> beside_dl w' = beside_dl w \<and> (\<exists>q. nodes w' = (nodes w)(c := (nodes w c)\<lparr>params := q\<rparr>))
     \<and> (\<exists>cs. trace w' = trace w @ cs \<and> (\<forall>x \<in> set cs. \<exists>g. x = Gatt_write c g))"

lemma frame_refl: "download_frame a c w w"
  using same_node [of "nodes w" c] by (simp add: download_frame_def)

lemma frame_trans: "download_frame a c w w1 \<Longrightarrow> download_frame a c w1 w2 \<Longrightarrow> download_frame a c w w2"
  by (auto simp: download_frame_def)

lemma written_frame: "dl_written E c a p m lf d w bs d' w' \<Longrightarrow> download_frame a c w w'"
  by (auto simp: dl_written_def download_frame_def split: if_splits)

text \<open>A write keeps the download going.\<close>

lemma written_going:
  assumes "dl_written E c a p m lf d w bs d' w'" and "cb_arg d = c" and "\<not> client_waiting d" and "max_block_size E < 2 ^ 31"
  shows "going E c a p m lf w'" and "waiting a w' \<longleftrightarrow> bs = [] \<and> \<not> complete d'"
    and "written_to E c (trace w') @ dl_left a w' = written_to E c (trace w) @ dl_left a w"
    and "waiting a w' \<longleftrightarrow> trace w' = trace w"
  using assms by (auto simp: dl_written_def going_def waiting_def dl_open_def split: if_splits)

subsection \<open>A block arrives\<close>

lemma beside_more: "downlink_world.more w' = downlink_world.more w \<Longrightarrow> beside_dl w' = beside_dl w"
  using more_gw [of w' w] by (simp add: beside_dl_def)

lemma block_arrives:
  assumes go: "going E c a p m False w" and link: "good_link E c m" "faithful E" "idle_packet E"
    and room: "slab_used w < num_blocks E" and fits: "length src \<le> max_block_size E" and data: "src = [] \<Longrightarrow> lst"
  shows "\<exists>w'. downlink_block_cb E (downlink_data_available E) src lst (Some a) w = Inr (GOLIOTH_OK, w')
    \<and> going E c a p m lst w' \<and> \<not> waiting a w' \<and> download_frame a c w w'
    \<and> written_to E c (trace w') @ dl_left a w' = written_to E c (trace w) @ dl_left a w @ src"
proof -
  obtain d where d: "downlinks w a = Some d" "cb_arg d = c" "\<not> aborted d" "dl_inv E w" "wired c a p m w" "max_block_size E < 2 ^ 31"
    "\<not> complete d \<Longrightarrow> dl_open E a False w \<and> (client_waiting d \<longrightarrow> segs w d = [])" by (rule goingE [OF go]) (rule that)
  note nc = going_open [OF go d(1)]
  from block_cb_push [OF d(4,1,3) room fits, of "downlink_data_available E" lst] obtain w1 d1 where
    run: "downlink_block_cb E (downlink_data_available E) src lst (Some a) w =
      (if current_block d = NULL \<and> client_waiting d
       then bnd (downlink_data_available E (cb_arg d) w1) (\<lambda>w. Inr (GOLIOTH_OK, w)) else Inr (GOLIOTH_OK, w1))" and
    w1: "downlinks w1 = (downlinks w)(a \<mapsto> d1)" "segs w1 d1 = segs w d @ [(src, lst)]"
      "client_waiting d1 = (client_waiting d \<and> current_block d \<noteq> NULL)" "complete d1 = complete d" "\<not> aborted d1"
      "cb_arg d1 = cb_arg d" "dl_inv E w1" "orphans w1 = orphans w" "trace w1 = trace w"
      "downlink_world.more w1 = downlink_world.more w" by blast
  have open1: "dl_open E a lst w1"
    using d(7) nc w1 marked_snoc [of "segs w d" lst src] d(1) by (simp add: dl_open_def)
  have wired1: "wired c a p m w1" using d(5) by (simp add: wired_def more_gw [OF w1(10)])
  have frame1: "download_frame a c w w1"
    using w1(1,8,9) beside_more [OF w1(10)] same_node [of "nodes w" c] by (simp add: download_frame_def more_gw [OF w1(10)])
  have left1: "dl_left a w1 = dl_left a w @ src" using w1(1,2) d(1) by (simp add: dl_left_def pending_def)
  show ?thesis
  proof (cases "client_waiting d")
    case False
    then have "downlink_block_cb E (downlink_data_available E) src lst (Some a) w = Inr (GOLIOTH_OK, w1)" using run by simp
    moreover have "going E c a p m lst w1"
      using open1 wired1 w1(1,3) d(2,6) False w1(6) by (simp add: going_def dl_open_def)
    ultimately show ?thesis using frame1 left1 w1(1,3,9) False by (auto simp: waiting_def)
  next
    case True
    with d(7) nc have "segs w d = []" by simp
    then have cur: "current_block d = NULL" by (rule segs_Nil_current)
    with w1(3) have quiet: "\<not> client_waiting d1" by simp
    have "downlinks w1 a = Some d1" using w1(1) by simp
    from write_open [OF open1 wired1 link(1,2) _ this] link(3) obtain w2 bs d2 where
      w2: "write_downlink_characteristic E c w1 = Inr (if bs = [] \<and> \<not> complete d2 then - ENODATA else 0, w2)"
        "dl_written E c a p m lst d1 w1 bs d2 w2" by blast
    have some: "\<not> (bs = [] \<and> \<not> complete d2)"
    proof
      assume none: "bs = [] \<and> \<not> complete d2"
      with w2(2) have "\<not> lst" "dl_left a w1 = []" by (auto simp: dl_written_def dl_left_def pending_def)
      with left1 data show False by simp
    qed
    note g = written_going [OF w2(2) _ quiet d(6)]
    have "downlink_data_available E c w1 = Inr w2" using w2(1) some by (auto simp: downlink_data_available_def)
    with run cur True d(2) have "downlink_block_cb E (downlink_data_available E) src lst (Some a) w = Inr (GOLIOTH_OK, w2)" by simp
    moreover have "going E c a p m lst w2" "\<not> waiting a w2" using g(1,2) some w1(6) d(2) by auto
    moreover have "download_frame a c w w2" using frame1 written_frame [OF w2(2)] by (rule frame_trans)
    moreover have "written_to E c (trace w2) @ dl_left a w2 = written_to E c (trace w) @ dl_left a w @ src"
      using g(3) w1(6,9) d(2) left1 by simp
    ultimately show ?thesis by blast
  qed
qed

subsection \<open>The node answers\<close>

lemma node_answers:
  assumes go: "going E c a p m lf w" and link: "good_link E c m" "faithful E" "\<not> lf \<Longrightarrow> idle_packet E"
    and out: "\<not> waiting a w" and d: "downlinks w a = Some d" "\<not> complete d"
  shows "\<exists>w'. downlink_write_response_cb E c 0 w = Inr w' \<and> going E c a p m lf w' \<and> (waiting a w' \<longleftrightarrow> trace w' = trace w)
    \<and> download_frame a c w w' \<and> written_to E c (trace w') @ dl_left a w' = written_to E c (trace w) @ dl_left a w
    \<and> (\<not> waiting a w' \<longrightarrow> length (dl_left a w') < length (dl_left a w) \<or> map_option complete (downlinks w' a) = Some True)"
proof -
  from go d have g: "cb_arg d = c" "dl_open E a lf w" "wired c a p m w" "max_block_size E < 2 ^ 31"
    by (auto simp: going_def dl_open_def)
  have quiet: "\<not> client_waiting d" using out d by (simp add: waiting_def)
  from write_open [OF g(2,3) link(1-3) d(1)] obtain w2 bs d2 where
    w2: "write_downlink_characteristic E c w = Inr (if bs = [] \<and> \<not> complete d2 then - ENODATA else 0, w2)"
      "dl_written E c a p m lf d w bs d2 w2" by blast
  have "downlink_ctx (nodes w c) = Some a" using g(3) by (simp add: wired_def)
  then have "downlink_write_response_cb E c 0 w = Inr w2"
    using d w2(1) by (simp add: downlink_write_response_cb_def downlink_is_complete_def)
  moreover have "downlinks w2 a = Some d2" and left: "bs @ dl_left a w2 = dl_left a w"
    using w2(2) by (simp_all add: dl_written_def)
  moreover have "length (dl_left a w2) < length (dl_left a w)" if "bs \<noteq> []"
    using that arg_cong [OF left, of length] by (cases bs) auto
  ultimately show ?thesis
    using written_going [OF w2(2) g(1) quiet g(4)] written_frame [OF w2(2)] by (intro exI [of _ w2]) auto
qed

lemma last_answer:
  assumes go: "going E c a p m lf w" and d: "downlinks w a = Some d" "complete d"
  shows "\<exists>w'. downlink_write_response_cb E c 0 w = Inr w' \<and> downlinks w' = (downlinks w)(a := None) \<and> orphans w' = orphans w
    \<and> dl_inv E w' \<and> beside_dl w' = beside_dl (w\<lparr>packetizers := (packetizers w)(p := None)\<rparr>)
    \<and> nodes w' = nodes w \<and> dl_left a w = []
    \<and> trace w' = trace w @ [Packetizer_finish (Some p), Conn_disconnect c]"
proof -
  from go d have g: "dl_inv E w" "wired c a p m w" "segs w d = []" by (auto simp: going_def)
  from g(3) have empty: "block_queue d = []" by (simp add: segs_def split: option.splits)
  from close_world [OF g(1) d(1)] obtain w1 where w1: "downlink_close (Some a) w = Inr w1"
    "downlinks w1 = (downlinks w)(a := None)" "dl_inv E w1" "orphans w1 = orphans w" "trace w1 = trace w"
    using empty by auto
  from close_more [OF w1(1)] have more: "nodes w1 = nodes w" "packetizers w1 = packetizers w" "beside_dl w1 = beside_dl w"
    using more_gw beside_more by blast+
  let ?w = "w1\<lparr>trace := trace w1 @ [Packetizer_finish (Some p), Conn_disconnect c], packetizers := (packetizers w1)(p := None)\<rparr>"
  have "downlink_write_response_cb E c 0 w = Inr ?w"
    using g(2) d w1(1) more
    by (simp add: wired_def downlink_write_response_cb_def downlink_is_complete_def packetizer_finish_def bt_finished_def Let_def)
  moreover have "dl_inv E ?w" "orphans ?w = orphans w1" by (rule dl_inv_frame [OF w1(3)]) (simp_all add: orphans_def owned_def)
  moreover have "dl_left a w = []" using d g(3) by (simp add: dl_left_def pending_def)
  ultimately show ?thesis
    using w1 more by (intro exI [of _ ?w]) (simp add: beside_dl_def)
qed

subsection \<open>Whole downloads\<close>

text \<open>
  \<open>downloading E c a w0 fed lf out w\<close>: since \<open>w0\<close> the bytes \<open>fed\<close> have arrived from the cloud, with
  the last block if \<open>lf\<close>, and the node has answered writes; \<open>out\<close> says whether a write is
  outstanding.  The first block makes one, and so does an answer that leads to a further write.
\<close>

inductive downloading :: "'e env_scheme \<Rightarrow> conn \<Rightarrow> addr \<Rightarrow> 'a gw_world_scheme \<Rightarrow> bytes \<Rightarrow> bool \<Rightarrow> bool \<Rightarrow> 'a gw_world_scheme \<Rightarrow> bool"
  for E c a w0 where
  download_opened: "downloading E c a w0 [] False False w0"
| download_block: "downloading E c a w0 fed False out w
    \<Longrightarrow> slab_used w < num_blocks E \<Longrightarrow> length src \<le> max_block_size E \<Longrightarrow> (src = [] \<Longrightarrow> lst)
    \<Longrightarrow> downlink_block_cb E (downlink_data_available E) src lst (Some a) w = Inr (st, w')
    \<Longrightarrow> downloading E c a w0 (fed @ src) lst True w'"
| download_answered: "downloading E c a w0 fed lf True w \<Longrightarrow> map_option complete (downlinks w a) = Some False
    \<Longrightarrow> downlink_write_response_cb E c 0 w = Inr w' \<Longrightarrow> downloading E c a w0 fed lf (trace w' \<noteq> trace w) w'"

lemma downloading_going:
  assumes "downloading E c a w0 fed lf out w" and link: "good_link E c m" "faithful E" "idle_packet E"
    and start: "downlinks w0 a = Some (new_downlink c)" "dl_inv E w0" "wired c a p m w0" "max_block_size E < 2 ^ 31"
  shows "going E c a p m lf w \<and> (waiting a w \<longleftrightarrow> \<not> out) \<and> download_frame a c w0 w
    \<and> written_to E c (trace w) @ dl_left a w = written_to E c (trace w0) @ fed"
  using assms(1)
proof induction
  case download_opened
  have "new_downlink c = new_downlink c" ..
  with start show ?case
    by (simp add: going_def waiting_def frame_refl dl_left_def pending_def)
next
  case (download_block fed out w src lst st w')
  then have go: "going E c a p m False w" by simp
  from block_arrives [OF go link download_block(2-4)] obtain w1 where
    "downlink_block_cb E (downlink_data_available E) src lst (Some a) w = Inr (GOLIOTH_OK, w1)"
    "going E c a p m lst w1" "\<not> waiting a w1" "download_frame a c w w1"
    "written_to E c (trace w1) @ dl_left a w1 = written_to E c (trace w) @ dl_left a w @ src" by blast
  with download_block(5,6) show ?case by (auto intro: frame_trans)
next
  case (download_answered fed lf w w')
  then obtain d where d: "downlinks w a = Some d" "\<not> complete d" by auto
  from download_answered have "going E c a p m lf w" "\<not> waiting a w" by simp_all
  from node_answers [OF this(1) link(1,2) _ this(2) d] link(3) obtain w1 where
    "downlink_write_response_cb E c 0 w = Inr w1" "going E c a p m lf w1" "waiting a w1 \<longleftrightarrow> trace w1 = trace w"
    "download_frame a c w w1" "written_to E c (trace w1) @ dl_left a w1 = written_to E c (trace w) @ dl_left a w" by blast
  with download_answered(3,4) show ?case by (auto intro: frame_trans)
qed

text \<open>When the last block is in, the answers of the node bring the download to its end.\<close>

primrec pump :: "'e env_scheme \<Rightarrow> conn \<Rightarrow> addr \<Rightarrow> nat \<Rightarrow> 'a gw_world_scheme \<Rightarrow> fault + 'a gw_world_scheme" where
  "pump E c p 0 w = Inr w"
| "pump E c p (Suc k) w = (if packetizers w p = None then Inr w
     else bnd (downlink_write_response_cb E c 0 w) (pump E c p k))"

lemma pump_done: "packetizers w p = None \<Longrightarrow> pump E c p k w = Inr w"
  by (cases k) auto

definition download_over :: "'e env_scheme \<Rightarrow> addr \<Rightarrow> addr \<Rightarrow> conn \<Rightarrow> 'a gw_world_scheme \<Rightarrow> 'a gw_world_scheme \<Rightarrow> bool" where
  "download_over E a p c w w' \<longleftrightarrow> downlinks w' = (downlinks w)(a := None) \<and> orphans w' = orphans w \<and> dl_inv E w'
     \<and> beside_dl w' = beside_dl (w\<lparr>packetizers := (packetizers w)(p := None)\<rparr>)
     \<and> (\<exists>q. nodes w' = (nodes w)(c := (nodes w c)\<lparr>params := q\<rparr>))
     \<and> (\<exists>cs. trace w' = trace w @ cs @ [Packetizer_finish (Some p), Conn_disconnect c]
         \<and> (\<forall>x \<in> set cs. \<exists>g. x = Gatt_write c g))"

lemma over_frame: "download_frame a c w w1 \<Longrightarrow> download_over E a p c w1 w2 \<Longrightarrow> download_over E a p c w w2"
  by (fastforce simp: download_frame_def download_over_def beside_dl_def)

lemma pump_going:
  assumes link: "good_link E c m" "faithful E"
  shows "going E c a p m True w \<Longrightarrow> Suc (length (dl_left a w)) < k \<or> map_option complete (downlinks w a) = Some True \<and> 0 < k \<Longrightarrow>
    \<exists>w'. pump E c p k w = Inr w' \<and> download_over E a p c w w'
      \<and> written_to E c (trace w') = written_to E c (trace w) @ dl_left a w"
proof (induction k arbitrary: w)
  case (Suc k)
  have live: "packetizers w p \<noteq> None" using Suc.prems(1) by (auto simp: going_def wired_def)
  have run: "pump E c p (Suc k) w = bnd (downlink_write_response_cb E c 0 w) (pump E c p k)"
    unfolding pump.simps if_not_P [OF live] ..
  obtain d where d: "downlinks w a = Some d" by (rule goingE [OF Suc.prems(1)])
  show ?case
  proof (cases "complete d")
    case True
    from last_answer [OF Suc.prems(1) d True] obtain w1 where
      w1: "downlink_write_response_cb E c 0 w = Inr w1" "downlinks w1 = (downlinks w)(a := None)" "orphans w1 = orphans w"
        "dl_inv E w1" "beside_dl w1 = beside_dl (w\<lparr>packetizers := (packetizers w)(p := None)\<rparr>)" "nodes w1 = nodes w"
        "dl_left a w = []" "trace w1 = trace w @ [Packetizer_finish (Some p), Conn_disconnect c]" by blast
    have "packetizers w1 p = None" using w1(5) by (simp add: beside_dl_def)
    then have "pump E c p (Suc k) w = Inr w1" using run w1(1) by (simp add: pump_done)
    moreover have "download_over E a p c w w1"
      using w1 same_node [of "nodes w" c] by (simp add: download_over_def)
    moreover have "written_to E c (trace w1) = written_to E c (trace w) @ dl_left a w"
      by (simp add: w1(7,8)) (simp add: written_to_def)
    ultimately show ?thesis by blast
  next
    case False
    from node_answers [OF Suc.prems(1) link _ going_not_waiting [OF Suc.prems(1)] d False] obtain w1 where
      w1: "downlink_write_response_cb E c 0 w = Inr w1" "going E c a p m True w1" "download_frame a c w w1"
        "written_to E c (trace w1) @ dl_left a w1 = written_to E c (trace w) @ dl_left a w"
        "length (dl_left a w1) < length (dl_left a w) \<or> map_option complete (downlinks w1 a) = Some True"
      using going_not_waiting by blast
    have "Suc (length (dl_left a w1)) < k \<or> map_option complete (downlinks w1 a) = Some True \<and> 0 < k"
      using w1(5) Suc.prems(2) d False by auto
    from Suc.IH [OF w1(2) this] obtain w2 where
      "pump E c p k w1 = Inr w2" "download_over E a p c w1 w2" "written_to E c (trace w2) = written_to E c (trace w1) @ dl_left a w1" by blast
    with run w1(1,3,4) show ?thesis using over_frame by auto
  qed
qed simp

subsection \<open>The properties\<close>

text \<open>
  C16: a download never gets stuck or goes wrong between its handlers.  Over a link that accepts
  writes, with a faithful packetizer and a block of the pool for each block that arrives, which is
  not empty unless it is the last one, neither a
  block nor an answer leads to a fault, in whatever order they come: the next block is taken, and
  the node's answer to an outstanding write is followed by another write, by the end of the download,
  or, if all that has arrived is written, by a wait for the next block, whose arrival makes the next write.
  What has been written is always what has arrived, less what is pending, and nothing is pending
  while no write is outstanding.
\<close>

theorem download_goes_on:
  assumes run: "downloading E c a w0 fed lf out w" and link: "good_link E c m" "faithful E" "idle_packet E"
    and start: "downlinks w0 a = Some (new_downlink c)" "dl_inv E w0" "wired c a p m w0" "max_block_size E < 2 ^ 31"
  shows "written_to E c (trace w) @ dl_left a w = written_to E c (trace w0) @ fed \<and> (\<not> out \<longrightarrow> dl_left a w = [] \<and> \<not> lf)
    \<and> (\<forall>src lst. \<not> lf \<and> slab_used w < num_blocks E \<and> length src \<le> max_block_size E \<and> (src = [] \<longrightarrow> lst) \<longrightarrow>
        (\<exists>w'. downlink_block_cb E (downlink_data_available E) src lst (Some a) w = Inr (GOLIOTH_OK, w')
          \<and> downloading E c a w0 (fed @ src) lst True w'))
    \<and> (out \<longrightarrow> (\<exists>w'. downlink_write_response_cb E c 0 w = Inr w'
          \<and> (downlinks w' a = None \<or> downloading E c a w0 fed lf (trace w' \<noteq> trace w) w')))"
proof -
  from downloading_going [OF run link start] have go: "going E c a p m lf w" and out: "waiting a w \<longleftrightarrow> \<not> out"
    and stream: "written_to E c (trace w) @ dl_left a w = written_to E c (trace w0) @ fed" by simp_all
  obtain d where d: "downlinks w a = Some d" by (rule goingE [OF go])
  have idle: "\<not> out \<longrightarrow> dl_left a w = [] \<and> \<not> lf"
    using go out d by (auto simp: going_def waiting_def dl_left_def pending_def split: if_splits)
  have block: "\<exists>w'. downlink_block_cb E (downlink_data_available E) src lst (Some a) w = Inr (GOLIOTH_OK, w')
      \<and> downloading E c a w0 (fed @ src) lst True w'"
    if "\<not> lf" "slab_used w < num_blocks E" "length src \<le> max_block_size E" "src = [] \<Longrightarrow> lst" for src lst
  proof -
    from go that(1) have "going E c a p m False w" by simp
    from block_arrives [OF this link that(2-4)] obtain w1 where
      w1: "downlink_block_cb E (downlink_data_available E) src lst (Some a) w = Inr (GOLIOTH_OK, w1)" by blast
    from run that(1) have "downloading E c a w0 fed False out w" by simp
    from download_block [OF this that(2-4) w1] w1 show ?thesis by blast
  qed
  have "\<exists>w'. downlink_write_response_cb E c 0 w = Inr w'
      \<and> (downlinks w' a = None \<or> downloading E c a w0 fed lf (trace w' \<noteq> trace w) w')" if "out"
  proof (cases "complete d")
    case True
    from last_answer [OF go d True] show ?thesis by auto
  next
    case False
    with node_answers [OF go link(1,2) _ _ d False] link(3) that out obtain w1 where
      "downlink_write_response_cb E c 0 w = Inr w1" by blast
    with download_answered [of E c a w0 fed lf w w1] run that d False show ?thesis by auto
  qed
  with stream idle block show ?thesis by blast
qed

lemma small_env_idle: "idle_packet small_env"
  by (simp add: idle_packet_def small_env_def)

theorem download_goes_on_witness:
  "\<exists>w. downlink_block_cb small_env (downlink_data_available small_env) [1, 2] False (Some 1) gw_wired = Inr (GOLIOTH_OK, w)
     \<and> downloading small_env 0 1 gw_wired [1, 2] False True w \<and> written_to small_env 0 (trace w) @ dl_left 1 w = [1, 2]"
proof -
  have start: "downlinks gw_wired 1 = Some (new_downlink 0)" "max_block_size small_env < 2 ^ 31" by simp_all
  note good = small_env_link small_env_idle start(1) gw_wired_simps(3,4) start(2)
  from download_goes_on [OF download_opened good] obtain w where
    w: "downlink_block_cb small_env (downlink_data_available small_env) [1, 2] False (Some 1) gw_wired = Inr (GOLIOTH_OK, w)"
      "downloading small_env 0 1 gw_wired ([] @ [1, 2]) False True w" by force
  have "written_to small_env 0 (trace gw_wired) = []" by (simp add: gw_wired_def gw_boot_def written_to_def)
  with download_goes_on [OF w(2) good] w show ?thesis by auto
qed

text \<open>
  C15: the node gets the whole download.  Blocks, none of them empty but perhaps the last one, and answers
  may have come in any order; when the last
  block is in, the remaining answers of the node, at most one for each pending byte and two more,
  bring the download to its end.  Then the payloads written to the downlink characteristic are the
  blocks of the cloud one after the other, the context, its blocks and the packetizer are given back,
  the contexts of other connections are as they were, and the connection is dropped.
\<close>

theorem download_reaches_node:
  assumes run: "downloading E c a w0 fed True out w" and link: "good_link E c m" "faithful E" "idle_packet E"
    and start: "downlinks w0 a = Some (new_downlink c)" "dl_inv E w0" "wired c a p m w0" "max_block_size E < 2 ^ 31"
  shows "\<exists>w' tr. pump E c p (Suc (Suc (length (dl_left a w)))) w = Inr w'
    \<and> written_to E c (trace w') = written_to E c (trace w0) @ fed
    \<and> downlinks w' = (downlinks w0)(a := None) \<and> orphans w' = orphans w0 \<and> packetizers w' p = None
    \<and> trace w' = tr @ [Packetizer_finish (Some p), Conn_disconnect c]"
proof -
  from downloading_going [OF run link start] have go: "going E c a p m True w" and frame: "download_frame a c w0 w"
    and stream: "written_to E c (trace w) @ dl_left a w = written_to E c (trace w0) @ fed" by simp_all
  from pump_going [OF link(1,2) go, of "Suc (Suc (length (dl_left a w)))"] obtain w' where
    w': "pump E c p (Suc (Suc (length (dl_left a w)))) w = Inr w'" "download_over E a p c w w'"
      "written_to E c (trace w') = written_to E c (trace w) @ dl_left a w" by auto
  from over_frame [OF frame w'(2)] obtain cs where over: "downlinks w' = (downlinks w0)(a := None)" "orphans w' = orphans w0"
    "beside_dl w' = beside_dl (w0\<lparr>packetizers := (packetizers w0)(p := None)\<rparr>)"
    "trace w' = trace w0 @ cs @ [Packetizer_finish (Some p), Conn_disconnect c]"
    by (auto simp: download_over_def)
  then show ?thesis using w'(1,3) stream
    by (intro exI [of _ w'] exI [of _ "trace w0 @ cs"]) (simp add: beside_dl_def del: pump.simps)
qed

theorem download_reaches_node_witness:
  "\<exists>w w'. downloading small_env 0 1 gw_wired [1, 2] True True w \<and> pump small_env 0 2 (Suc (Suc (length (dl_left 1 w)))) w = Inr w'
     \<and> written_to small_env 0 (trace w') = [1, 2] \<and> downlinks w' = Map.empty"
proof -
  have start: "downlinks gw_wired 1 = Some (new_downlink 0)" "max_block_size small_env < 2 ^ 31" by simp_all
  note good = small_env_link small_env_idle start(1) gw_wired_simps(3,4) start(2)
  have "going small_env 0 1 2 23 False gw_wired" using start gw_wired_simps(3,4) by (simp add: going_def)
  from block_arrives [OF this small_env_link small_env_idle, of "[1, 2]" True] obtain w where
    "downlink_block_cb small_env (downlink_data_available small_env) [1, 2] True (Some 1) gw_wired = Inr (GOLIOTH_OK, w)" by auto
  from download_block [OF download_opened _ _ _ this] have run: "downloading small_env 0 1 gw_wired [1, 2] True True w" by simp
  have "written_to small_env 0 (trace gw_wired) = []" "(downlinks gw_wired)(1 := None) = Map.empty"
    by (simp_all add: gw_wired_def gw_boot_def written_to_def)
  with download_reaches_node [OF run good] run show ?thesis by (auto simp del: pump.simps)
qed

end
