(* ===== verification/Whole_Session.thy ===== *)
theory Whole_Session
  imports Exchange Download
begin

text \<open>
  The session of a node with certificates from the connection to the disconnect: discovery, both
  certificates, the uplink, the download, and the end of the connection, with nothing else going on.
  Everything is delivered, and everything that was allocated on the way is given back.
\<close>

subsection \<open>The uplink leaves the rest alone\<close>

text \<open>
  Since \<open>w0\<close> the uplink \<open>u\<close> of the connection \<open>c\<close> has been working: the download and what the
  record says of it are as they were.
\<close>

definition link_fields :: "node_info \<Rightarrow> _" where
  "link_fields n = (downlink_ctx n, downlink_scratch n, packetizer n)"

definition uplink_only :: "conn \<Rightarrow> addr \<Rightarrow> 'a gw_world_scheme \<Rightarrow> 'a gw_world_scheme \<Rightarrow> bool" where
  "uplink_only c u w0 w \<longleftrightarrow> slab w = slab w0 \<and> slab_used w = slab_used w0 \<and> downlinks w = downlinks w0 \<and> tables w = tables w0
     \<and> (uplinks w)(u := None) = (uplinks w0)(u := None) \<and> link_fields (nodes w c) = link_fields (nodes w0 c)
     \<and> (node_uplink (nodes w c) = NULL \<or> node_uplink (nodes w c) = Some u)
     \<and> (\<forall>x. uplinks w u = Some x \<longrightarrow> end_cb_arg x = c)"

lemma uplink_only_at:
  assumes "p = NULL \<or> p = Some u"
  shows "uplink_at E (uplink_only c u w0) p (\<lambda>c'. c' = c) (\<lambda>_. True) (uplink_end_cb E)"
proof -
  have base: "uplink_only c u w0 w \<Longrightarrow> uplink_only c u w0 (set_node c (node_uplink_update (\<lambda>_. NULL)) w)"
    "uplink_only c u w0 w \<Longrightarrow> uplink_only c u w0 (snd (ext_call E x w))" for w x and E :: "'e env_scheme"
    by (simp_all add: uplink_only_def tables_def link_fields_def ext_call_def)
  show ?thesis
  proof (unfold_locales, goal_cases)
    case 3
    then show ?case using end_cb_kept [where ok = "\<lambda>_. True", of "uplink_only c u w0" c E] base by blast
  qed (use assms in \<open>auto simp: uplink_only_def tables_def link_fields_def put_uplink_def malloc_def ext_call_def Let_def\<close>)
qed

lemma uplink_only_ops:
  assumes "uplink_only c u w0 w"
  shows "kept (uplink_only c u w0) snd (uplink_write E (uplink_end_cb E) (node_uplink (nodes w c)) bs lst w)"
    and "kept (uplink_only c u w0) (\<lambda>w. w) (uplink_close E (uplink_end_cb E) (node_uplink (nodes w c)) w)"
    and "kept (uplink_only c u w0) (\<lambda>w. w) (block_upload_callback E (uplink_end_cb E) st (Some u) w)"
proof -
  have "node_uplink (nodes w c) = NULL \<or> node_uplink (nodes w c) = Some u" using assms by (simp add: uplink_only_def)
  from uplink_at.up_ops(1,2) [OF uplink_only_at [OF this] assms] uplink_at.up_ops(3) [OF uplink_only_at assms]
  show "kept (uplink_only c u w0) snd (uplink_write E (uplink_end_cb E) (node_uplink (nodes w c)) bs lst w)"
    and "kept (uplink_only c u w0) (\<lambda>w. w) (uplink_close E (uplink_end_cb E) (node_uplink (nodes w c)) w)"
    and "kept (uplink_only c u w0) (\<lambda>w. w) (block_upload_callback E (uplink_end_cb E) st (Some u) w)" by blast+
qed

lemma uplink_only_pure:
  assumes "uplink_only c u w0 w"
  shows "uplink_only c u w0 (set_node c (node_uplink_update (\<lambda>_. NULL)) w)" "uplink_only c u w0 (snd (ext_call E x w))"
    "uplink_only c u w0 (bt_finished E c w)"
  using assms by (simp_all add: uplink_only_def tables_def link_fields_def ext_call_def bt_finished_def)

lemma uplink_only_receive: "uplink_only c u w0 w \<Longrightarrow> kept (uplink_only c u w0) snd (receive E c packet w)"
proof -
  assume start: "uplink_only c u w0 w"
  note uplink_only_ops [keeps] uplink_only_pure [keeps]
  have payload: "kept (uplink_only c u w0) snd (handle_uplink_payload E c packet w)"
    unfolding handle_uplink_payload_def Let_def by (rule start looks keeps kept_any | assumption | simp only: prod.sel)+
  moreover have "kept (uplink_only c u w0) snd (uplink_read_cb E c 0 packet w)"
    unfolding uplink_read_cb_def Let_def by (rule payload looks keeps kept_any | assumption | simp only: prod.sel)+
  ultimately show ?thesis by (simp add: receive_def uplink_indicate_cb_def)
qed

lemma uplink_only_run:
  assumes "uplink_only c u w0 w" and "bnd (receive_all E c packets w) (acks E (uplink_end_cb E) u n) = Inr w'"
  shows "uplink_only c u w0 w'"
proof -
  have "kept (uplink_only c u w0) (\<lambda>w. w) (receive_all E c packets w)"
    using assms(1)
  proof (induction packets arbitrary: w)
    case (Cons p ps)
    show ?case unfolding receive_all.simps
      by (rule kept_bnd [OF uplink_only_receive [OF Cons(2)]]) (simp add: case_prod_unfold Cons(1))
  qed (simp add: kept_Inr)
  moreover have "uplink_only c u w0 v \<Longrightarrow> kept (uplink_only c u w0) (\<lambda>w. w) (acks E (uplink_end_cb E) u n v)" for v
  proof (induction n arbitrary: v)
    case (Suc n)
    show ?case unfolding acks.simps by (rule kept_bnd [OF uplink_only_ops(3) [OF Suc(2)]]) (rule Suc(1))
  qed (simp add: kept_Inr)
  ultimately show ?thesis using keptD [OF kept_bnd assms(2)] by blast
qed

subsection \<open>What the start of the uplink allocates\<close>

text \<open>Besides what there was in \<open>w0\<close>: the download \<open>a\<close> with its packetizer and its buffer, and the uplink \<open>u\<close>.\<close>

definition both_open :: "conn \<Rightarrow> nat \<Rightarrow> addr \<Rightarrow> addr \<Rightarrow> addr \<Rightarrow> addr \<Rightarrow> 'a gw_world_scheme \<Rightarrow> 'a gw_world_scheme \<Rightarrow> bool" where
  "both_open c m a p b u w0 w \<longleftrightarrow> slab w = slab w0 \<and> slab_used w = slab_used w0
     \<and> downlinks w = (downlinks w0)(a \<mapsto> new_downlink c) \<and> downlinks w0 a = None
     \<and> tables w = (server_ctxs w0, device_ctxs w0, (packetizers w0)(p \<mapsto> (Fill_downlink, Some a)), (scratches w0)(b \<mapsto> m - BT_ATT_OVERHEAD))
     \<and> packetizers w0 p = None \<and> scratches w0 b = None
     \<and> (uplinks w)(u := None) = uplinks w0 \<and> link_fields (nodes w c) = (Some a, Some b, Some p)"

lemma uplink_start_opens:
  fixes w :: "'a gw_world_scheme"
  assumes "cloud E" and mem: "\<And>t. ret E t Malloc \<noteq> 0" "\<And>t q. ret E t (Packetizer_start q) \<noteq> 0" "\<And>t dl. ret E t (Uplink_start dl) \<noteq> 0"
    and m: "good_link E c m" and h: "value_handle w c ATTR_DOWNLINK \<noteq> 0"
    and fresh: "fresh_tables w" "fresh_above (downlinks w) (next_addr w)" "fresh_above (uplinks w) (next_addr w)"
  shows "\<exists>a p b u. both_open c m a p b u w (uplink_start E c w) \<and> node_uplink (nodes (uplink_start E c w) c) = Some u
    \<and> uplink_only c u (uplink_start E c w) (uplink_start E c w)"
proof -
  define w1 where "w1 = snd (downlink_start E c w)"
  let ?n = "next_addr w"
  have mtu: "mtu E t c = m" "\<not> m < BT_ATT_OVERHEAD" for t using m by (auto simp: good_link_def)
  have dl: "downlink_start E c w = (Some (Suc ?n), w1)" and w1: "downlinks w1 = (downlinks w)(Suc ?n \<mapsto> new_downlink c)"
    "slab w1 = slab w" "slab_used w1 = slab_used w" "uplinks w1 = uplinks w" "next_addr w1 = Suc (Suc (Suc ?n))"
    "tables w1 = (server_ctxs w, device_ctxs w, (packetizers w)(Suc (Suc ?n) \<mapsto> (Fill_downlink, Some (Suc ?n))),
       (scratches w)(?n \<mapsto> m - BT_ATT_OVERHEAD))"
    "link_fields (nodes w1 c) = (Some (Suc ?n), Some ?n, Some (Suc (Suc ?n)))"
    using assms(1) h mtu mem
    by (simp_all add: w1_def downlink_start_def gatt_mtu_malloc_def malloc_def ext_call_def downlink_open_def packetizer_start_def
        put_downlink_def tables_def link_fields_def set_node_def Let_def)
  define w2 where "w2 = snd (uplink_open E (Some (Suc ?n)) c w1)"
  obtain u x where up: "uplink_open E (Some (Suc ?n)) c w1 = (Some u, w2)" "uplinks w2 = (uplinks w)(u \<mapsto> x)" "end_cb_arg x = c"
    "?n \<le> u" and w2: "slab w2 = slab w1" "slab_used w2 = slab_used w1" "downlinks w2 = downlinks w1" "tables w2 = tables w1"
    "nodes w2 = nodes w1"
    using assms(1) mem w1(4,5)
    by (simp add: w2_def uplink_open_def pouch_block_alloc_def malloc_def ext_call_def put_uplink_def new_uplink_def tables_def Let_def)
  let ?w = "uplink_start E c w"
  have last: "slab ?w = slab w2" "slab_used ?w = slab_used w2" "downlinks ?w = downlinks w2" "tables ?w = tables w2"
    "uplinks ?w = uplinks w2" "link_fields (nodes ?w c) = link_fields (nodes w2 c)" "node_uplink (nodes ?w c) = Some u"
    by (simp_all add: uplink_start_def dl up(1) Let_def ext_call_def bt_finished_def tables_def link_fields_def set_node_def)
  have none: "downlinks w (Suc ?n) = None" "packetizers w (Suc (Suc ?n)) = None" "scratches w ?n = None" "uplinks w u = None"
    using fresh up(4) by (auto simp: fresh_tables_def intro: fresh_none)
  have "both_open c m (Suc ?n) (Suc (Suc ?n)) ?n u w ?w"
    using none by (simp add: both_open_def last w2 w1 up(2) fun_upd_idem_iff)
  moreover have "uplink_only c u ?w ?w" using last(7) up(2,3) by (simp add: uplink_only_def last(5))
  ultimately show ?thesis using last(7) by blast
qed

lemma both_open_kept:
  assumes "both_open c m a p b u w0 w" and "uplink_only c u w w'"
  shows "both_open c m a p b u w0 w'"
  using assms by (simp add: both_open_def uplink_only_def)

text \<open>When the uplink has ended, the download is where \<open>Download\<close> takes over.\<close>

lemma both_open_wired:
  assumes "both_open c m a p b u w0 w"
  shows "wired c a p m w" "downlinks w a = Some (new_downlink c)" "downlink_scratch (nodes w c) = Some b"
  using assms by (auto simp: both_open_def wired_def tables_def link_fields_def)

subsection \<open>The end of the connection\<close>

text \<open>What is allocated: contexts, tables, the number of blocks taken from the pool and of uplink blocks.\<close>

definition allocated :: "'a gw_world_scheme \<Rightarrow> _" where
  "allocated w = (downlinks w, uplinks w, tables w, slab_used w, pblocks_live w)"

lemma pool_count:
  fixes w w' :: "'a downlink_world_scheme"
  assumes "dl_inv E w" and "dl_inv E w'" and "downlinks w' = downlinks w" and "orphans w' = orphans w"
  shows "slab_used w' = slab_used w"
proof -
  have dom: "dom (slab v) = owned v \<union> orphans v" if "dl_inv E v" for v :: "'a downlink_world_scheme"
    using dl_invD(3) [OF that] by (fastforce simp: orphans_def owned_def wf_downlink_def)
  have "owned w' = owned w" using assms(3) by (simp add: owned_def)
  with dom [OF assms(1)] dom [OF assms(2)] assms(4) have "dom (slab w') = dom (slab w)" by simp
  with dl_invD(1) [OF assms(1)] dl_invD(1) [OF assms(2)] show ?thesis by (simp add: slab_inv_def)
qed

lemma live_count: "up_mem w \<Longrightarrow> up_mem w' \<Longrightarrow> uplinks w' = uplinks w \<Longrightarrow> pblocks_live w' = pblocks_live w"
  by (simp add: up_mem_def)

lemma both_open_orphans:
  assumes "both_open c m a p b u w0 w"
  shows "orphans w = orphans w0"
proof -
  have "(downlinks w x = Some d \<and> y \<in> set (held d)) = (downlinks w0 x = Some d \<and> y \<in> set (held d))" for x d y
    using assms by (cases "x = a") (auto simp: both_open_def)
  with assms show ?thesis by (simp add: orphans_def owned_def both_open_def)
qed

lemma session_closes:
  assumes both: "both_open c m a p b u w0 w1" and gone: "uplinks w1 u = None" "node_uplink (nodes w1 c) = NULL"
    and inv: "dl_inv E w0" "up_mem w0" "up_mem w1" and over: "download_over E a p c w1 w"
  shows "\<exists>w'. bt_disconnected E c w = Inr w' \<and> allocated w' = allocated w0"
proof -
  have up: "uplinks w1 = uplinks w0" using both gone(1) by (auto simp: both_open_def fun_upd_idem)
  obtain q where node: "nodes w c = (nodes w1 c)\<lparr>params := q\<rparr>" using over by (auto simp: download_over_def)
  have w: "downlinks w = downlinks w0" "uplinks w = uplinks w0" "pblocks_live w = pblocks_live w1"
    "tables w = (server_ctxs w0, device_ctxs w0, packetizers w0, (scratches w0)(b \<mapsto> m - BT_ATT_OVERHEAD))" "scratches w0 b = None"
    using both over up by (auto simp: both_open_def download_over_def beside_dl_def tables_def fun_upd_idem)
  have count: "slab_used w = slab_used w0"
    using pool_count [OF inv(1), of w] over w(1) both_open_orphans [OF both] by (simp add: download_over_def)
  have live: "pblocks_live w1 = pblocks_live w0" by (rule live_count [OF inv(2,3) up])
  let ?w = "set_node c (downlink_scratch_update (\<lambda>_. NULL)) (w\<lparr>scratches := (scratches w)(b := None)\<rparr>)"
  have "scratches w b = Some (m - BT_ATT_OVERHEAD)" using w(4) by (simp add: tables_def)
  then have "bt_disconnected E c w = Inr (scan_start E (snd (ext_call E (Conn_unref c) ?w)))"
    using node gone(2) both_open_wired(3) [OF both]
    by (simp add: bt_disconnected_def bt_stop_def uplink_cleanup_def downlink_cleanup_def free_scratch_def)
  moreover have "allocated (scan_start E (snd (ext_call E (Conn_unref c) ?w))) = allocated w0"
    using w count live by (auto simp: allocated_def scan_start_def ext_call_def tables_def fun_upd_idem)
  ultimately show ?thesis by blast
qed

subsection \<open>The whole session\<close>

definition certified_run :: "'e env_scheme \<Rightarrow> uuids \<Rightarrow> conn \<Rightarrow> handle \<Rightarrow> handle \<Rightarrow> chrc list \<Rightarrow> bytes \<Rightarrow> byte list
    \<Rightarrow> bytes list \<Rightarrow> bytes list \<Rightarrow> nat \<Rightarrow> 'a gw_world_scheme \<Rightarrow> fault + 'a gw_world_scheme" where
  "certified_run E U c h e cs serial errs device packets n w = bnd (discovery E U c h e cs w) (\<lambda>w.
     bnd (exchange E c serial errs device w) (\<lambda>w.
     bnd (receive_all E c packets w) (acks E (uplink_end_cb E) (the (node_uplink (nodes w c))) n)))"

lemma discovery_restores:
  assumes "discovery E U c h e cs w = Inr w'"
  shows "restored w w'"
  by (rule discovery_keeps [OF assms])
    (simp_all add: restored_def streams_def tables_def discover_def ext_call_def bt_finished_def Let_def)

lemma restored_inv:
  assumes "restored w0 w" and "gw_inv E w0"
  shows "owners_ok E w" "up_mem w" "fresh_tables w" "fresh_above (downlinks w) (next_addr w)" "fresh_above (uplinks w) (next_addr w)"
proof -
  show inv: "owners_ok E w" "up_mem w"
    using assms dl_inv_frame [of E w0 w] up_mem_frame [of w0 w]
    by (simp_all add: restored_def streams_def gw_inv_def owners_ok_def)
  have "fresh_tables w0" using assms(2) by (simp add: gw_inv_def mem_ok_def fresh_tables_def)
  with assms(1) show "fresh_tables w" by (rule restored_fresh)
  show "fresh_above (downlinks w) (next_addr w)" "fresh_above (uplinks w) (next_addr w)"
    using inv by (auto simp: owners_ok_def dest: dl_invD(2) up_memD(2))
qed

text \<open>The uplink of the session, and what it leaves to the download.\<close>

lemma session_uplink:
  fixes w :: "'a gw_world_scheme"
  assumes rest: "restored w0 w" "gw_inv E w0"
    and client: "wf_env E" "cloud E" "\<And>t dl. ret E t (Uplink_start dl) \<noteq> 0" "\<And>s. accepts E s" "\<And>t. ret E t Malloc \<noteq> 0"
    and packets: "map (pk_decode E) packets = map (\<lambda>p. Inr (p, False)) ps @ [Inr (q, True)]" "concat ps @ q \<noteq> []"
    and host: "\<And>t q. ret E t (Packetizer_start q) \<noteq> 0" "good_link E c m" and h: "value_handle w c ATTR_DOWNLINK \<noteq> 0"
  shows "\<exists>n s w' zs a p b u. bnd (receive_all E c packets (uplink_start E c w))
      (acks E (uplink_end_cb E) (the (node_uplink (nodes (uplink_start E c w) c))) n) = Inr w'
    \<and> n \<le> Suc (length (whole E (concat ps @ q))) \<and> trace w' = trace w @ zs \<and> concat (map (block_of s) zs) = whole E (concat ps @ q)
    \<and> node_uplink (nodes w' c) = NULL \<and> uplinks w' u = None \<and> both_open c m a p b u w w' \<and> dl_inv E w' \<and> up_mem w'"
proof -
  note inv = restored_inv [OF rest]
  from uplink_start_opens [OF client(2,5) host(1) client(3) host(2) h inv(3-5)] obtain a p b u where
    both: "both_open c m a p b u w (uplink_start E c w)" and u: "node_uplink (nodes (uplink_start E c w) c) = Some u"
    and only: "uplink_only c u (uplink_start E c w) (uplink_start E c w)" by blast
  from uplink_delivered [OF client packets, of c w] obtain n s w' zs where
    w': "bnd (receive_all E c packets (uplink_start E c w)) (acks E (uplink_end_cb E) u n) = Inr w'"
      "n \<le> Suc (length (whole E (concat ps @ q)))" "trace w' = trace w @ zs"
      "concat (map (block_of s) zs) = whole E (concat ps @ q)" "node_uplink (nodes w' c) = NULL" "uplinks w' u = None"
    by (auto simp: u)
  have "owners_ok E w'" by (rule dl_glue.keep_uplink_run [OF dl_glue.keep_uplink_start [OF inv(1)] w'(1)])
  moreover have "up_mem w'" by (rule up_glue.keep_uplink_run [OF up_glue.keep_uplink_start [OF inv(2)] w'(1)])
  moreover have "both_open c m a p b u w w'" by (rule both_open_kept [OF both uplink_only_run [OF only w'(1)]])
  ultimately show ?thesis using w' unfolding u option.sel
    by (intro exI [of _ n] exI [of _ s] exI [of _ w'] exI [of _ zs] exI [of _ a] exI [of _ p] exI [of _ b] exI [of _ u])
      (simp add: owners_ok_def)
qed

text \<open>The download that follows, and the disconnect.\<close>

lemma download_closes:
  assumes run: "downloading E c a w1 fed True out w2" and link: "good_link E c m" "faithful E" "idle_packet E"
    and both: "both_open c m a p b u x w1" and gone: "uplinks w1 u = None" "node_uplink (nodes w1 c) = NULL"
    and inv: "dl_inv E w1" "up_mem w1" "owners_ok E x" "up_mem x"
  shows "\<exists>w3 w4. pump E c p (Suc (Suc (length (dl_left a w2)))) w2 = Inr w3
    \<and> written_to E c (trace w3) = written_to E c (trace w1) @ fed
    \<and> bt_disconnected E c w3 = Inr w4 \<and> allocated w4 = allocated x"
proof -
  have ok: "max_block_size E < 2 ^ 31" "dl_inv E x" using inv(3) by (simp_all add: owners_ok_def)
  from downloading_going [OF run link both_open_wired(2) [OF both] inv(1) both_open_wired(1) [OF both] ok(1)]
  have go: "going E c a p m True w2" and frame: "download_frame a c w1 w2"
    and stream: "written_to E c (trace w2) @ dl_left a w2 = written_to E c (trace w1) @ fed" by simp_all
  from pump_going [OF link(1,2) go, of "Suc (Suc (length (dl_left a w2)))"] obtain w3 where
    w3: "pump E c p (Suc (Suc (length (dl_left a w2)))) w2 = Inr w3" "download_over E a p c w2 w3"
      "written_to E c (trace w3) = written_to E c (trace w2) @ dl_left a w2" by auto
  from session_closes [OF both gone ok(2) inv(4,2) over_frame [OF frame w3(2)]] obtain w4 where
    "bt_disconnected E c w3 = Inr w4" "allocated w4 = allocated x" by blast
  with w3(1,3) stream show ?thesis by (intro exI [of _ w3] exI [of _ w4]) (simp del: pump.simps)
qed

text \<open>What the discovery finds, and that it writes nothing.\<close>

lemma discovery_finds:
  assumes "well_ordered cs e" and "e < 0xFFFF" and "inj (char_uuid U)" and "distinct (map fst cs)"
    and "\<forall>(u, v, d) \<in> set cs. d \<noteq> None \<longrightarrow> u \<in> range (char_uuid U)"
    and "char_uuid U ATTR_UPLINK \<in> fst ` set cs" "char_uuid U ATTR_DOWNLINK \<in> fst ` set cs"
    and "\<And>t g. ret E t (Gatt_discover c g) = 0"
  shows "\<exists>v. discovery E U c h e cs w = Inr v \<and> (\<forall>i. char_uuid U i \<in> fst ` set cs \<longrightarrow> value_handle v c i \<noteq> 0)"
proof -
  from discovery_handles [OF assms] obtain v where "discovery E U c h e cs w = Inr v"
    and at: "\<And>i. attr_value (attr_handles (nodes v c) i) = chrc_value cs (char_uuid U i)" by fastforce
  moreover have "chrc_value cs u \<noteq> 0" if "u \<in> fst ` set cs" for u
    using that assms(1,4) by (auto simp: chrc_value_def well_ordered_def)
  ultimately show ?thesis by (intro exI [of _ v]) (simp add: value_handle_def)
qed

lemma discovery_writes_nothing:
  assumes "discovery E U c h e cs w = Inr v"
  shows "\<exists>ys. trace v = trace w @ ys \<and> list_all exchanging ys \<and> written_to E c ys = []"
proof -
  from discovery_calls [OF assms] obtain ys where ys: "trace v = trace w @ ys" "list_all quiet ys"
    by (auto simp: calls_since_def)
  from ys(2) have "list_all exchanging ys" by (auto simp: list_all_iff exchanging_def)
  moreover from ys(2) have "written_to E c ys = []" by (induction ys) (auto simp: written_to_def split: ext_call.splits)
  ultimately show ?thesis using ys(1) by blast
qed

subsection \<open>The property\<close>

text \<open>
  C8: a whole session delivers everything and gives everything back.  In any state of the gateway in
  which it has a server certificate (without one the exchange stalls, \<open>missing_server_cert_stalls\<close>)
  a node with all characteristics connects, with nothing else going on, whose Pouch service ends below the
  handle 0xFFFF, whose device certificate fits into the buffer for it (a longer one is cut,
  \<open>oversized_device_cert_cut\<close>), and whose uplink is not empty; the host accepts the requests, memory
  does not run out, the packetizer is faithful, and the cloud client takes what it is given.  Then no step causes a fault, and what the session does is, in this order: it writes
  the server certificate to the node, whole, unless the node has read out its serial number; it hands
  the device certificate of the node, whole, to the cloud client; and only then, block by block, the
  bytes the node has sent.  After that the download is open, and however its blocks and the answers of
  the node to its writes arrive, the node gets all of it.  When the connection has ended, the contexts,
  the packetizers, the buffers, and the numbers of pool blocks and of uplink blocks in use are those
  from before the connection.  The error codes \<open>errs\<close> of the responses to the certificate are arbitrary.
\<close>

theorem session_gives_everything_back:
  fixes w :: "'a gw_world_scheme"
  assumes peer: "well_ordered cs e" "e < 0xFFFF" "inj (char_uuid U)" "distinct (map fst cs)"
      "\<forall>(u, v, d) \<in> set cs. d \<noteq> None \<longrightarrow> u \<in> range (char_uuid U)"
      "char_uuid U ATTR_UPLINK \<in> fst ` set cs" "char_uuid U ATTR_DOWNLINK \<in> fst ` set cs"
      "char_uuid U ATTR_SERVER_CERT \<in> fst ` set cs" "char_uuid U ATTR_DEVICE_CERT \<in> fst ` set cs"
    and host: "\<And>t g. ret E t (Gatt_discover c g) = 0" "\<And>t q. ret E t (Packetizer_start q) \<noteq> 0"
      "good_link E c m" "faithful E" "idle_packet E" "reads_accepted E c"
    and client: "wf_env E" "cloud E" "\<And>t dl. ret E t (Uplink_start dl) \<noteq> 0" "\<And>s. accepts E s"
      "\<And>t crt. ret E t (Device_cert_set crt) = 0"
    and inv: "gw_inv E w" "device_cert_max E < 2 ^ 32" and cert: "0 < server_crt_len w"
    and serial: "pk_decode E serial = Inr (sn, True)" "serial \<noteq> []" and errs: "server_crt_len w < length errs"
    and device: "map (pk_decode E) device = map (\<lambda>p. Inr (p, False)) ds @ [Inr (d, True)]" "[] \<notin> set device"
      "length (concat ds @ d) \<le> device_cert_max E"
    and packets: "map (pk_decode E) packets = map (\<lambda>p. Inr (p, False)) ps @ [Inr (q, True)]" "concat ps @ q \<noteq> []"
  shows "\<exists>n s w1 xs zs a p. certified_run E U c h e cs serial errs device packets n w = Inr w1
    \<and> n \<le> Suc (length (whole E (concat ps @ q)))
    \<and> trace w1 = trace w @ xs @ Device_cert_set (concat ds @ d) # zs
    \<and> written_to E c xs = (if sn \<noteq> [] \<and> sn = take (server_crt_serial_len w) (server_crt_serial w) then [] else crt w)
    \<and> (\<forall>crt. Device_cert_set crt \<notin> set xs) \<and> concat (map (block_of s) xs) = []
    \<and> concat (map (block_of s) zs) = whole E (concat ps @ q)
    \<and> downlinks w1 a = Some (new_downlink c) \<and> wired c a p m w1 \<and> dl_inv E w1 \<and> slab_used w1 = slab_used w
    \<and> (\<forall>fed out w2. downloading E c a w1 fed True out w2 \<longrightarrow>
        (\<exists>w3 w4. pump E c p (Suc (Suc (length (dl_left a w2)))) w2 = Inr w3
          \<and> written_to E c (trace w3) = written_to E c (trace w1) @ fed
          \<and> bt_disconnected E c w3 = Inr w4 \<and> allocated w4 = allocated w))"
proof -
  from discovery_finds [OF peer(1-7) host(1)] obtain v where v: "discovery E U c h e cs w = Inr v"
    and found: "\<And>i. char_uuid U i \<in> fst ` set cs \<Longrightarrow> value_handle v c i \<noteq> 0" by blast
  note node = found [OF peer(8)] found [OF peer(9)] found [OF peer(7)]
  from discovery_cert(1) [OF v] have same: "server_crt_buf v = server_crt_buf w" "server_crt_len v = server_crt_len w"
    "server_crt_serial v = server_crt_serial w" "server_crt_serial_len v = server_crt_serial_len w"
    by (simp_all add: same_cert_def)
  have ok: "server_crt_len w \<le> length (server_crt_buf w)" "length (server_crt_serial w) = CERT_SERIAL_MAXLEN"
    "server_crt_serial_len w \<le> CERT_SERIAL_MAXLEN" "max_block_size E < 2 ^ 31" "dl_inv E w" "up_mem w"
    using inv(1) by (auto simp: gw_inv_def mem_ok_def owners_ok_def)
  have mem: "ret E t Malloc \<noteq> 0" for t using host(6) by (simp add: reads_accepted_def)
  note rest = discovery_restores [OF v]
  from exchange_certificates [OF host(3,4,6,2) node(1,2) discovery_cert(2) [OF v], unfolded same,
      OF cert ok(1-3) serial errs device inv(2) client(2,5) restored_inv(3) [OF rest inv(1)]]
  obtain x xs where x: "exchange E c serial errs device v = Inr (uplink_start E c x)"
    "trace x = trace v @ xs @ [Device_cert_set (concat ds @ d)]" "list_all exchanging xs"
    "written_to E c xs = (if knows sn v then [] else crt v)" "restored v x" "attr_handles (nodes x c) = attr_handles (nodes v c)" by blast
  note rest' = restored_trans [OF rest x(5)]
  have "value_handle x c ATTR_DOWNLINK \<noteq> 0" using node(3) x(6) by (simp add: value_handle_def)
  from session_uplink [OF rest' inv(1) client(1-4) mem packets host(2,3) this] obtain n s w1 zs a p b u where
    w1: "bnd (receive_all E c packets (uplink_start E c x))
        (acks E (uplink_end_cb E) (the (node_uplink (nodes (uplink_start E c x) c))) n) = Inr w1"
      "n \<le> Suc (length (whole E (concat ps @ q)))" "trace w1 = trace x @ zs" "concat (map (block_of s) zs) = whole E (concat ps @ q)"
      "node_uplink (nodes w1 c) = NULL" "uplinks w1 u = None" "both_open c m a p b u x w1" "dl_inv E w1" "up_mem w1" by blast
  from discovery_writes_nothing [OF v] obtain ys where
    ys: "trace v = trace w @ ys" "list_all exchanging ys" "written_to E c ys = []" by blast
  with x(3) have before: "list_all exchanging (ys @ xs)" by simp
  from ys(3) have "written_to E c (ys @ xs) = (if sn \<noteq> [] \<and> sn = take (server_crt_serial_len w) (server_crt_serial w) then [] else crt w)"
    by (simp add: x(4) knows_def crt_def same)
  moreover have "certified_run E U c h e cs serial errs device packets n w = Inr w1"
    unfolding certified_run_def v using x(1) w1(1) by simp
  moreover have "\<forall>crt. Device_cert_set crt \<notin> set (ys @ xs)" using before exchanging_cert unfolding list_all_iff by blast
  moreover have "trace w1 = trace w @ (ys @ xs) @ Device_cert_set (concat ds @ d) # zs" by (simp add: w1(3) x(2) ys(1))
  moreover note both_open_wired(1,2) [OF w1(7)]
  moreover have "slab_used w1 = slab_used w" using w1(7) rest' by (simp add: both_open_def restored_def streams_def)
  moreover have "\<exists>w3 w4. pump E c p (Suc (Suc (length (dl_left a w2)))) w2 = Inr w3
      \<and> written_to E c (trace w3) = written_to E c (trace w1) @ fed
      \<and> bt_disconnected E c w3 = Inr w4 \<and> allocated w4 = allocated w" if run: "downloading E c a w1 fed True out w2" for fed out w2
  proof -
    have "allocated x = allocated w" using rest' by (simp add: allocated_def restored_def streams_def)
    with download_closes [OF run host(3-5) w1(7,6,5,8,9) restored_inv(1,2) [OF rest' inv(1)]] show ?thesis by simp
  qed
  ultimately show ?thesis using w1(2,4,8) exchanging_blocks [OF before] by blast
qed

text \<open>
  A peer with all characteristics, whose serial number is another one; its device certificate comes in
  two packets, and so does its uplink; one block is downloaded.
\<close>

definition certified_peer :: "chrc list" where
  "certified_peer = [(6, 3, None), (7, 5, None), (5, 7, None), (4, 9, None)]"

definition gw_certified :: gw_world where
  "gw_certified = gw_boot\<lparr>server_crt_buf := [1, 2, 3, 4, 5, 0, 0, 0], server_crt_len := 5,
     server_crt_serial := [1, 2] @ replicate 18 0, server_crt_serial_len := 2, server_crt_id := 1\<rparr>"

lemma gw_certified_inv: "gw_inv small_env gw_certified"
  by (simp add: gw_certified_def gw_boot_def gw_inv_def owners_ok_def dl_inv_def slab_inv_def up_mem_def mem_ok_def fresh_above_def)

theorem session_gives_everything_back_witness:
  "\<exists>n s w1 w2 w3 w4 xs zs a p. certified_run small_env small_uuids 0 1 20 certified_peer [1, 8] (replicate 6 1) [[0, 7], [1, 8]]
       [[0, 1, 2, 3], [1, 4, 5]] n gw_certified = Inr w1
     \<and> trace w1 = xs @ Device_cert_set [7, 8] # zs \<and> written_to small_env 0 xs = [1, 2, 3, 4, 5]
     \<and> concat (map (block_of s) zs) = [(0, [1, 2, 3, 4], False), (1, [5], True)]
     \<and> downloading small_env 0 a w1 [6, 7] True True w2 \<and> pump small_env 0 p (Suc (Suc (length (dl_left a w2)))) w2 = Inr w3
     \<and> written_to small_env 0 (trace w3) = written_to small_env 0 (trace w1) @ [6, 7]
     \<and> bt_disconnected small_env 0 w3 = Inr w4 \<and> allocated w4 = allocated gw_certified"
proof -
  have uuids: "char_uuid small_uuids ATTR_UPLINK = 5" "char_uuid small_uuids ATTR_DOWNLINK = 4"
    "char_uuid small_uuids ATTR_SERVER_CERT = 6" "char_uuid small_uuids ATTR_DEVICE_CERT = 7"
    by (simp_all add: small_uuids_def)
  have ordered: "well_ordered certified_peer 20" by (simp add: well_ordered_def in_order_def certified_peer_def)
  have "inj (char_uuid small_uuids)" by (rule injI) (simp add: small_uuids_def split: gatt_attr.splits)
  moreover have "distinct (map fst certified_peer)" "char_uuid small_uuids ATTR_UPLINK \<in> fst ` set certified_peer"
    "char_uuid small_uuids ATTR_DOWNLINK \<in> fst ` set certified_peer"
    "char_uuid small_uuids ATTR_SERVER_CERT \<in> fst ` set certified_peer"
    "char_uuid small_uuids ATTR_DEVICE_CERT \<in> fst ` set certified_peer"
    "\<forall>(u, v, d) \<in> set certified_peer. d \<noteq> None \<longrightarrow> u \<in> range (char_uuid small_uuids)"
    by (simp_all add: certified_peer_def uuids)
  moreover have "server_crt_len gw_certified = 5" "trace gw_certified = []" "slab_used gw_certified = 0"
    "server_crt_serial gw_certified = [1, 2] @ replicate 18 0" "server_crt_serial_len gw_certified = 2" "crt gw_certified = [1, 2, 3, 4, 5]"
    by (simp_all add: gw_certified_def gw_boot_def crt_def)
  moreover have "map (pk_decode small_env) [[0, 1, 2, 3], [1, 4, 5]] = map (\<lambda>p. Inr (p, False)) [[1, 2, 3]] @ [Inr ([4, 5], True)]"
    "map (pk_decode small_env) [[0, 7], [1, 8]] = map (\<lambda>p. Inr (p, False)) [[7]] @ [Inr ([8], True)]"
    "pk_decode small_env [1, 8] = Inr ([8], True)"
    by (simp_all add: small_env_def)
  moreover have "whole small_env (concat [[1, 2, 3]] @ [4, 5]) = [(0, [1, 2, 3, 4], False), (1, [5], True)]"
    by (simp add: whole_def chunks.simps stamped_def upt_rec)
  moreover have "accepts small_env s" for s by (simp add: accepts_def)
  moreover note small_env_link small_env_idle small_env_reads gw_certified_inv
  ultimately have "\<exists>n s w1 xs zs a p. certified_run small_env small_uuids 0 1 20 certified_peer [1, 8] (replicate 6 1) [[0, 7], [1, 8]]
       [[0, 1, 2, 3], [1, 4, 5]] n gw_certified = Inr w1
    \<and> n \<le> Suc (length (whole small_env (concat [[1, 2, 3]] @ [4, 5])))
    \<and> trace w1 = xs @ Device_cert_set [7, 8] # zs \<and> written_to small_env 0 xs = [1, 2, 3, 4, 5]
    \<and> (\<forall>crt. Device_cert_set crt \<notin> set xs) \<and> concat (map (block_of s) xs) = []
    \<and> concat (map (block_of s) zs) = [(0, [1, 2, 3, 4], False), (1, [5], True)]
    \<and> downlinks w1 a = Some (new_downlink 0) \<and> wired 0 a p 23 w1 \<and> dl_inv small_env w1 \<and> slab_used w1 = 0
    \<and> (\<forall>fed out w2. downloading small_env 0 a w1 fed True out w2 \<longrightarrow>
        (\<exists>w3 w4. pump small_env 0 p (Suc (Suc (length (dl_left a w2)))) w2 = Inr w3
          \<and> written_to small_env 0 (trace w3) = written_to small_env 0 (trace w1) @ fed
          \<and> bt_disconnected small_env 0 w3 = Inr w4 \<and> allocated w4 = allocated gw_certified))"
    using session_gives_everything_back [OF ordered, of small_uuids small_env 0 23 gw_certified "[1, 8]" "[8]" "replicate 6 1"
        "[[0, 7], [1, 8]]" "[[7]]" "[8]" "[[0, 1, 2, 3], [1, 4, 5]]" "[[1, 2, 3]]" "[4, 5]" 1]
    by (simp del: pump.simps)
  then obtain n s w1 xs zs a p where
    w1: "certified_run small_env small_uuids 0 1 20 certified_peer [1, 8] (replicate 6 1) [[0, 7], [1, 8]]
       [[0, 1, 2, 3], [1, 4, 5]] n gw_certified = Inr w1"
      "trace w1 = xs @ Device_cert_set [7, 8] # zs" "written_to small_env 0 xs = [1, 2, 3, 4, 5]"
      "concat (map (block_of s) zs) = [(0, [1, 2, 3, 4], False), (1, [5], True)]"
      "downlinks w1 a = Some (new_downlink 0)" "wired 0 a p 23 w1" "dl_inv small_env w1" "slab_used w1 = 0"
    and closes: "\<forall>fed out w2. downloading small_env 0 a w1 fed True out w2 \<longrightarrow>
        (\<exists>w3 w4. pump small_env 0 p (Suc (Suc (length (dl_left a w2)))) w2 = Inr w3
          \<and> written_to small_env 0 (trace w3) = written_to small_env 0 (trace w1) @ fed
          \<and> bt_disconnected small_env 0 w3 = Inr w4 \<and> allocated w4 = allocated gw_certified)"
    by (elim exE conjE) (rule that)
  have "going small_env 0 a p 23 False w1" using w1(5-7) by (simp add: going_def)
  from block_arrives [OF this small_env_link small_env_idle, of "[6, 7]" True] w1(8) obtain w2 where
    "downlink_block_cb small_env (downlink_data_available small_env) [6, 7] True (Some a) w1 = Inr (GOLIOTH_OK, w2)" by auto
  from download_block [OF download_opened _ _ _ this] w1(8) have run: "downloading small_env 0 a w1 [6, 7] True True w2" by simp
  with closes obtain w3 w4 where "pump small_env 0 p (Suc (Suc (length (dl_left a w2)))) w2 = Inr w3"
    "written_to small_env 0 (trace w3) = written_to small_env 0 (trace w1) @ [6, 7]"
    "bt_disconnected small_env 0 w3 = Inr w4" "allocated w4 = allocated gw_certified" by blast
  with run w1(1-4) show ?thesis
    by (intro exI [of _ n] exI [of _ s] exI [of _ w1] exI [of _ w2] exI [of _ w3] exI [of _ w4] exI [of _ xs] exI [of _ zs]
        exI [of _ a] exI [of _ p]) (simp del: pump.simps)
qed

end
