(* ===== verification/Fatal.thy ===== *)
theory Fatal
  imports Gateway_App
begin

text \<open>
  \<open>gateway/src/fatal_error.c\<close>: the handler the kernel calls on a fatal error, which resets the system.
  The life of a gateway is a sequence of epochs, each from a boot to the fault that ends it; nothing is
  kept from one epoch to the next.
\<close>

subsection \<open>The handler\<close>

text \<open>The kinds of reset are those of \<open>sys_reboot\<close>; the log is not modelled.\<close>

datatype reboot = SYS_REBOOT_WARM | SYS_REBOOT_COLD

definition k_sys_fatal_error_handler :: "nat \<Rightarrow> reboot" where
  "k_sys_fatal_error_handler reason = SYS_REBOOT_COLD"

subsection \<open>Faults of the application\<close>

text \<open>The entries of the libraries that fault; the others never do.\<close>

inductive gw_fault :: "'e env_scheme \<Rightarrow> uuids \<Rightarrow> 'a gw_world_scheme \<Rightarrow> fault \<Rightarrow> bool" for E U w where
  fault_disconnected: "bt_disconnected E c w = Inl f \<Longrightarrow> gw_fault E U w f"
| fault_service: "discover_services E U c svc w = Inl f \<Longrightarrow> gw_fault E U w f"
| fault_characteristic: "discover_characteristics E U c chrc w = Inl f \<Longrightarrow> gw_fault E U w f"
| fault_descriptor: "discover_descriptors E c ccc w = Inl f \<Longrightarrow> gw_fault E U w f"
| fault_serial: "server_cert_read_cb E c err packet w = Inl f \<Longrightarrow> gw_fault E U w f"
| fault_device_cert: "device_cert_read_cb E c err packet w = Inl f \<Longrightarrow> gw_fault E U w f"
| fault_server_cert: "server_cert_write_response_cb E c err w = Inl f \<Longrightarrow> gw_fault E U w f"
| fault_uplink_read: "uplink_read_cb E c err packet w = Inl f \<Longrightarrow> gw_fault E U w f"
| fault_uplink_indicate: "uplink_indicate_cb E c pkt w = Inl f \<Longrightarrow> gw_fault E U w f"
| fault_downlink_written: "downlink_write_response_cb E c err w = Inl f \<Longrightarrow> gw_fault E U w f"
| fault_acknowledged: "block_upload_callback E (uplink_end_cb E) status p w = Inl f \<Longrightarrow> gw_fault E U w f"
| fault_block: "downlink_block_cb E (downlink_data_available E) src lst p w = Inl f \<Longrightarrow> gw_fault E U w f"
| fault_end: "downlink_end_cb (downlink_data_available E) status p w = Inl f \<Longrightarrow> gw_fault E U w f"

inductive app_fault :: "'e env_scheme \<Rightarrow> uuids \<Rightarrow> app_cfg \<Rightarrow> ('a gw_world_scheme, 's) app_scheme \<Rightarrow> fault \<Rightarrow> bool"
  for E U C s where
  fault_main: "main_step E C s = Some (Inl f) \<Longrightarrow> app_fault E U C s f"
| fault_radio: "bt_up s \<Longrightarrow> gw_fault E U (gw s) f \<Longrightarrow> app_fault E U C s f"

subsection \<open>Epochs\<close>

text \<open>
  The surroundings of an epoch are any of \<open>P\<close>; \<open>past\<close> records those of the epochs that have ended,
  with the calls made in them.  That a cold reset sets the memory up anew (\<open>app_boot\<close>) is documented
  behaviour of \<open>sys_reboot\<close> and of the start-up of C, and assumed here.  A fault stands for
  undefined behaviour: whether the kernel notices it is up to the platform; the epochs here are
  those it ended for this reason.
\<close>

inductive life :: "('e env_scheme \<Rightarrow> bool) \<Rightarrow> uuids \<Rightarrow> adv \<Rightarrow> app_cfg \<Rightarrow> ('e env_scheme \<times> ext_call list) list
    \<Rightarrow> 'e env_scheme \<Rightarrow> ('a gw_world_scheme, 's) app_scheme \<Rightarrow> bool \<Rightarrow> bool" for P U A C where
  life_boot: "P E \<Longrightarrow> app_boot E s \<Longrightarrow> life P U A C [] E (connect_to_cloud E C s) False"
| life_step: "life P U A C past E s b \<Longrightarrow> app_step E U A C (s, b) (s', b') \<Longrightarrow> life P U A C past E s' b'"
| life_reset: "life P U A C past E s b \<Longrightarrow> app_fault E U C s f \<Longrightarrow> k_sys_fatal_error_handler reason = SYS_REBOOT_COLD
    \<Longrightarrow> P E' \<Longrightarrow> app_boot E' s' \<Longrightarrow> life P U A C (past @ [(E, trace (gw s))]) E' (connect_to_cloud E' C s') False"

text \<open>So each epoch is a run of the application of its own.\<close>

lemma life_reach:
  fixes s :: "('a gw_world_scheme, 's) app_scheme"
  assumes "life P U A C past E s b"
  shows "P E \<and> app_reach E U A C s b
    \<and> (\<forall>(E', t) \<in> set past. P E' \<and> (\<exists>(s' :: ('a gw_world_scheme, 's) app_scheme) b'. app_reach E' U A C s' b' \<and> trace (gw s') = t))"
    (is "_ \<and> _ \<and> (\<forall>(E', t) \<in> set past. ?epoch E' t)")
  using assms
proof induction
  case (life_reset past E s b f reason E' s')
  then have "?epoch E (trace (gw s))" by blast
  with life_reset show ?case by (auto intro: reach_main)
qed (auto intro: reach_main reach_step)

lemma life_traces:
  fixes s :: "('a gw_world_scheme, 's) app_scheme"
  assumes "life P U A C past E s b"
    and "\<And>E (s :: ('a gw_world_scheme, 's) app_scheme) b. P E \<Longrightarrow> app_reach E U A C s b \<Longrightarrow> Q (trace (gw s))"
  shows "\<forall>t \<in> set (trace (gw s) # map snd past). Q t"
  using life_reach [OF assms(1)] assms(2) by fastforce

subsection \<open>Before Bluetooth\<close>

definition memory :: "'a ext_world_scheme \<Rightarrow> 'a ext_world_scheme" where
  "memory w = w\<lparr>trace := []\<rparr>"

lemma connect_memory: "memory (gw (connect_golioth_client E C s)) = memory (gw s)"
  by (cases E C s rule: connect_golioth_client_cases) (simp_all add: memory_def)

lemma cloud_memory: "memory (gw (connect_to_cloud E C s)) = memory (gw s)"
  by (simp add: connect_to_cloud_def wait_for_network_def connect_memory app_call_def ext_call_def) (simp add: memory_def)

text \<open>Until main fetches the first certificate, the memory is as the boot left it.\<close>

lemma early_step:
  assumes "app_step E U A C (s, b) (s', b')" and "early s'"
  shows "early s \<and> memory (gw s') = memory (gw s)"
  using assms(1)
proof cases
  case step_main
  with assms(2) show ?thesis
    by (auto simp: main_step_def startup_def early_def sem_take_def Let_def ext_call_def connect_memory elim!: bnd_InrE
        split: main_at.splits if_splits)
next
  case (step_lte ev)
  with assms(2) show ?thesis
    by (cases ev) (auto simp: lte_handler_def early_def connect_main_at connect_memory split: if_splits)
next
  case (step_radio w')
  with assms(2) show ?thesis by (auto simp: early_def bt_up_def)
qed (use assms(2) in \<open>auto simp: on_client_event_def net_mgmt_cb_def early_def split: net_event.splits if_splits\<close>)

lemma early_boot:
  fixes s :: "('a gw_world_scheme, 's) app_scheme"
  assumes "app_reach E U A C s b" and "early s"
  shows "\<exists>s0 :: ('a gw_world_scheme, 's) app_scheme. app_boot E s0 \<and> memory (gw s) = memory (gw s0)"
  using assms
proof induction
  case (reach_main s)
  show ?case by (rule exI [of _ s]) (use reach_main cloud_memory in auto)
next
  case (reach_step s b s' b')
  with early_step [OF reach_step(2,4)] show ?case by auto
qed

lemma memoryD:
  fixes w w' :: "'a gw_world_scheme"
  assumes "memory w = memory w'"
  shows "slab w = slab w'" "slab_used w = slab_used w'" "downlinks w = downlinks w'" "uplinks w = uplinks w'"
    "pblocks_live w = pblocks_live w'" "packetizers w = packetizers w'" "scratches w = scratches w'"
    "device_ctxs w = device_ctxs w'" "server_ctxs w = server_ctxs w'" "server_crt_len w = server_crt_len w'"
    "nodes w = nodes w'" "server_crt_buf w = server_crt_buf w'" "server_crt_serial w = server_crt_serial w'"
  using assms by (cases w, cases w', simp add: memory_def)+

subsection \<open>A reset that mends nothing\<close>

definition long_serial :: "'e env_scheme \<Rightarrow> bool" where
  "long_serial E \<longleftrightarrow> cloud E \<and> (\<forall>t crt. ret E t Server_cert_get = 0 \<and> 0 \<le> ret E t (X509_parse crt)
     \<and> CERT_SERIAL_MAXLEN < length (serial_of E crt))"

lemma long_serial_faults:
  fixes s :: "('a gw_world_scheme, 's) app_scheme"
  assumes "long_serial E" and "app_reach E U A C s b" and "main_at s = At_startup"
  shows "startup E s = Inl Buffer_overflow"
proof -
  have "early s" using assms(3) by (simp add: early_def)
  from early_boot [OF assms(2) this] obtain s0 :: "('a gw_world_scheme, 's) app_scheme" where
    "booted E (gw s0)" "memory (gw s) = memory (gw s0)"
    unfolding app_boot_def by blast
  then have room: "length (server_crt_buf (gw s)) = server_cert_max E" "length (server_crt_serial (gw s)) = CERT_SERIAL_MAXLEN"
    using memoryD(12,13) [of "gw s" "gw s0"] by (simp_all add: booted_def)
  moreover have "cloud E" "ret E t Server_cert_get = 0" "\<not> ret E t (X509_parse crt) < 0"
    "\<not> length (serial_of E crt) \<le> CERT_SERIAL_MAXLEN" for t crt
    using assms(1) by (simp_all add: long_serial_def not_less not_le)
  ultimately have "cert_module_on_connected E (gw s) = Inl Buffer_overflow"
    by (simp add: cert_module_on_connected_def server_crt_update_def ext_call_def Let_def peek_def poke_def bnd_simps)
  then show ?thesis by (simp add: startup_def)
qed

lemma long_serial_early:
  assumes "app_reach E U A C s b" and "long_serial E"
  shows "early s"
  using assms(1)
proof induction
  case (reach_main s)
  show ?case using assms(2) by (auto simp: connect_to_cloud_def wait_for_network_def early_def)
next
  case (reach_step s b s' b')
  from reach_step(2) show ?case
  proof cases
    case step_main
    with reach_step(3) long_serial_faults [OF assms(2) reach_step(1)] show ?thesis
      by (auto simp: main_step_def early_def split: main_at.splits)
  next
    case (step_lte ev)
    with reach_step(3) show ?thesis by (cases ev) (auto simp: lte_handler_def early_def connect_main_at)
  next
    case (step_radio w')
    with reach_step(3) show ?thesis by (auto simp: early_def bt_up_def)
  qed (use reach_step(3) in \<open>auto simp: on_client_event_def net_mgmt_cb_def early_def split: net_event.splits\<close>)
qed

text \<open>
  With a server certificate whose serial number is longer than the 20 bytes kept for it, resets mend
  nothing: if the overrun is noticed, the gateway never gets past the first fetch, in no epoch, and
  Bluetooth is never enabled.
\<close>

theorem long_serial_resets_forever:
  fixes s :: "('a gw_world_scheme, 's) app_scheme"
  assumes "life P U A C past E s b" and "\<And>E. P E \<Longrightarrow> long_serial E"
  shows "early s \<and> (main_at s = At_startup \<longrightarrow> app_fault E U C s Buffer_overflow)
    \<and> (\<forall>t \<in> set (trace (gw s) # map snd past). Bt_enable \<notin> set t)"
proof -
  have "\<forall>t \<in> set (trace (gw s) # map snd past). Bt_enable \<notin> set t"
  proof (rule life_traces [OF assms(1)])
    fix E and s :: "('a gw_world_scheme, 's) app_scheme" and b
    assume run: "P E" "app_reach E U A C s b"
    with assms(2) have "long_serial E" by blast
    with app_ok_reach [OF run(2)] long_serial_early [OF run(2)] show "Bt_enable \<notin> set (trace (gw s))"
      by (auto simp: long_serial_def app_ok_def network_call_def)
  qed
  moreover from life_reach [OF assms(1)] assms(2) have now: "app_reach E U A C s b" "long_serial E" by blast+
  moreover have "app_fault E U C s Buffer_overflow" if "main_at s = At_startup"
    using long_serial_faults [OF now(2,1) that] that by (intro fault_main) (simp add: main_step_def)
  ultimately show ?thesis using long_serial_early by blast
qed

text \<open>Two epochs: the client connects, the certificate is fetched, the overrun resets the gateway.\<close>

definition long_env :: env where
  "long_env = small_env\<lparr>serial_of := (\<lambda>_. replicate 21 1)\<rparr>"

lemma long_env_serial: "long_serial long_env"
  by (simp add: long_serial_def long_env_def small_env_def)

lemma long_env_simps: "cloud long_env" "app_boot long_env small_boot" "connect_to_cloud long_env small_cfg small_boot = small_started"
  using small_boot_ok
  by (simp_all add: long_env_def app_boot_def booted_def connect_to_cloud_def connect_golioth_client_def small_cfg_def
      app_call_def small_started_eq small_boot_def gw_boot_def ext_call_def)

abbreviation long_life :: "(env \<times> ext_call list) list \<Rightarrow> gw_world app \<Rightarrow> bool \<Rightarrow> bool" where
  "long_life past \<equiv> life (\<lambda>E. E = long_env) small_uuids upper_adv small_cfg past long_env"

lemma long_life_startup: "long_life [] (small_started\<lparr>main_at := At_startup\<rparr>) True"
proof -
  define s1 where "s1 = on_client_event CLIENT_EVENT_CONNECTED small_started"
  have start: "long_life [] small_started False"
    using life_boot [of "\<lambda>E. E = long_env" long_env small_boot small_uuids upper_adv small_cfg] by (simp add: long_env_simps)
  have "app_step long_env small_uuids upper_adv small_cfg (small_started, False) (s1, False \<or> True)"
    using step_client [of small_started long_env small_uuids upper_adv small_cfg False CLIENT_EVENT_CONNECTED]
    by (simp add: s1_def small_started_eq)
  from life_step [OF start this] have s1: "long_life [] s1 True" by simp
  have "main_step long_env small_cfg s1 = Some (Inr (small_started\<lparr>main_at := At_startup\<rparr>))"
    by (simp add: s1_def main_step_def sem_take_def on_client_event_def sem_give_def small_started_eq small_boot_def)
  from life_step [OF s1 step_main [OF this]] show ?thesis
    by (simp add: s1_def refreshing_def on_client_event_def small_started_eq small_boot_def)
qed

lemma long_life_reset: "long_life [(long_env, [Dhcp_start, Client_create, Client_register True])] small_started False"
proof -
  have "app_fault long_env small_uuids small_cfg (small_started\<lparr>main_at := At_startup\<rparr>) Buffer_overflow"
    using long_serial_faults [OF long_env_serial, of small_uuids upper_adv small_cfg "small_started\<lparr>main_at := At_startup\<rparr>" True]
      life_reach [OF long_life_startup]
    by (intro fault_main) (simp add: main_step_def)
  from life_reset [OF long_life_startup this, of 0 long_env small_boot] show ?thesis
    by (simp add: long_env_simps k_sys_fatal_error_handler_def) (simp add: small_started_eq small_boot_def)
qed

theorem long_serial_resets_forever_witness:
  "app_fault long_env small_uuids small_cfg (small_started\<lparr>main_at := At_startup\<rparr>) Buffer_overflow"
  using long_serial_resets_forever [OF long_life_startup] long_env_serial by simp

end
