(* ===== verification/Spec2Isabelle.thy ===== *)
theory Spec2Isabelle
  imports Wakeup Cert_Props Downlink_Source Discovery Uplink_Race Gateway_App Abandoned Shared_Params Connecting Session Sample_App Whole_Session Fatal
begin

text \<open>
  \<^bold>\<open>The Golioth Pouch gateway.\<close>  The gateway is a Bluetooth central that carries encrypted
  blocks between Bluetooth-only nodes and the Golioth cloud.  It scans for nodes that ask for a
  synchronisation (\<open>lib/bt/scan.c\<close>), connects, discovers the Pouch service
  (\<open>lib/bt/connect.c\<close>), exchanges certificates if the node has the characteristics for it
  (\<open>lib/bt/cert.c\<close> over \<open>lib/cert.c\<close>), then reads the node's uplink (\<open>lib/bt/uplink.c\<close> over
  \<open>lib/uplink.c\<close>) while the cloud's answer is written to the node block by block
  (\<open>lib/bt/downlink.c\<close> over \<open>lib/downlink.c\<close>, blocks from the pool of \<open>lib/block.c\<close>).  When a
  connection ends, \<open>gateway/src/main.c\<close> releases it and scans again.

  \<^bold>\<open>How the code is modelled.\<close>  Every C function is one definition that passes the state
  explicitly and returns \<open>fault + result\<close>: \<open>Inl\<close> is undefined behaviour (NULL dereference, use
  after free, a copy outside a buffer, the wrong member of the union), error codes are ordinary
  results.  The state is a record that grows layer by layer: \<open>ext_world\<close> (trace of external
  calls, allocator), \<open>slab_world\<close> (block pool), \<open>downlink_world\<close>, \<open>uplink_world\<close>, \<open>cert_world\<close>,
  \<open>gw_world\<close> (node records, packetizers, scratch buffers), \<open>sync_world\<close> (the sample).  Heap
  objects live in partial maps from addresses, so aliasing and dangling pointers are visible.
  Code outside the repository (Zephyr, the Golioth SDK, mbedTLS, the Pouch packetizer) is the
  record \<open>env\<close>: what each call returns may depend on the whole history, and the theorems
  hold for every such environment unless a hypothesis says what they rely on.

  \<^bold>\<open>Theories.\<close>
  \<^item> \<open>Gateway_Prelude\<close>, \<open>Platform\<close>: faults and their bind, buffers, \<open>size_t\<close> sums, FIFOs, the
    environment.
  \<^item> \<open>Block\<close>: the pool, the locale \<open>block_pool\<close> with the laws its clients use, and its
    interpretation.
  \<^item> \<open>Downlink\<close>, \<open>Downlink_Inv\<close>, \<open>Downlink_Stream\<close>, \<open>Downlink_Source\<close>: contexts, the ownership
    invariant \<open>dl_inv\<close> over all of them, the specification \<open>draw\<close> on lists of segments that
    \<open>get_data\<close> refines, the FIFO stream of a download.
  \<^item> \<open>Wakeup\<close>: the two threads of the downlink as a step relation.
  \<^item> \<open>Uplink\<close>, \<open>Uplink_Stream\<close>, \<open>Uplink_Props\<close>, \<open>Uplink_Mem\<close>: the uplink, the invariant that ties
    sent, queued and open blocks to the bytes written, its outcomes, and the count of live blocks
    (locale \<open>uplink_owner\<close>).
  \<^item> \<open>Byte_Source\<close>: the contract of a source that is drained chunk by chunk; interpreted by the
    downlink and by the server certificate.
  \<^item> \<open>Cert\<close>, \<open>Cert_Props\<close>: device and server certificates.
  \<^item> \<open>Node\<close>, \<open>Bt_Downlink\<close>, \<open>Bt_Uplink\<close>, \<open>Bt_Cert\<close> and their \<open>_Props\<close>: the Bluetooth glue.
  \<^item> \<open>Scan\<close>, \<open>Connect\<close>, \<open>Connect_Props\<close>, \<open>Discovery\<close>: advertisements, discovery, connections, and
    the handles a whole discovery finds on a peer.
  \<^item> \<open>Uplink_Race\<close>: the two threads of the uplink, one step per access to shared state (flags, queue,
    \<open>rblock\<close>): what holds in every interleaving, what the close and an acknowledgement can spoil, and
    that nothing is spoilt when the handlers do not overlap.
  \<^item> \<open>Glue_Inv\<close>, \<open>Pointer_Calculus\<close>, \<open>Gateway_System\<close>: every entry of the libraries as one step
    relation \<open>gw_step\<close>; the locale \<open>glue_invariant\<close> lifts what the operations of \<open>lib/\<close> keep to all
    handlers of \<open>lib/bt/\<close>, and is interpreted with block ownership, uplink memory, certificate
    buffers and the requests made.  The locales \<open>uplink_at\<close> and \<open>downlink_at\<close> do the same for the
    operations of a library on one context.
  \<^item> \<open>Gateway_App\<close>: the main program, its semaphores, client and network callbacks, and the runs of
    the whole application.
  \<^item> \<open>Conn_Inv\<close>, \<open>Ownership\<close>, \<open>Isolation\<close>: what a connection owns (its record and all it
    reaches); no two connections ever share anything, and a step of one leaves all that the others
    own as it is.
  \<^item> \<open>Connecting\<close>: the set-up of a connection, from the connection event to the start of the uplink,
    as a state machine of the one outstanding request, in which no answer leads to a fault.
  \<^item> \<open>Uplink_Delivery\<close>, \<open>Session\<close>: from the packets of a node to the blocks in the cloud: with anything
    happening in between, and for a whole session of a node without certificates.
  \<^item> \<open>Download\<close>: a download from the blocks of the cloud to the writes to the node, its blocks and the
    answers of the node in any order (\<open>going\<close> holds between the handlers, \<open>downloading\<close> is the run).
  \<^item> \<open>Exchange\<close>, \<open>Whole_Session\<close>: the certificate exchange after a discovery, and the session of a node
    with certificates from the connection to the disconnect, after which all it used is given back.
  \<^item> \<open>Fatal\<close>: the handler of fatal errors, and the epochs of a gateway between its resets; that a reset
    sets the memory up anew is assumed.
  \<^item> \<open>Sample_App\<close>: \<open>samples/custom_connect\<close> with its work item, and its runs.
  \<^item> \<open>Abandoned\<close>, \<open>Shared_Params\<close>: defects that need several components: blocks lost with an
    abandoned download, uplinks kept for ever without the cloud, and the parameter union used by
    both directions.

  \<^bold>\<open>Bounds.\<close>  Both loops (\<open>get_data_loop\<close>, \<open>write_loop\<close>) are total, with measures for their
  termination, so no fuel is involved; the drivers that repeat a request (\<open>drain\<close>, \<open>pump\<close>,
  \<open>acks\<close>, \<open>cert_pump\<close>) take a count, and the theorems say which count suffices.  Runs of the
  threads and of the whole application are inductive relations of any length.

  \<^bold>\<open>Atomicity.\<close>  A handler of \<open>lib/bt/\<close> and a step of the main thread run to their end before the next
  one begins, except in \<open>Wakeup\<close> and \<open>Uplink_Race\<close>, which are about what happens otherwise.

  \<^bold>\<open>The finished callback.\<close>  \<open>pouch_gateway_bt_finished\<close> is the application's.  The handlers call
  that of the gateway; \<open>Sample_App\<close> translates the start and the stop of the library again with that
  of the sample, and of the other handlers its runs use only that they keep the state of the
  sample and may report a connection finished.

  \<^bold>\<open>Next.\<close>  The interleaving of the threads of the downlink and the uplink inside the handlers; a
  whole session while other connections go on; the answers of a session that fails half way.

  \<^bold>\<open>Not modelled.\<close>  Logging; the time a call takes (a wait for a free block is its outcome);
  what the kernel does before it calls the handler of fatal errors; build files, scripts and tests.
\<close>

end
